(* ===== verification/Prelude.thy ===== *)
theory Prelude
  imports Main "HOL-Library.Word"
begin

text \<open>
  Shared ground of the development: the machine integers of the Rust sources, the little-endian
  byte codec behind \<open>to_le_bytes\<close> and \<open>from_le_bytes\<close>, the value \<open>Panic\<close> for a Rust panic
  together with the subslice and subtraction operations that may raise it, the fixed-size buffer
  operations, and the collections of rewrite rules that the component theories use.
\<close>

unbundle bit_operations_syntax

type_synonym u8 = "8 word"
type_synonym u16 = "16 word"
type_synonym u32 = "32 word"
type_synonym u64 = "64 word"

named_theorems frame_simps
  \<open>rules that evaluate the construction and the reading of fixed-size frames\<close>
named_theorems run_simps
  \<open>rules that evaluate operations that may panic\<close>

section \<open>Panics\<close>

text \<open>
  A Rust function that slices, subtracts or calls \<open>expect\<close> either returns or panics. Where the
  source can panic the model returns a \<open>run\<close> value, and the theorems state that the panic is
  not reached.
\<close>

datatype 'a run = Done 'a | Panic

definition run_bind :: "'a run \<Rightarrow> ('a \<Rightarrow> 'b run) \<Rightarrow> 'b run" where
  "run_bind r f = (case r of Done x \<Rightarrow> f x | Panic \<Rightarrow> Panic)"

definition run_map :: "('a \<Rightarrow> 'b) \<Rightarrow> 'a run \<Rightarrow> 'b run" where
  "run_map f r = run_bind r (\<lambda>x. Done (f x))"

lemma run_bind_simps [simp, run_simps]:
  "run_bind (Done x) f = f x"
  "run_bind Panic f = Panic"
  by (simp_all add: run_bind_def)

lemma run_map_simps [simp, run_simps]:
  "run_map g (Done x) = Done (g x)"
  "run_map g Panic = Panic"
  by (simp_all add: run_map_def)

lemma run_bind_eq_Done_iff:
  "run_bind r f = Done y \<longleftrightarrow> (\<exists>x. r = Done x \<and> f x = Done y)"
  by (cases r) auto

lemma run_map_eq_Done_iff:
  "run_map g r = Done y \<longleftrightarrow> (\<exists>x. r = Done x \<and> g x = y)"
  by (cases r) auto

text \<open>\<open>Result::expect\<close>: the value of an \<open>Ok\<close>, a panic for an \<open>Err\<close>.\<close>

definition expect :: "'e + 'a \<Rightarrow> 'a run" where
  "expect r = (case r of Inr x \<Rightarrow> Done x | Inl _ \<Rightarrow> Panic)"

lemma expect_simps [simp, run_simps]:
  "expect (Inr x) = Done x"
  "expect (Inl e) = Panic"
  by (simp_all add: expect_def)

text \<open>
  The range index \<open>xs[i..j]\<close> panics unless \<open>i <= j\<close> and \<open>j <= xs.len()\<close>; the subtraction of
  two \<open>usize\<close> values panics (overflow checks on) when it would be negative.
\<close>

definition subslice :: "'a list \<Rightarrow> nat \<Rightarrow> nat \<Rightarrow> 'a list run" where
  "subslice xs i j = (if i \<le> j \<and> j \<le> length xs then Done (take (j - i) (drop i xs)) else Panic)"

definition usub :: "nat \<Rightarrow> nat \<Rightarrow> nat run" where
  "usub a b = (if b \<le> a then Done (a - b) else Panic)"

lemma subslice_Done [run_simps]:
  "i \<le> j \<Longrightarrow> j \<le> length xs \<Longrightarrow> subslice xs i j = Done (take (j - i) (drop i xs))"
  by (simp add: subslice_def)

lemma usub_Done [run_simps]: "b \<le> a \<Longrightarrow> usub a b = Done (a - b)"
  by (simp add: usub_def)

lemma subslice_length: "subslice xs i j = Done ys \<Longrightarrow> length ys = j - i"
  by (auto simp: subslice_def split: if_splits)

section \<open>Fixed-size buffers\<close>

text \<open>
  \<open>zeros n\<close> is \<open>[0u8; n]\<close>; \<open>copy_at i bs p\<close> is \<open>p[i..i + bs.len()].copy_from_slice(bs)\<close> for a
  range inside \<open>p\<close>.
\<close>

definition zeros :: "nat \<Rightarrow> u8 list" where
  "zeros n = replicate n 0"

definition copy_at :: "nat \<Rightarrow> 'a list \<Rightarrow> 'a list \<Rightarrow> 'a list" where
  "copy_at i bs p = take i p @ bs @ drop (i + length bs) p"

lemma length_zeros [simp, frame_simps]: "length (zeros n) = n"
  by (simp add: zeros_def)

lemma length_copy_at [simp]: "i + length bs \<le> length p \<Longrightarrow> length (copy_at i bs p) = length p"
  by (simp add: copy_at_def)

lemma zeros_0 [simp]: "zeros 0 = []"
  by (simp add: zeros_def)

lemma zeros_8 [frame_simps]: "zeros 8 = [0, 0, 0, 0, 0, 0, 0, 0]"
  by (simp add: zeros_def numeral_eq_Suc)

lemma zeros_6 [frame_simps]: "zeros 6 = [0, 0, 0, 0, 0, 0]"
  by (simp add: zeros_def numeral_eq_Suc)

lemma zeros_5 [frame_simps]: "zeros 5 = [0, 0, 0, 0, 0]"
  by (simp add: zeros_def numeral_eq_Suc)

lemma take_zeros [simp]: "take k (zeros n) = zeros (min k n)"
  by (simp add: zeros_def min.commute)

lemma drop_zeros [simp]: "drop k (zeros n) = zeros (n - k)"
  by (simp add: zeros_def)

lemma list_of_length_8:
  "length xs = 8 \<Longrightarrow> xs = [xs ! 0, xs ! 1, xs ! 2, xs ! 3, xs ! 4, xs ! 5, xs ! 6, xs ! 7]"
  by (simp add: list_eq_iff_nth_eq nth_Cons' numeral_eq_Suc less_Suc_eq)

lemma length_8_cases:
  assumes "length xs = 8"
  obtains a0 a1 a2 a3 a4 a5 a6 a7 where "xs = [a0, a1, a2, a3, a4, a5, a6, a7]"
  using list_of_length_8 [OF assms] by blast

section \<open>Little-endian bytes\<close>

text \<open>
  \<open>le_bytes n w\<close> are the \<open>n\<close> low bytes of \<open>w\<close>, least significant first (\<open>to_le_bytes\<close> for
  \<open>n\<close> the width of the type in bytes), and \<open>from_le\<close> reads such a list back
  (\<open>from_le_bytes\<close>). Signed integers and floating-point numbers are kept as the bit pattern
  their \<open>to_le_bytes\<close> writes.
\<close>

fun le_bytes :: "nat \<Rightarrow> 'a::len word \<Rightarrow> u8 list" where
  "le_bytes 0 w = []"
| "le_bytes (Suc n) w = ucast w # le_bytes n (drop_bit 8 w)"

fun from_le :: "u8 list \<Rightarrow> 'a::len word" where
  "from_le [] = 0"
| "from_le (b # bs) = ucast b OR push_bit 8 (from_le bs)"

lemma length_le_bytes [simp]: "length (le_bytes n w) = n"
  by (induction n arbitrary: w) auto

lemma le_bytes_numeral [frame_simps]:
  "le_bytes (numeral k) w = ucast w # le_bytes (pred_numeral k) (drop_bit 8 w)"
  by (simp add: numeral_eq_Suc)

lemma le_bytes_unfold [frame_simps]:
  "le_bytes 1 w = [ucast w]"
  "le_bytes 2 w = [ucast w, ucast (drop_bit 8 w)]"
  "le_bytes 4 w = [ucast w, ucast (drop_bit 8 w), ucast (drop_bit 16 w), ucast (drop_bit 24 w)]"
  "le_bytes 8 w = [ucast w, ucast (drop_bit 8 w), ucast (drop_bit 16 w), ucast (drop_bit 24 w),
     ucast (drop_bit 32 w), ucast (drop_bit 40 w), ucast (drop_bit 48 w), ucast (drop_bit 56 w)]"
  by (simp_all add: le_bytes_numeral drop_bit_drop_bit del: drop_bit_eq_div)

lemma bit_from_le_bound: "bit (from_le bs :: 'a::len word) k \<Longrightarrow> k < 8 * length bs"
proof (induction bs arbitrary: k)
  case Nil
  then show ?case by simp
next
  case (Cons b bs)
  then show ?case
    by (fastforce simp: bit_or_iff bit_push_bit_iff bit_unsigned_iff dest: bit_imp_le_length)
qed

theorem from_le_le_bytes_take:
  "from_le (le_bytes n (w :: 'a::len word)) = take_bit (8 * n) w"
proof (induction n arbitrary: w)
  case 0
  show ?case by simp
next
  case (Suc n)
  show ?case
    by (rule bit_word_eqI)
      (auto simp: Suc bit_or_iff bit_push_bit_iff bit_unsigned_iff bit_take_bit_iff bit_drop_bit_eq)
qed

lemma from_le_le_bytes [simp]:
  "LENGTH('a) \<le> 8 * n \<Longrightarrow> from_le (le_bytes n (w :: 'a::len word)) = w"
  by (simp add: from_le_le_bytes_take take_bit_word_eq_self)

lemma le_bytes_from_le:
  "length bs = n \<Longrightarrow> 8 * n \<le> LENGTH('a) \<Longrightarrow> le_bytes n (from_le bs :: 'a::len word) = bs"
proof (induction bs arbitrary: n)
  case Nil
  then show ?case by simp
next
  case (Cons b bs)
  then obtain m where n: "n = Suc m" and m: "length bs = m" by auto
  with Cons.prems have len: "8 * Suc m \<le> LENGTH('a)" by simp
  have head: "(ucast (from_le (b # bs) :: 'a word) :: u8) = b"
    using len by (intro bit_word_eqI)
      (auto simp: bit_or_iff bit_push_bit_iff bit_unsigned_iff)
  have tail: "drop_bit 8 (from_le (b # bs) :: 'a word) = from_le bs"
    using len m by (intro bit_word_eqI)
      (auto simp: bit_or_iff bit_push_bit_iff bit_unsigned_iff bit_drop_bit_eq
        dest: bit_from_le_bound bit_imp_le_length)
  show ?case using Cons.IH [OF m] len by (simp add: n head tail del: from_le.simps)
qed

text \<open>\<open>from_le\<close> of two or four stored bytes gives the stored integer back.\<close>

lemma from_le_2 [simp]:
  "from_le [ucast w, ucast (drop_bit 8 w)] = (w :: u16)"
  using from_le_le_bytes [of 2 w] by (simp add: frame_simps del: from_le.simps)

lemma from_le_4 [simp]:
  "from_le [ucast w, ucast (drop_bit 8 w), ucast (drop_bit 16 w), ucast (drop_bit 24 w)] = (w :: u32)"
  using from_le_le_bytes [of 4 w] by (simp add: frame_simps del: from_le.simps)

declare from_le.simps [simp del]

section \<open>Codecs\<close>

text \<open>
  The contract of an encoder and its decoder: every valid value survives the trip. Where the
  decoder accepts nothing but encodings (\<open>exact_codec\<close>), the two are inverse bijections between
  the valid values and the accepted frames.
\<close>

locale frame_codec =
  fixes enc :: "'a \<Rightarrow> 'f"
    and dec :: "'f \<Rightarrow> 'e + 'a"
    and valid :: "'a \<Rightarrow> bool"
  assumes dec_enc: "valid x \<Longrightarrow> dec (enc x) = Inr x"
begin

lemma enc_inject: "valid x \<Longrightarrow> valid y \<Longrightarrow> enc x = enc y \<longleftrightarrow> x = y"
  by (metis dec_enc sum.inject(2))

lemma enc_inj_on: "inj_on enc {x. valid x}"
  by (rule inj_onI) (simp add: enc_inject)

lemma dec_stream: "\<forall>x \<in> set xs. valid x \<Longrightarrow> map (dec \<circ> enc) xs = map Inr xs"
  by (simp add: dec_enc)

end

locale exact_codec = frame_codec enc dec valid
  for enc :: "'a \<Rightarrow> 'f" and dec :: "'f \<Rightarrow> 'e + 'a" and valid :: "'a \<Rightarrow> bool" +
  fixes frame_ok :: "'f \<Rightarrow> bool"
  assumes enc_ok: "valid x \<Longrightarrow> frame_ok (enc x)"
    and enc_dec: "frame_ok f \<Longrightarrow> dec f = Inr x \<Longrightarrow> valid x \<and> enc x = f"
begin

lemma dec_inject: "frame_ok f \<Longrightarrow> frame_ok g \<Longrightarrow> dec f = Inr x \<Longrightarrow> dec g = Inr x \<Longrightarrow> f = g"
  using enc_dec by blast

lemma enc_image: "enc ` {x. valid x} = {f. frame_ok f \<and> (\<exists>x. dec f = Inr x)}"
  using enc_dec enc_ok dec_enc by (auto simp: image_iff)

end

end
