(* ===== verification/Heapless.thy ===== *)
theory Heapless
  imports Prelude
begin

text \<open>
  The two containers of the third-party crate \<open>heapless\<close> that the core uses. Their source is
  not part of the repository, so the development never fixes an implementation: a component
  takes the container operations it calls as an argument (\<open>linear_map_ops\<close>, \<open>vec_ops\<close>), and
  the locales below state the documented behaviour that its theorems rely on. A bounded list
  and a bounded association list satisfy the two contracts; the witnesses run on them.
\<close>

section \<open>heapless::LinearMap\<close>

text \<open>
  \<open>lm_insert\<close> is \<open>None\<close> where the crate returns \<open>Err\<close> (the map is full and left as it was);
  \<open>lm_put\<close> is an assignment through the reference that \<open>get_mut\<close> returned.
\<close>

record ('m, 'k, 'v) linear_map_ops =
  lm_new :: 'm
  lm_get :: "'m \<Rightarrow> 'k \<Rightarrow> 'v option"
  lm_insert :: "'m \<Rightarrow> 'k \<Rightarrow> 'v \<Rightarrow> 'm option"
  lm_put :: "'m \<Rightarrow> 'k \<Rightarrow> 'v \<Rightarrow> 'm"

locale linear_map =
  fixes M :: "('m, 'k, 'v) linear_map_ops"
    and N :: nat
  assumes get_new: "lm_get M (lm_new M) = Map.empty"
    and finite_keys: "finite (dom (lm_get M m))"
    and insert_full: "lm_insert M m k v = None \<longleftrightarrow>
      k \<notin> dom (lm_get M m) \<and> N \<le> card (dom (lm_get M m))"
    and get_insert: "lm_insert M m k v = Some m' \<Longrightarrow> lm_get M m' = (lm_get M m)(k \<mapsto> v)"
    and get_put: "k \<in> dom (lm_get M m) \<Longrightarrow> lm_get M (lm_put M m k v) = (lm_get M m)(k \<mapsto> v)"
begin

lemma get_put_Some: "lm_get M m k = Some w \<Longrightarrow> lm_get M (lm_put M m k v) = (lm_get M m)(k \<mapsto> v)"
  by (simp add: get_put domI)

lemma insert_full_iff:
  "lm_insert M m k v = None \<longleftrightarrow> lm_get M m k = None \<and> N \<le> card (dom (lm_get M m))"
  by (simp add: insert_full domIff)

lemma insert_present: "lm_get M m k = Some w \<Longrightarrow> \<exists>m'. lm_insert M m k v = Some m'"
  by (metis domI insert_full not_None_eq)

lemma insert_room: "card (dom (lm_get M m)) < N \<Longrightarrow> \<exists>m'. lm_insert M m k v = Some m'"
  by (meson insert_full leD not_None_eq)

lemma insert_size_le:
  "lm_insert M m k v = Some m' \<Longrightarrow> card (dom (lm_get M m')) \<le> Suc (card (dom (lm_get M m)))"
  by (simp add: get_insert card_insert_if finite_keys)

lemma insert_size_bound:
  assumes "lm_insert M m k v = Some m'" and "card (dom (lm_get M m)) \<le> N"
  shows "card (dom (lm_get M m')) \<le> N"
proof (cases "k \<in> dom (lm_get M m)")
  case True
  then have "insert k (dom (lm_get M m)) = dom (lm_get M m)" by blast
  with assms show ?thesis by (simp add: get_insert)
next
  case False
  then have "card (dom (lm_get M m)) < N" using assms insert_full [of m k v] by auto
  then show ?thesis using insert_size_le [OF assms(1)] by simp
qed

end

section \<open>heapless::Vec\<close>

text \<open>
  \<open>v_slice\<close> is the view of the vector as a slice. \<open>v_push\<close> and \<open>v_extend\<close>
  (\<open>extend_from_slice\<close>) are \<open>None\<close> where the crate returns \<open>Err\<close> and leaves the vector as it
  was; \<open>v_set\<close> is an assignment to an index in range through the mutable slice view.
\<close>

record ('v, 'a) vec_ops =
  v_new :: 'v
  v_slice :: "'v \<Rightarrow> 'a list"
  v_push :: "'v \<Rightarrow> 'a \<Rightarrow> 'v option"
  v_extend :: "'v \<Rightarrow> 'a list \<Rightarrow> 'v option"
  v_pop :: "'v \<Rightarrow> 'v"
  v_truncate :: "'v \<Rightarrow> nat \<Rightarrow> 'v"
  v_clear :: "'v \<Rightarrow> 'v"
  v_is_full :: "'v \<Rightarrow> bool"
  v_set :: "'v \<Rightarrow> nat \<Rightarrow> 'a \<Rightarrow> 'v"

abbreviation v_len :: "('v, 'a) vec_ops \<Rightarrow> 'v \<Rightarrow> nat" where
  "v_len V v \<equiv> length (v_slice V v)"

locale bounded_vec =
  fixes V :: "('v, 'a) vec_ops"
    and N :: nat
  assumes slice_new: "v_slice V (v_new V) = []"
    and push_full: "v_push V v x = None \<longleftrightarrow> N \<le> v_len V v"
    and slice_push: "v_push V v x = Some v' \<Longrightarrow> v_slice V v' = v_slice V v @ [x]"
    and extend_full: "v_extend V v xs = None \<longleftrightarrow> N < v_len V v + length xs"
    and slice_extend: "v_extend V v xs = Some v' \<Longrightarrow> v_slice V v' = v_slice V v @ xs"
    and slice_pop: "v_slice V (v_pop V v) = butlast (v_slice V v)"
    and slice_truncate: "v_slice V (v_truncate V v n) = take n (v_slice V v)"
    and slice_clear: "v_slice V (v_clear V v) = []"
    and is_full: "v_is_full V v \<longleftrightarrow> N \<le> v_len V v"
    and slice_set: "i < v_len V v \<Longrightarrow> v_slice V (v_set V v i x) = (v_slice V v)[i := x]"
begin

lemmas slice_simps = slice_new slice_pop slice_truncate slice_clear

lemma push_room: "v_len V v < N \<Longrightarrow> \<exists>v'. v_push V v x = Some v' \<and> v_slice V v' = v_slice V v @ [x]"
  by (metis leD not_None_eq push_full slice_push)

lemma extend_room:
  "v_len V v + length xs \<le> N \<Longrightarrow>
   \<exists>v'. v_extend V v xs = Some v' \<and> v_slice V v' = v_slice V v @ xs"
  by (metis extend_full leD not_None_eq slice_extend)

lemma push_bound: "v_push V v x = Some v' \<Longrightarrow> v_len V v' \<le> N"
  using push_full [of v x] slice_push [of v x v'] by auto

lemma extend_bound: "v_extend V v xs = Some v' \<Longrightarrow> v_len V v' \<le> N"
  using extend_full [of v xs] slice_extend [of v xs v'] by auto

end

text \<open>The vectors of bytes that hold a transfer.\<close>

locale byte_vec = bounded_vec V N
  for V :: "('v, u8) vec_ops" and N :: nat

section \<open>Reference instances\<close>

definition assoc_put :: "('k \<times> 'v) list \<Rightarrow> 'k \<Rightarrow> 'v \<Rightarrow> ('k \<times> 'v) list" where
  "assoc_put m k v = map (\<lambda>(k', w). if k' = k then (k, v) else (k', w)) m"

definition assoc_ops :: "nat \<Rightarrow> (('k \<times> 'v) list, 'k, 'v) linear_map_ops" where
  "assoc_ops N = \<lparr>
     lm_new = [],
     lm_get = map_of,
     lm_insert = (\<lambda>m k v.
       if k \<in> set (map fst m) then Some (assoc_put m k v)
       else if length (remdups (map fst m)) < N then Some (m @ [(k, v)]) else None),
     lm_put = assoc_put\<rparr>"

definition list_ops :: "nat \<Rightarrow> ('a list, 'a) vec_ops" where
  "list_ops N = \<lparr>
     v_new = [],
     v_slice = (\<lambda>v. v),
     v_push = (\<lambda>v x. if length v < N then Some (v @ [x]) else None),
     v_extend = (\<lambda>v xs. if length v + length xs \<le> N then Some (v @ xs) else None),
     v_pop = butlast,
     v_truncate = (\<lambda>v n. take n v),
     v_clear = (\<lambda>_. []),
     v_is_full = (\<lambda>v. N \<le> length v),
     v_set = (\<lambda>v i x. v[i := x])\<rparr>"

lemma map_of_assoc_put:
  "map_of (assoc_put m k v) = (if k \<in> fst ` set m then (map_of m)(k \<mapsto> v) else map_of m)"
  by (induction m) (auto simp: assoc_put_def fun_eq_iff)

lemma fst_image_mem: "(a, b) \<in> set m \<Longrightarrow> a \<in> fst ` set m"
  by force

lemma map_of_append_new:
  "k \<notin> fst ` set m \<Longrightarrow> [k \<mapsto> v] ++ map_of m = (map_of m)(k \<mapsto> v)"
  by (induction m) (auto simp: fun_eq_iff)

lemma card_keys: "card (fst ` set m) = length (remdups (map fst m))"
  by (metis image_set length_remdups_card_conv)

interpretation assoc: linear_map "assoc_ops N" N for N
  by unfold_locales
    (auto simp: assoc_ops_def map_of_assoc_put map_of_append_new card_keys
      finite_dom_map_of dom_map_of_conv_image_fst fst_image_mem split: if_splits)

interpretation blist: bounded_vec "list_ops N" N for N
  by unfold_locales (auto simp: list_ops_def split: if_splits)

interpretation bytes: byte_vec "list_ops N" N for N
  by unfold_locales

lemma assoc_ops_sel [simp]:
  "lm_new (assoc_ops N) = []"
  "lm_get (assoc_ops N) = map_of"
  "lm_put (assoc_ops N) = assoc_put"
  by (simp_all add: assoc_ops_def)

lemma list_ops_sel [simp]:
  "v_new (list_ops N) = []"
  "v_slice (list_ops N) v = v"
  by (simp_all add: list_ops_def)

end
