(* ===== verification/Types.thy ===== *)
theory Types
  imports Prelude
begin

text \<open>
  \<^verbatim>\<open>core/src/types.rs\<close>: the error type of the core with its messages, and the checked node
  identifier. A Rust \<open>Result\<close> is a value of the sum type \<open>core_error + 'a\<close>.
\<close>

section \<open>Errors\<close>

datatype core_error =
    BadLength | Overflow | ObjectNotFound | InvalidNodeId | ReadOnly | WriteOnly | TypeMismatch
  | DictionaryFull | UnsupportedTransfer | UnexpectedCommand | UnknownState | PdoTooLong
  | MappingFull | InvalidSyncCounter | ToggleMismatch | CrcMismatch

fun error_message :: "core_error \<Rightarrow> string" where
  "error_message BadLength = ''frame or buffer length invalid for operation''"
| "error_message Overflow = ''value does not fit the target CANopen data type''"
| "error_message ObjectNotFound = ''no object at the requested index/subindex''"
| "error_message InvalidNodeId = ''node id out of range (must be 1..=127)''"
| "error_message ReadOnly = ''object is not writable''"
| "error_message WriteOnly = ''object is not readable''"
| "error_message TypeMismatch = ''value data type does not match the object''"
| "error_message DictionaryFull = ''object dictionary capacity exhausted''"
| "error_message UnsupportedTransfer = ''value cannot be carried by this transfer type''"
| "error_message UnexpectedCommand = ''unexpected SDO command byte in response''"
| "error_message UnknownState = ''unrecognised NMT state in heartbeat frame''"
| "error_message PdoTooLong = ''mapped PDO objects exceed eight bytes''"
| "error_message MappingFull = ''PDO mapping capacity exhausted''"
| "error_message InvalidSyncCounter = ''SYNC counter overflow must be 0 or 2..=240''"
| "error_message ToggleMismatch = ''SDO segment toggle bit did not alternate''"
| "error_message CrcMismatch = ''block-transfer CRC did not match the data''"

text \<open>No two errors print alike.\<close>

lemma error_message_inj: "inj error_message"
proof (rule injI)
  fix x y
  assume "error_message x = error_message y"
  then show "x = y" by (cases x; cases y) simp_all
qed

definition ok_or :: "'a option \<Rightarrow> core_error \<Rightarrow> core_error + 'a" where
  "ok_or r e = (case r of Some x \<Rightarrow> Inr x | None \<Rightarrow> Inl e)"

definition ok :: "'e + 'a \<Rightarrow> 'a option" where
  "ok r = (case r of Inr x \<Rightarrow> Some x | Inl _ \<Rightarrow> None)"

lemma ok_or_simps [simp]: "ok_or (Some x) e = Inr x" "ok_or None e = Inl e"
  by (simp_all add: ok_or_def)

lemma ok_simps [simp]: "ok (Inr x) = Some x" "ok (Inl e) = None"
  by (simp_all add: ok_def)

lemma ok_or_eq_Inr_iff [simp]: "ok_or r e = Inr x \<longleftrightarrow> r = Some x"
  by (cases r) auto

lemma ok_eq_Some_iff [simp]: "ok r = Some x \<longleftrightarrow> r = Inr x"
  by (cases r) auto

section \<open>Node identifiers\<close>

datatype node_id = NodeId (raw: u8)

definition BROADCAST :: node_id where
  "BROADCAST = NodeId 0"

definition node_id_new :: "u8 \<Rightarrow> core_error + node_id" where
  "node_id_new i = (if 1 \<le> i \<and> i \<le> 127 then Inr (NodeId i) else Inl InvalidNodeId)"

text \<open>
  The field of \<open>NodeId\<close> is private, so the only identifiers a program can hold are the broadcast
  constant and those \<open>new\<close> accepted.
\<close>

definition device_id :: "node_id \<Rightarrow> bool" where
  "device_id n \<longleftrightarrow> 1 \<le> raw n \<and> raw n \<le> 127"

definition wf_node_id :: "node_id \<Rightarrow> bool" where
  "wf_node_id n \<longleftrightarrow> n = BROADCAST \<or> device_id n"

instantiation node_id :: linorder
begin

definition less_eq_node_id :: "node_id \<Rightarrow> node_id \<Rightarrow> bool" where
  "less_eq_node_id a b \<longleftrightarrow> raw a \<le> raw b"

definition less_node_id :: "node_id \<Rightarrow> node_id \<Rightarrow> bool" where
  "less_node_id a b \<longleftrightarrow> raw a < raw b"

instance
  by standard (auto simp: less_eq_node_id_def less_node_id_def node_id.expand)

end

lemma node_id_new_Inr_iff: "node_id_new i = Inr n \<longleftrightarrow> n = NodeId i \<and> device_id n"
  by (auto simp: node_id_new_def device_id_def)

lemma node_id_new_Inl_iff: "node_id_new i = Inl e \<longleftrightarrow> e = InvalidNodeId \<and> (i = 0 \<or> 127 < i)"
  by (auto simp: node_id_new_def word_le_nat_alt word_less_nat_alt unat_eq_zero not_le)

lemma node_id_new_raw: "device_id n \<Longrightarrow> node_id_new (raw n) = Inr n"
  by (cases n) (simp add: node_id_new_def device_id_def)

lemma device_id_nat: "device_id n \<longleftrightarrow> 1 \<le> unat (raw n) \<and> unat (raw n) \<le> 127"
  by (simp add: device_id_def word_le_nat_alt)

text \<open>
  The COB-IDs of the predefined connection set are a base plus the node id: the 16-bit sum never
  wraps for any byte, and equal bases give equal COB-IDs only for equal nodes.
\<close>

definition cob_of :: "u16 \<Rightarrow> node_id \<Rightarrow> u16" where
  "cob_of base n = base + ucast (raw n)"

lemma unat_cob_of:
  assumes "unat base \<le> 0x700"
  shows "unat (cob_of base n) = unat base + unat (raw n)"
proof -
  have "unat (raw n) < 256" using unsigned_less [of "raw n"] by simp
  then show ?thesis using assms
    by (simp add: cob_of_def unat_word_ariths unsigned_ucast_eq take_bit_nat_eq_self)
qed

lemma cob_of_inject:
  assumes "unat base \<le> 0x700"
  shows "cob_of base n = cob_of base n' \<longleftrightarrow> n = n'"
proof
  assume "cob_of base n = cob_of base n'"
  then have "unat (raw n) = unat (raw n')"
    using unat_cob_of [OF assms, of n] unat_cob_of [OF assms, of n'] by simp
  then show "n = n'" by (cases n; cases n') (simp add: unsigned_word_eqI)
qed simp

end
