(* ===== verification/Datatypes.thy ===== *)
theory Datatypes
  imports Types
begin

text \<open>
  \<^verbatim>\<open>core/src/datatypes.rs\<close>: the basic data types, the typed values and their little-endian
  encoding. Signed integers are words read as two's complement; floating-point numbers are the
  bit patterns that \<open>to_le_bytes\<close> writes, so equality here is equality of bits; \<open>value_eq\<close> is the
  equality of the program.
\<close>

section \<open>Byte strings\<close>

abbreviation (input) MAX_STRING_LEN :: nat where
  "MAX_STRING_LEN \<equiv> 32"

record byte_string =
  bs_data :: "u8 list"
  bs_len :: u8

definition bs_new :: byte_string where
  "bs_new = \<lparr>bs_data = zeros MAX_STRING_LEN, bs_len = 0\<rparr>"

definition from_bytes :: "u8 list \<Rightarrow> core_error + byte_string" where
  "from_bytes bytes =
     (if length bytes > MAX_STRING_LEN then Inl BadLength
      else Inr \<lparr>bs_data = copy_at 0 bytes (zeros MAX_STRING_LEN),
                bs_len = of_nat (length bytes)\<rparr>)"

definition as_bytes :: "byte_string \<Rightarrow> u8 list" where
  "as_bytes s = take (unat (bs_len s)) (bs_data s)"

definition bs_size :: "byte_string \<Rightarrow> nat" where
  "bs_size s = unat (bs_len s)"

definition bs_is_empty :: "byte_string \<Rightarrow> bool" where
  "bs_is_empty s \<longleftrightarrow> bs_len s = 0"

definition bs_eq :: "byte_string \<Rightarrow> byte_string \<Rightarrow> bool" where
  "bs_eq s t \<longleftrightarrow> as_bytes s = as_bytes t"

text \<open>
  Both constructors keep the length at most the buffer's and the tail of the buffer zero, and the
  fields are private; the slice in \<open>as_bytes\<close> is therefore always in range.
\<close>

definition wf_bs :: "byte_string \<Rightarrow> bool" where
  "wf_bs s \<longleftrightarrow> length (bs_data s) = MAX_STRING_LEN \<and> unat (bs_len s) \<le> MAX_STRING_LEN \<and>
     drop (unat (bs_len s)) (bs_data s) = zeros (MAX_STRING_LEN - unat (bs_len s))"

section \<open>Data types\<close>

datatype data_type =
    DT_Boolean | DT_Integer8 | DT_Integer16 | DT_Integer32 | DT_Unsigned8 | DT_Unsigned16
  | DT_Unsigned32 | DT_Real32 | DT_Real64 | DT_Integer64 | DT_Unsigned64 | DT_VisibleString
  | DT_OctetString | DT_Domain

fun type_index :: "data_type \<Rightarrow> u16" where
  "type_index DT_Boolean = 0x01"
| "type_index DT_Integer8 = 0x02"
| "type_index DT_Integer16 = 0x03"
| "type_index DT_Integer32 = 0x04"
| "type_index DT_Unsigned8 = 0x05"
| "type_index DT_Unsigned16 = 0x06"
| "type_index DT_Unsigned32 = 0x07"
| "type_index DT_Real32 = 0x08"
| "type_index DT_Real64 = 0x11"
| "type_index DT_Integer64 = 0x15"
| "type_index DT_Unsigned64 = 0x1B"
| "type_index DT_VisibleString = 0x09"
| "type_index DT_OctetString = 0x0A"
| "type_index DT_Domain = 0x0F"

definition from_index :: "u16 \<Rightarrow> data_type option" where
  "from_index i =
     (if i = 0x01 then Some DT_Boolean
      else if i = 0x02 then Some DT_Integer8
      else if i = 0x03 then Some DT_Integer16
      else if i = 0x04 then Some DT_Integer32
      else if i = 0x05 then Some DT_Unsigned8
      else if i = 0x06 then Some DT_Unsigned16
      else if i = 0x07 then Some DT_Unsigned32
      else if i = 0x08 then Some DT_Real32
      else if i = 0x09 then Some DT_VisibleString
      else if i = 0x0A then Some DT_OctetString
      else if i = 0x0F then Some DT_Domain
      else if i = 0x11 then Some DT_Real64
      else if i = 0x15 then Some DT_Integer64
      else if i = 0x1B then Some DT_Unsigned64
      else None)"

fun fixed_size :: "data_type \<Rightarrow> nat option" where
  "fixed_size DT_Boolean = Some 1"
| "fixed_size DT_Integer8 = Some 1"
| "fixed_size DT_Unsigned8 = Some 1"
| "fixed_size DT_Integer16 = Some 2"
| "fixed_size DT_Unsigned16 = Some 2"
| "fixed_size DT_Integer32 = Some 4"
| "fixed_size DT_Unsigned32 = Some 4"
| "fixed_size DT_Real32 = Some 4"
| "fixed_size DT_Integer64 = Some 8"
| "fixed_size DT_Unsigned64 = Some 8"
| "fixed_size DT_Real64 = Some 8"
| "fixed_size DT_VisibleString = None"
| "fixed_size DT_OctetString = None"
| "fixed_size DT_Domain = None"

definition is_variable :: "data_type \<Rightarrow> bool" where
  "is_variable dt \<longleftrightarrow> fixed_size dt = None"

definition type_size :: "data_type \<Rightarrow> nat" where
  "type_size dt = (case fixed_size dt of Some n \<Rightarrow> n | None \<Rightarrow> 0)"

section \<open>Values\<close>

datatype od_value =
    Boolean bool
  | Integer8 u8
  | Integer16 u16
  | Integer32 u32
  | Unsigned8 u8
  | Unsigned16 u16
  | Unsigned32 u32
  | Real32 u32
  | Real64 u64
  | Integer64 u64
  | Unsigned64 u64
  | VisibleString byte_string
  | OctetString byte_string
  | Domain byte_string

fun data_type_of :: "od_value \<Rightarrow> data_type" where
  "data_type_of (Boolean _) = DT_Boolean"
| "data_type_of (Integer8 _) = DT_Integer8"
| "data_type_of (Integer16 _) = DT_Integer16"
| "data_type_of (Integer32 _) = DT_Integer32"
| "data_type_of (Unsigned8 _) = DT_Unsigned8"
| "data_type_of (Unsigned16 _) = DT_Unsigned16"
| "data_type_of (Unsigned32 _) = DT_Unsigned32"
| "data_type_of (Real32 _) = DT_Real32"
| "data_type_of (Real64 _) = DT_Real64"
| "data_type_of (Integer64 _) = DT_Integer64"
| "data_type_of (Unsigned64 _) = DT_Unsigned64"
| "data_type_of (VisibleString _) = DT_VisibleString"
| "data_type_of (OctetString _) = DT_OctetString"
| "data_type_of (Domain _) = DT_Domain"

definition value_size :: "od_value \<Rightarrow> nat" where
  "value_size v =
     (case v of VisibleString s \<Rightarrow> bs_size s
      | OctetString s \<Rightarrow> bs_size s
      | Domain s \<Rightarrow> bs_size s
      | _ \<Rightarrow> type_size (data_type_of v))"

text \<open>
  The bytes that the \<open>match\<close> of \<open>Value::encode_le\<close> stores at the front of the buffer, one
  equation per group of arms.
\<close>

fun encode_payload :: "od_value \<Rightarrow> u8 list" where
  "encode_payload (Boolean v) = [if v then 1 else 0]"
| "encode_payload (Integer8 v) = [v]"
| "encode_payload (Unsigned8 v) = [v]"
| "encode_payload (Integer16 v) = le_bytes 2 v"
| "encode_payload (Unsigned16 v) = le_bytes 2 v"
| "encode_payload (Integer32 v) = le_bytes 4 v"
| "encode_payload (Unsigned32 v) = le_bytes 4 v"
| "encode_payload (Real32 v) = le_bytes 4 v"
| "encode_payload (Integer64 v) = le_bytes 8 v"
| "encode_payload (Unsigned64 v) = le_bytes 8 v"
| "encode_payload (Real64 v) = le_bytes 8 v"
| "encode_payload (VisibleString s) = as_bytes s"
| "encode_payload (OctetString s) = as_bytes s"
| "encode_payload (Domain s) = as_bytes s"

definition encode_le :: "od_value \<Rightarrow> u8 list \<Rightarrow> core_error + nat \<times> u8 list" where
  "encode_le v buf =
     (let n = value_size v in
      if length buf < n then Inl BadLength
      else Inr (n, copy_at 0 (encode_payload v) buf))"

fun decode_payload :: "data_type \<Rightarrow> u8 list \<Rightarrow> core_error + od_value" where
  "decode_payload DT_Boolean b = Inr (Boolean (b ! 0 \<noteq> 0))"
| "decode_payload DT_Integer8 b = Inr (Integer8 (b ! 0))"
| "decode_payload DT_Unsigned8 b = Inr (Unsigned8 (b ! 0))"
| "decode_payload DT_Integer16 b = Inr (Integer16 (from_le [b ! 0, b ! 1]))"
| "decode_payload DT_Unsigned16 b = Inr (Unsigned16 (from_le [b ! 0, b ! 1]))"
| "decode_payload DT_Integer32 b = Inr (Integer32 (from_le [b ! 0, b ! 1, b ! 2, b ! 3]))"
| "decode_payload DT_Unsigned32 b = Inr (Unsigned32 (from_le [b ! 0, b ! 1, b ! 2, b ! 3]))"
| "decode_payload DT_Real32 b = Inr (Real32 (from_le [b ! 0, b ! 1, b ! 2, b ! 3]))"
| "decode_payload DT_Integer64 b =
     Inr (Integer64 (from_le [b ! 0, b ! 1, b ! 2, b ! 3, b ! 4, b ! 5, b ! 6, b ! 7]))"
| "decode_payload DT_Unsigned64 b =
     Inr (Unsigned64 (from_le [b ! 0, b ! 1, b ! 2, b ! 3, b ! 4, b ! 5, b ! 6, b ! 7]))"
| "decode_payload DT_Real64 b =
     Inr (Real64 (from_le [b ! 0, b ! 1, b ! 2, b ! 3, b ! 4, b ! 5, b ! 6, b ! 7]))"
| "decode_payload DT_VisibleString b = map_sum id VisibleString (from_bytes b)"
| "decode_payload DT_OctetString b = map_sum id OctetString (from_bytes b)"
| "decode_payload DT_Domain b = map_sum id Domain (from_bytes b)"

definition decode_le :: "data_type \<Rightarrow> u8 list \<Rightarrow> core_error + od_value" where
  "decode_le dt bytes =
     (case fixed_size dt of
        Some fixed \<Rightarrow> if length bytes \<noteq> fixed then Inl BadLength else decode_payload dt bytes
      | None \<Rightarrow> if length bytes > MAX_STRING_LEN then Inl BadLength else decode_payload dt bytes)"

fun wf_value :: "od_value \<Rightarrow> bool" where
  "wf_value (VisibleString s) = wf_bs s"
| "wf_value (OctetString s) = wf_bs s"
| "wf_value (Domain s) = wf_bs s"
| "wf_value _ = True"

section \<open>Lemmas on byte strings\<close>

lemma from_bytes_ok:
  assumes "length bytes \<le> MAX_STRING_LEN"
  obtains s where "from_bytes bytes = Inr s" "as_bytes s = bytes" "bs_size s = length bytes"
    "wf_bs s"
proof -
  let ?s = "\<lparr>bs_data = copy_at 0 bytes (zeros MAX_STRING_LEN), bs_len = of_nat (length bytes)\<rparr>"
  have len: "unat (of_nat (length bytes) :: u8) = length bytes"
    using assms by (simp add: unat_of_nat)
  show thesis
  proof
    show "from_bytes bytes = Inr ?s" using assms by (simp add: from_bytes_def)
    show "as_bytes ?s = bytes" by (simp add: as_bytes_def copy_at_def len)
    show "bs_size ?s = length bytes" by (simp add: bs_size_def len)
    show "wf_bs ?s" using assms by (simp add: wf_bs_def copy_at_def len)
  qed
qed

lemma from_bytes_Inl_iff: "from_bytes bytes = Inl e \<longleftrightarrow> e = BadLength \<and> MAX_STRING_LEN < length bytes"
  by (auto simp: from_bytes_def)

lemma from_bytes_Inr:
  assumes "from_bytes bytes = Inr s"
  shows "as_bytes s = bytes" and "bs_size s = length bytes" and "wf_bs s"
    and "length bytes \<le> MAX_STRING_LEN"
proof -
  show le: "length bytes \<le> MAX_STRING_LEN"
    using assms by (auto simp: from_bytes_def split: if_splits)
  obtain t where "from_bytes bytes = Inr t" "as_bytes t = bytes" "bs_size t = length bytes"
    "wf_bs t" by (rule from_bytes_ok [OF le])
  with assms show "as_bytes s = bytes" "bs_size s = length bytes" "wf_bs s" by auto
qed

lemma wf_bs_new: "wf_bs bs_new"
  by (simp add: wf_bs_def bs_new_def)

lemma wf_bs_size: "wf_bs s \<Longrightarrow> bs_size s \<le> MAX_STRING_LEN"
  by (simp add: wf_bs_def bs_size_def)

lemma length_as_bytes: "wf_bs s \<Longrightarrow> length (as_bytes s) = bs_size s"
  by (simp add: wf_bs_def as_bytes_def bs_size_def)

lemma from_bytes_as_bytes:
  assumes "wf_bs s"
  shows "from_bytes (as_bytes s) = Inr s"
proof -
  have len: "length (as_bytes s) = unat (bs_len s)" and le: "unat (bs_len s) \<le> MAX_STRING_LEN"
    using assms length_as_bytes [OF assms] by (auto simp: bs_size_def wf_bs_def)
  have "copy_at 0 (as_bytes s) (zeros MAX_STRING_LEN) =
      take (unat (bs_len s)) (bs_data s) @ drop (unat (bs_len s)) (bs_data s)"
    using assms by (simp add: copy_at_def len wf_bs_def del: append_take_drop_id)
      (simp add: as_bytes_def)
  then have "copy_at 0 (as_bytes s) (zeros MAX_STRING_LEN) = bs_data s" by simp
  moreover have "(of_nat (length (as_bytes s)) :: u8) = bs_len s" by (simp add: len)
  ultimately show ?thesis using le by (simp add: from_bytes_def len)
qed

text \<open>On the strings a program can build, the source's equality is identity.\<close>

lemma bs_eq_wf: "wf_bs s \<Longrightarrow> wf_bs t \<Longrightarrow> bs_eq s t \<longleftrightarrow> s = t"
  unfolding bs_eq_def by (metis from_bytes_as_bytes sum.inject(2))

section \<open>The equality of the program\<close>

text \<open>
  Of a number with \<open>f\<close> fraction bits and \<open>e\<close> exponent bits, an exponent of all ones marks the infinities
  and, with a fraction, the values that are not a number. The latter equal nothing, and the two zeros
  equal each other.
\<close>

definition exponent_ones :: "nat \<Rightarrow> nat \<Rightarrow> 'a::len word \<Rightarrow> bool" where
  "exponent_ones f e x \<longleftrightarrow> take_bit e (drop_bit f x) = mask e"

definition float_nan :: "nat \<Rightarrow> nat \<Rightarrow> 'a::len word \<Rightarrow> bool" where
  "float_nan f e x \<longleftrightarrow> exponent_ones f e x \<and> take_bit f x \<noteq> 0"

definition float_eq :: "nat \<Rightarrow> nat \<Rightarrow> 'a::len word \<Rightarrow> 'a word \<Rightarrow> bool" where
  "float_eq f e x y \<longleftrightarrow> \<not> float_nan f e x \<and> \<not> float_nan f e y \<and>
     (x = y \<or> take_bit (f + e) x = 0 \<and> take_bit (f + e) y = 0)"

fun value_eq :: "od_value \<Rightarrow> od_value \<Rightarrow> bool" where
  "value_eq (Real32 x) (Real32 y) \<longleftrightarrow> float_eq 23 8 x y"
| "value_eq (Real64 x) (Real64 y) \<longleftrightarrow> float_eq 52 11 x y"
| "value_eq (VisibleString s) (VisibleString t) \<longleftrightarrow> bs_eq s t"
| "value_eq (OctetString s) (OctetString t) \<longleftrightarrow> bs_eq s t"
| "value_eq (Domain s) (Domain t) \<longleftrightarrow> bs_eq s t"
| "value_eq v w \<longleftrightarrow> v = w"

fun value_finite :: "od_value \<Rightarrow> bool" where
  "value_finite (Real32 x) \<longleftrightarrow> \<not> exponent_ones 23 8 x"
| "value_finite (Real64 x) \<longleftrightarrow> \<not> exponent_ones 52 11 x"
| "value_finite _ \<longleftrightarrow> True"

lemma value_eq_refl: "value_finite v \<Longrightarrow> value_eq v v"
  by (cases v) (simp_all add: bs_eq_def float_eq_def float_nan_def)

section \<open>Lemmas on data types and values\<close>

lemma from_index_type_index [simp]: "from_index (type_index dt) = Some dt"
  by (cases dt) (simp_all add: from_index_def)

lemma type_index_from_index: "from_index i = Some dt \<Longrightarrow> type_index dt = i"
  by (auto simp: from_index_def split: if_splits)

lemma fixed_size_cases: "fixed_size dt = Some n \<Longrightarrow> n = 1 \<or> n = 2 \<or> n = 4 \<or> n = 8"
  by (cases dt) auto

lemma value_size_fixed: "fixed_size (data_type_of v) = Some n \<Longrightarrow> value_size v = n"
  by (cases v) (auto simp: value_size_def type_size_def)

lemma length_encode_payload: "wf_value v \<Longrightarrow> length (encode_payload v) = value_size v"
  by (cases v) (auto simp: value_size_def type_size_def length_as_bytes)

lemma value_size_le: "wf_value v \<Longrightarrow> value_size v \<le> MAX_STRING_LEN"
  by (cases v) (auto simp: value_size_def type_size_def dest: wf_bs_size)

lemma encode_le_fits:
  "wf_value v \<Longrightarrow> value_size v \<le> length buf \<Longrightarrow>
   encode_le v buf = Inr (value_size v, encode_payload v @ drop (value_size v) buf)"
  by (simp add: encode_le_def Let_def copy_at_def length_encode_payload)

lemma encode_le_short: "length buf < value_size v \<Longrightarrow> encode_le v buf = Inl BadLength"
  by (simp add: encode_le_def)

lemma list_nth_1: "length b = Suc 0 \<Longrightarrow> [b ! 0] = b"
  by (cases b) auto

lemma list_nth_2: "length b = 2 \<Longrightarrow> [b ! 0, b ! Suc 0] = b"
  by (simp add: list_eq_iff_nth_eq nth_Cons' numeral_eq_Suc less_Suc_eq)

lemma list_nth_4: "length b = 4 \<Longrightarrow> [b ! 0, b ! Suc 0, b ! 2, b ! 3] = b"
  by (simp add: list_eq_iff_nth_eq nth_Cons' numeral_eq_Suc less_Suc_eq)

lemma list_nth_8:
  "length b = 8 \<Longrightarrow> [b ! 0, b ! Suc 0, b ! 2, b ! 3, b ! 4, b ! 5, b ! 6, b ! 7] = b"
  by (simp add: list_eq_iff_nth_eq nth_Cons' numeral_eq_Suc less_Suc_eq)

lemmas list_nths = list_nth_1 list_nth_2 list_nth_4 list_nth_8

lemma decode_le_encode_payload: "wf_value v \<Longrightarrow> decode_le (data_type_of v) (encode_payload v) = Inr v"
  by (cases v)
    (auto simp: decode_le_def list_nths from_bytes_as_bytes length_as_bytes wf_bs_size
      simp del: from_le.simps le_bytes.simps dest: wf_bs_size)

lemma decode_payload_sound:
  "decode_payload dt b = Inr v \<Longrightarrow> fixed_size dt = Some n \<Longrightarrow> length b = n \<Longrightarrow>
   data_type_of v = dt \<and> wf_value v"
  by (cases dt) auto

lemma decode_payload_bytes:
  "decode_payload dt b = Inr v \<Longrightarrow> fixed_size dt = Some n \<Longrightarrow> length b = n \<Longrightarrow> dt \<noteq> DT_Boolean \<Longrightarrow>
   encode_payload v = b"
  by (cases dt) (auto simp: list_nths le_bytes_from_le simp del: from_le.simps le_bytes.simps)

lemma map_sum_Inr_iff: "map_sum h f r = Inr y \<longleftrightarrow> (\<exists>x. r = Inr x \<and> f x = y)"
  by (cases r) auto

lemma decode_le_sound:
  assumes "decode_le dt b = Inr v"
  shows "data_type_of v = dt \<and> wf_value v \<and> value_size v = length b \<and>
    (dt \<noteq> DT_Boolean \<longrightarrow> encode_payload v = b)"
proof (cases "fixed_size dt")
  case (Some n)
  with assms have dec: "decode_payload dt b = Inr v" and len: "length b = n"
    by (auto simp: decode_le_def split: if_splits)
  from decode_payload_sound [OF dec Some len] decode_payload_bytes [OF dec Some len] show ?thesis
    using Some len value_size_fixed by auto
next
  case None
  with assms have "length b \<le> MAX_STRING_LEN" and "decode_payload dt b = Inr v"
    by (auto simp: decode_le_def split: if_splits)
  with None show ?thesis
    by (cases dt) (auto simp: map_sum_Inr_iff value_size_def dest: from_bytes_Inr)
qed

lemma decode_le_fixed_len: "decode_le dt b = Inr v \<Longrightarrow> fixed_size dt = Some n \<Longrightarrow> length b = n"
  by (auto simp: decode_le_def split: if_splits)

text \<open>Decoding fails only on a length that the type does not allow.\<close>

lemma decode_le_ok_iff:
  "(\<exists>v. decode_le dt b = Inr v) \<longleftrightarrow>
   (case fixed_size dt of Some n \<Rightarrow> length b = n | None \<Rightarrow> length b \<le> MAX_STRING_LEN)"
  by (cases dt)
    (auto simp: decode_le_def map_sum_Inr_iff from_bytes_def)

lemma decode_le_Inl: "decode_le dt b = Inl e \<Longrightarrow> e = BadLength"
  by (cases dt) (auto simp: decode_le_def from_bytes_def split: if_splits)

end
