(* ===== verification/Object_Dictionary.thy ===== *)
theory Object_Dictionary
  imports Heapless Datatypes
begin

text \<open>
  \<^verbatim>\<open>core/src/object_dictionary.rs\<close>: addresses, access rights, entries and the dictionary. The
  dictionary is the \<open>LinearMap\<close> of its single field \<open>entries\<close>; every operation takes the map's
  operations \<open>M\<close> as its first argument. An operation that fails leaves the dictionary as it was,
  so a failing result carries the error alone.
\<close>

section \<open>Addresses, access rights, entries\<close>

datatype address = Address (index: u16) (subindex: u8)

instantiation address :: linorder
begin

definition less_eq_address :: "address \<Rightarrow> address \<Rightarrow> bool" where
  "less_eq_address a b \<longleftrightarrow>
     index a < index b \<or> index a = index b \<and> subindex a \<le> subindex b"

definition less_address :: "address \<Rightarrow> address \<Rightarrow> bool" where
  "less_address a b \<longleftrightarrow>
     index a < index b \<or> index a = index b \<and> subindex a < subindex b"

instance
  by standard (auto simp: less_eq_address_def less_address_def address.expand)

end

datatype access_type = Ro | Wo | Rw | Const

definition is_readable :: "access_type \<Rightarrow> bool" where
  "is_readable a \<longleftrightarrow> (case a of Ro \<Rightarrow> True | Rw \<Rightarrow> True | Const \<Rightarrow> True | Wo \<Rightarrow> False)"

definition is_writable :: "access_type \<Rightarrow> bool" where
  "is_writable a \<longleftrightarrow> (case a of Wo \<Rightarrow> True | Rw \<Rightarrow> True | Ro \<Rightarrow> False | Const \<Rightarrow> False)"

record entry =
  e_value :: od_value
  e_access :: access_type

definition entry_rw :: "od_value \<Rightarrow> entry" where
  "entry_rw v = \<lparr>e_value = v, e_access = Rw\<rparr>"

definition entry_ro :: "od_value \<Rightarrow> entry" where
  "entry_ro v = \<lparr>e_value = v, e_access = Ro\<rparr>"

definition entry_constant :: "od_value \<Rightarrow> entry" where
  "entry_constant v = \<lparr>e_value = v, e_access = Const\<rparr>"

section \<open>The dictionary\<close>

type_synonym 'm od_ops = "('m, address, entry) linear_map_ops"

definition od_new :: "'m od_ops \<Rightarrow> 'm" where
  "od_new M = lm_new M"

definition od_insert :: "'m od_ops \<Rightarrow> 'm \<Rightarrow> address \<Rightarrow> entry \<Rightarrow> core_error + 'm" where
  "od_insert M od a e = ok_or (lm_insert M od a e) DictionaryFull"

definition od_entry :: "'m od_ops \<Rightarrow> 'm \<Rightarrow> address \<Rightarrow> entry option" where
  "od_entry M od a = lm_get M od a"

definition od_read :: "'m od_ops \<Rightarrow> 'm \<Rightarrow> address \<Rightarrow> core_error + od_value" where
  "od_read M od a =
     (case lm_get M od a of
        None \<Rightarrow> Inl ObjectNotFound
      | Some e \<Rightarrow> if \<not> is_readable (e_access e) then Inl WriteOnly else Inr (e_value e))"

definition od_write :: "'m od_ops \<Rightarrow> 'm \<Rightarrow> address \<Rightarrow> od_value \<Rightarrow> core_error + 'm" where
  "od_write M od a v =
     (case lm_get M od a of
        None \<Rightarrow> Inl ObjectNotFound
      | Some e \<Rightarrow>
          if \<not> is_writable (e_access e) then Inl ReadOnly
          else if data_type_of (e_value e) \<noteq> data_type_of v then Inl TypeMismatch
          else Inr (lm_put M od a (e\<lparr>e_value := v\<rparr>)))"

definition od_set :: "'m od_ops \<Rightarrow> 'm \<Rightarrow> address \<Rightarrow> od_value \<Rightarrow> core_error + 'm" where
  "od_set M od a v =
     (case lm_get M od a of
        None \<Rightarrow> Inl ObjectNotFound
      | Some e \<Rightarrow>
          if data_type_of (e_value e) \<noteq> data_type_of v then Inl TypeMismatch
          else Inr (lm_put M od a (e\<lparr>e_value := v\<rparr>)))"

text \<open>
  What the values of a dictionary may change, and what they may not: the schema (data type and
  access right of every address) is fixed by \<open>insert\<close>; every stored value is well formed.
\<close>

definition od_schema :: "'m od_ops \<Rightarrow> 'm \<Rightarrow> address \<Rightarrow> (data_type \<times> access_type) option" where
  "od_schema M od a = map_option (\<lambda>e. (data_type_of (e_value e), e_access e)) (lm_get M od a)"

definition wf_od :: "'m od_ops \<Rightarrow> 'm \<Rightarrow> bool" where
  "wf_od M od \<longleftrightarrow> (\<forall>a e. lm_get M od a = Some e \<longrightarrow> wf_value (e_value e))"

lemma is_readable_simps [simp]:
  "is_readable Ro" "is_readable Rw" "is_readable Const" "\<not> is_readable Wo"
  by (simp_all add: is_readable_def)

lemma is_writable_simps [simp]:
  "\<not> is_writable Ro" "is_writable Rw" "\<not> is_writable Const" "is_writable Wo"
  by (simp_all add: is_writable_def)

lemma entry_sel [simp]:
  "e_value (entry_rw v) = v" "e_access (entry_rw v) = Rw"
  "e_value (entry_ro v) = v" "e_access (entry_ro v) = Ro"
  "e_value (entry_constant v) = v" "e_access (entry_constant v) = Const"
  by (simp_all add: entry_rw_def entry_ro_def entry_constant_def)

text \<open>The Rust \<open>Ord\<close> of addresses sorts by index, then by subindex.\<close>

lemma address_less_iff:
  "Address i s < Address j t \<longleftrightarrow> i < j \<or> i = j \<and> s < t"
  by (simp add: less_address_def)

section \<open>The contract of an object store\<close>

text \<open>
  What the SDO server, the PDO code and the node rely on when they read and write objects: a
  successful read returns the stored value of a readable object, a successful write replaces the
  value and nothing else, and keeps the type.
\<close>

locale object_store =
  fixes lookup :: "'s \<Rightarrow> address \<Rightarrow> entry option"
    and read :: "'s \<Rightarrow> address \<Rightarrow> core_error + od_value"
    and update :: "'s \<Rightarrow> address \<Rightarrow> od_value \<Rightarrow> core_error + 's"
  assumes read_ok: "read s a = Inr v \<longleftrightarrow>
      (\<exists>e. lookup s a = Some e \<and> is_readable (e_access e) \<and> v = e_value e)"
    and update_ok: "update s a v = Inr s' \<Longrightarrow>
      \<exists>e. lookup s a = Some e \<and> data_type_of (e_value e) = data_type_of v \<and>
          lookup s' = (lookup s)(a \<mapsto> e\<lparr>e_value := v\<rparr>)"
begin

lemma read_update_same:
  assumes "update s a v = Inr s'" and "read s a = Inr w"
  shows "read s' a = Inr v"
  using update_ok [OF assms(1)] assms(2) by (auto simp: read_ok)

lemma read_update_other:
  assumes "update s a v = Inr s'" and "b \<noteq> a"
  shows "read s' b = Inr w \<longleftrightarrow> read s b = Inr w"
  using update_ok [OF assms(1)] assms(2) by (auto simp: read_ok)

lemma update_dom: "update s a v = Inr s' \<Longrightarrow> dom (lookup s') = dom (lookup s)"
  by (drule update_ok) (auto split: if_splits)

lemma update_schema:
  "update s a v = Inr s' \<Longrightarrow>
   map_option (\<lambda>e. (data_type_of (e_value e), e_access e)) (lookup s' b) =
   map_option (\<lambda>e. (data_type_of (e_value e), e_access e)) (lookup s b)"
  by (drule update_ok) auto

lemma wf_value_update: "wf_value v \<Longrightarrow> wf_value (e_value (e\<lparr>e_value := v\<rparr>))"
  by simp

lemma update_wf:
  assumes "update s a v = Inr s'" and "wf_value v"
    and "\<forall>b e. lookup s b = Some e \<longrightarrow> wf_value (e_value e)"
  shows "\<forall>b e. lookup s' b = Some e \<longrightarrow> wf_value (e_value e)"
  using update_ok [OF assms(1)] assms(2,3) by (auto split: if_splits)

end

locale object_map = linear_map M N
  for M :: "'m od_ops" and N :: nat

text \<open>SDO and PDO writes (\<open>write\<close>) and device-side writes (\<open>set\<close>) both meet the contract.\<close>

sublocale object_map \<subseteq> master: object_store "od_entry M" "od_read M" "od_write M"
  by unfold_locales
    (auto simp: od_entry_def od_read_def od_write_def get_put_Some fun_eq_iff split: option.splits if_splits)

sublocale object_map \<subseteq> device: object_store "od_entry M" "od_read M" "od_set M"
  by unfold_locales
    (auto simp: od_entry_def od_read_def od_set_def get_put_Some fun_eq_iff split: option.splits if_splits)

interpretation assoc_od: object_map "assoc_ops N" N for N
  by unfold_locales

context object_map
begin

lemma od_get_insert: "od_insert M od a e = Inr od' \<Longrightarrow> lm_get M od' = (lm_get M od)(a \<mapsto> e)"
  by (simp add: od_insert_def get_insert)

lemma od_insert_Inl_iff:
  "od_insert M od a e = Inl err \<longleftrightarrow>
   err = DictionaryFull \<and> a \<notin> dom (lm_get M od) \<and> N \<le> card (dom (lm_get M od))"
  using insert_full [of od a e] by (cases "lm_insert M od a e") (auto simp: od_insert_def)

lemma od_get_write:
  "od_write M od a v = Inr od' \<Longrightarrow>
   \<exists>e. lm_get M od a = Some e \<and> is_writable (e_access e) \<and>
       data_type_of (e_value e) = data_type_of v \<and>
       lm_get M od' = (lm_get M od)(a \<mapsto> e\<lparr>e_value := v\<rparr>)"
  by (auto simp: od_write_def get_put_Some split: option.splits if_splits)

lemma od_get_set:
  "od_set M od a v = Inr od' \<Longrightarrow>
   \<exists>e. lm_get M od a = Some e \<and> data_type_of (e_value e) = data_type_of v \<and>
       lm_get M od' = (lm_get M od)(a \<mapsto> e\<lparr>e_value := v\<rparr>)"
  by (auto simp: od_set_def get_put_Some split: option.splits if_splits)

lemma od_write_schema: "od_write M od a v = Inr od' \<Longrightarrow> od_schema M od' = od_schema M od"
  using master.update_schema [of od a v od'] by (simp add: od_schema_def od_entry_def fun_eq_iff)

lemma od_set_schema: "od_set M od a v = Inr od' \<Longrightarrow> od_schema M od' = od_schema M od"
  using device.update_schema [of od a v od'] by (simp add: od_schema_def od_entry_def fun_eq_iff)

lemma od_write_wf: "od_write M od a v = Inr od' \<Longrightarrow> wf_value v \<Longrightarrow> wf_od M od \<Longrightarrow> wf_od M od'"
  using master.update_wf [of od a v od'] by (simp add: wf_od_def od_entry_def)

lemma od_set_wf: "od_set M od a v = Inr od' \<Longrightarrow> wf_value v \<Longrightarrow> wf_od M od \<Longrightarrow> wf_od M od'"
  using device.update_wf [of od a v od'] by (simp add: wf_od_def od_entry_def)

lemma od_insert_wf:
  "od_insert M od a e = Inr od' \<Longrightarrow> wf_value (e_value e) \<Longrightarrow> wf_od M od \<Longrightarrow> wf_od M od'"
  by (drule od_get_insert) (auto simp: wf_od_def)

lemma od_new_wf: "wf_od M (od_new M)"
  by (simp add: wf_od_def od_new_def get_new)

lemma od_read_wf: "od_read M od a = Inr v \<Longrightarrow> wf_od M od \<Longrightarrow> wf_value v"
  by (auto simp: od_read_def wf_od_def split: option.splits if_splits)

lemma od_read_write_roundtrip:
  assumes "od_write M od a v = Inr od'"
  shows "od_read M od' b =
    (if b = a then (if is_readable (e_access (the (lm_get M od a))) then Inr v else Inl WriteOnly)
     else od_read M od b)"
  using od_get_write [OF assms] by (auto simp: od_read_def)

end

lemma od_write_result:
  "od_write M od a v = Inl e \<longleftrightarrow>
     (case lm_get M od a of
        None \<Rightarrow> e = ObjectNotFound
      | Some x \<Rightarrow> \<not> is_writable (e_access x) \<and> e = ReadOnly \<or>
          is_writable (e_access x) \<and> data_type_of (e_value x) \<noteq> data_type_of v \<and> e = TypeMismatch)"
  by (auto simp: od_write_def split: option.splits)

section \<open>Sequences of insertions\<close>

lemma map_of_rev_distinct: "distinct (map fst es) \<Longrightarrow> map_of (rev es) = map_of es"
  by (subst map_of_inject_set) (simp_all add: rev_map [symmetric])

text \<open>
  The way the builders of a dictionary fill it: one \<open>insert\<close> after the other, up to the first error;
  what was inserted before stays.
\<close>

fun insert_all :: "'m od_ops \<Rightarrow> (address \<times> entry) list \<Rightarrow> 'm \<Rightarrow> 'm \<times> (core_error + unit)" where
  "insert_all M [] od = (od, Inr ())"
| "insert_all M ((a, e) # es) od =
     (case od_insert M od a e of
        Inl err \<Rightarrow> (od, Inl err)
      | Inr od' \<Rightarrow> insert_all M es od')"

context object_map
begin

lemma insert_all_result:
  assumes "card (dom (lm_get M od)) \<le> N" and "insert_all M es od = (od', r)"
  shows "if card (dom (lm_get M od) \<union> fst ` set es) \<le> N
    then r = Inr () \<and> lm_get M od' = lm_get M od ++ map_of (rev es)
    else r = Inl DictionaryFull"
  using assms
proof (induction es arbitrary: od)
  case Nil
  then show ?case by simp
next
  case (Cons x es)
  obtain a e where x: "x = (a, e)" by (cases x)
  have fin: "finite (dom (lm_get M od))" by (rule finite_keys)
  show ?case
  proof (cases "od_insert M od a e")
    case (Inl err)
    then have full: "err = DictionaryFull" "a \<notin> dom (lm_get M od)" "N \<le> card (dom (lm_get M od))"
      using od_insert_Inl_iff by blast+
    have "insert a (dom (lm_get M od)) \<subseteq> dom (lm_get M od) \<union> fst ` set ((a, e) # es)" by auto
    then have "card (insert a (dom (lm_get M od))) \<le> card (dom (lm_get M od) \<union> fst ` set ((a, e) # es))"
      using fin by (intro card_mono) auto
    with full fin have "\<not> card (dom (lm_get M od) \<union> fst ` set ((a, e) # es)) \<le> N" by simp
    with Inl Cons.prems(2) full(1) show ?thesis unfolding x by simp
  next
    case (Inr od1)
    have get: "lm_get M od1 = (lm_get M od)(a \<mapsto> e)" using od_get_insert [OF Inr] .
    have dom: "dom (lm_get M od1) \<union> fst ` set es = dom (lm_get M od) \<union> fst ` set ((a, e) # es)"
      by (auto simp: get)
    have over: "lm_get M od1 ++ map_of (rev es) = lm_get M od ++ map_of (rev ((a, e) # es))"
      by (simp add: get map_add_upd_left fun_eq_iff map_add_def split: option.splits)
    have "if card (dom (lm_get M od1) \<union> fst ` set es) \<le> N
      then r = Inr () \<and> lm_get M od' = lm_get M od1 ++ map_of (rev es) else r = Inl DictionaryFull"
    proof (rule Cons.IH)
      show "card (dom (lm_get M od1)) \<le> N"
        using Inr Cons.prems(1)
        by (auto simp: od_insert_def intro: insert_size_bound split: option.splits)
      show "insert_all M es od1 = (od', r)" using Cons.prems(2) Inr unfolding x by simp
    qed
    then show ?thesis unfolding dom over x .
  qed
qed

lemma insert_all_wf:
  "insert_all M es od = (od', r) \<Longrightarrow> wf_od M od \<Longrightarrow> (\<And>a e. (a, e) \<in> set es \<Longrightarrow> wf_value (e_value e)) \<Longrightarrow>
   wf_od M od'"
proof (induction es arbitrary: od)
  case (Cons x es)
  obtain a e where x: "x = (a, e)" by (cases x)
  show ?case
  proof (cases "od_insert M od a e")
    case (Inl err)
    then show ?thesis using Cons.prems(1,2) unfolding x by simp
  next
    case (Inr od1)
    have "wf_od M od1" using od_insert_wf [OF Inr] Cons.prems(2) Cons.prems(3) [of a e] unfolding x by simp
    then show ?thesis using Cons.IH [of od1] Cons.prems Inr unfolding x by auto
  qed
qed simp

text \<open>Distinct objects that fit into an empty dictionary are all in it.\<close>

lemma insert_all_new:
  assumes "distinct (map fst es)" and "length es \<le> N" and "\<forall>x \<in> set es. wf_value (e_value (snd x))"
  shows "\<exists>od. insert_all M es (od_new M) = (od, Inr ()) \<and> wf_od M od \<and> lm_get M od = map_of es"
proof -
  obtain od r where od: "insert_all M es (od_new M) = (od, r)" by fastforce
  have new: "lm_get M (od_new M) = Map.empty" by (simp add: od_new_def get_new)
  have "card (fst ` set es) \<le> N" using card_length [of "map fst es"] assms(2) by simp
  then have "r = Inr () \<and> lm_get M od = map_of (rev es)"
    using insert_all_result [OF _ od] by (simp add: new)
  moreover have "map_of (rev es) = map_of es" by (rule map_of_rev_distinct [OF assms(1)])
  moreover have "wf_od M od" using assms(3) by (intro insert_all_wf [OF od od_new_wf]) auto
  ultimately show ?thesis using od by simp
qed

end

end
