(* ===== verification/Sdo.thy ===== *)
theory Sdo
  imports Object_Dictionary
begin

text \<open>
  \<^verbatim>\<open>core/src/sdo/mod.rs\<close>: the frame codec of expedited and segmented SDO transfer and the two
  helpers that split a buffer into segments and reassemble it. A payload \<open>[u8; 8]\<close> is a list of
  eight bytes.
\<close>

type_synonym sdo_payload = "u8 list"

section \<open>COB-IDs and command specifiers\<close>

abbreviation (input) SDO_REQUEST_COB_BASE :: u16 where "SDO_REQUEST_COB_BASE \<equiv> 0x600"
abbreviation (input) SDO_RESPONSE_COB_BASE :: u16 where "SDO_RESPONSE_COB_BASE \<equiv> 0x580"

definition request_cob_id :: "node_id \<Rightarrow> u16" where
  "request_cob_id n = SDO_REQUEST_COB_BASE + ucast (raw n)"

definition response_cob_id :: "node_id \<Rightarrow> u16" where
  "response_cob_id n = SDO_RESPONSE_COB_BASE + ucast (raw n)"

abbreviation (input) CCS_DOWNLOAD_SEGMENT :: u8 where "CCS_DOWNLOAD_SEGMENT \<equiv> 0x00"
abbreviation (input) CCS_DOWNLOAD_INITIATE :: u8 where "CCS_DOWNLOAD_INITIATE \<equiv> 0x20"
abbreviation (input) CCS_UPLOAD_INITIATE :: u8 where "CCS_UPLOAD_INITIATE \<equiv> 0x40"
abbreviation (input) CCS_UPLOAD_SEGMENT :: u8 where "CCS_UPLOAD_SEGMENT \<equiv> 0x60"
abbreviation (input) SCS_DOWNLOAD_SEGMENT :: u8 where "SCS_DOWNLOAD_SEGMENT \<equiv> 0x20"
abbreviation (input) SCS_UPLOAD_INITIATE :: u8 where "SCS_UPLOAD_INITIATE \<equiv> 0x40"
abbreviation (input) SCS_DOWNLOAD_INITIATE :: u8 where "SCS_DOWNLOAD_INITIATE \<equiv> 0x60"
abbreviation (input) CS_ABORT :: u8 where "CS_ABORT \<equiv> 0x80"
abbreviation (input) CS_MASK :: u8 where "CS_MASK \<equiv> 0xE0"
abbreviation (input) EXPEDITED :: u8 where "EXPEDITED \<equiv> 0x02"
abbreviation (input) SIZE_INDICATED :: u8 where "SIZE_INDICATED \<equiv> 0x01"
abbreviation (input) EXPEDITED_SIZED :: u8 where "EXPEDITED_SIZED \<equiv> 0x03"
abbreviation (input) TOGGLE :: u8 where "TOGGLE \<equiv> 0x10"
abbreviation (input) NO_MORE_SEGMENTS :: u8 where "NO_MORE_SEGMENTS \<equiv> 0x01"
abbreviation (input) SEGMENT_DATA_MAX :: nat where "SEGMENT_DATA_MAX \<equiv> 7"

datatype sdo_abort_code =
    ToggleBitNotAlternated | ProtocolTimedOut | CommandInvalid | UnsupportedAccess
  | ReadOfWriteOnly | WriteOfReadOnly | ObjectDoesNotExist | DataTypeMismatchLengthHigh
  | DataTypeMismatchLengthLow | SubIndexDoesNotExist | General

fun abort_code :: "sdo_abort_code \<Rightarrow> u32" where
  "abort_code ToggleBitNotAlternated = 0x05030000"
| "abort_code ProtocolTimedOut = 0x05040000"
| "abort_code CommandInvalid = 0x05040001"
| "abort_code UnsupportedAccess = 0x06010000"
| "abort_code ReadOfWriteOnly = 0x06010001"
| "abort_code WriteOfReadOnly = 0x06010002"
| "abort_code ObjectDoesNotExist = 0x06020000"
| "abort_code DataTypeMismatchLengthHigh = 0x06070012"
| "abort_code DataTypeMismatchLengthLow = 0x06070013"
| "abort_code SubIndexDoesNotExist = 0x06090011"
| "abort_code General = 0x08000000"

section \<open>Addresses inside a frame\<close>

text \<open>
  Every initiate and abort frame stores the index little-endian in bytes 1 and 2 and the subindex
  in byte 3; these are the two statements the encoders share, and their inverse.
\<close>

definition put_address :: "address \<Rightarrow> sdo_payload \<Rightarrow> sdo_payload" where
  "put_address a p = (copy_at 1 (le_bytes 2 (index a)) p)[3 := subindex a]"

definition address_of :: "sdo_payload \<Rightarrow> address" where
  "address_of p = Address (from_le [p ! 1, p ! 2]) (p ! 3)"

section \<open>Expedited transfer\<close>

definition encode_download_expedited :: "address \<Rightarrow> od_value \<Rightarrow> core_error + sdo_payload" where
  "encode_download_expedited a v =
     (let len = value_size v in
      if len = 0 \<or> len > 4 then Inl UnsupportedTransfer
      else
        let p = put_address a ((zeros 8)[0 :=
              CCS_DOWNLOAD_INITIATE OR push_bit 2 (of_nat (4 - len)) OR EXPEDITED_SIZED])
        in case encode_le v (take len (drop 4 p)) of
             Inl e \<Rightarrow> Inl e
           | Inr (_, data) \<Rightarrow> Inr (copy_at 4 data p))"

definition encode_download_response :: "address \<Rightarrow> sdo_payload" where
  "encode_download_response a = put_address a ((zeros 8)[0 := SCS_DOWNLOAD_INITIATE])"

definition decode_download_response :: "sdo_payload \<Rightarrow> core_error + address" where
  "decode_download_response p =
     (if p ! 0 \<noteq> SCS_DOWNLOAD_INITIATE then Inl UnexpectedCommand else Inr (address_of p))"

definition encode_upload_request :: "address \<Rightarrow> sdo_payload" where
  "encode_upload_request a = put_address a ((zeros 8)[0 := CCS_UPLOAD_INITIATE])"

definition encode_upload_expedited_response :: "address \<Rightarrow> od_value \<Rightarrow> core_error + sdo_payload" where
  "encode_upload_expedited_response a v =
     (let len = value_size v in
      if len = 0 \<or> len > 4 then Inl UnsupportedTransfer
      else
        let p = put_address a ((zeros 8)[0 :=
              SCS_UPLOAD_INITIATE OR push_bit 2 (of_nat (4 - len)) OR EXPEDITED_SIZED])
        in case encode_le v (take len (drop 4 p)) of
             Inl e \<Rightarrow> Inl e
           | Inr (_, data) \<Rightarrow> Inr (copy_at 4 data p))"

definition decode_upload_expedited_response ::
  "sdo_payload \<Rightarrow> data_type \<Rightarrow> core_error + address \<times> od_value" where
  "decode_upload_expedited_response p dt =
     (let cmd = p ! 0 in
      if cmd AND 0xE0 \<noteq> SCS_UPLOAD_INITIATE \<or> cmd AND EXPEDITED_SIZED \<noteq> EXPEDITED_SIZED
      then Inl UnexpectedCommand
      else
        let n = drop_bit 2 cmd AND 0x03; len = 4 - unat n in
        if (case fixed_size dt of Some fixed \<Rightarrow> len \<noteq> fixed | None \<Rightarrow> False)
        then Inl TypeMismatch
        else
          case decode_le dt (take len (drop 4 p)) of
            Inl e \<Rightarrow> Inl e
          | Inr v \<Rightarrow> Inr (address_of p, v))"

definition encode_abort :: "address \<Rightarrow> sdo_abort_code \<Rightarrow> sdo_payload" where
  "encode_abort a code =
     copy_at 4 (le_bytes 4 (abort_code code)) (put_address a ((zeros 8)[0 := CS_ABORT]))"

definition decode_abort :: "sdo_payload \<Rightarrow> core_error + address \<times> u32" where
  "decode_abort p =
     (if p ! 0 \<noteq> CS_ABORT then Inl UnexpectedCommand
      else Inr (address_of p, from_le [p ! 4, p ! 5, p ! 6, p ! 7]))"

section \<open>Segmented transfer\<close>

record segment =
  seg_toggle :: bool
  seg_last :: bool
  seg_data :: "u8 list"

definition encode_download_initiate_segmented :: "address \<Rightarrow> u32 \<Rightarrow> sdo_payload" where
  "encode_download_initiate_segmented a sz =
     copy_at 4 (le_bytes 4 sz)
       (put_address a ((zeros 8)[0 := CCS_DOWNLOAD_INITIATE OR SIZE_INDICATED]))"

definition decode_download_initiate_segmented :: "sdo_payload \<Rightarrow> core_error + address \<times> u32" where
  "decode_download_initiate_segmented p =
     (if p ! 0 AND CS_MASK \<noteq> CCS_DOWNLOAD_INITIATE \<or> p ! 0 AND EXPEDITED \<noteq> 0
         \<or> p ! 0 AND SIZE_INDICATED = 0
      then Inl UnexpectedCommand
      else Inr (address_of p, from_le [p ! 4, p ! 5, p ! 6, p ! 7]))"

definition encode_upload_initiate_segmented_response :: "address \<Rightarrow> u32 \<Rightarrow> sdo_payload" where
  "encode_upload_initiate_segmented_response a sz =
     copy_at 4 (le_bytes 4 sz)
       (put_address a ((zeros 8)[0 := SCS_UPLOAD_INITIATE OR SIZE_INDICATED]))"

definition decode_upload_initiate_segmented_response ::
  "sdo_payload \<Rightarrow> core_error + address \<times> u32" where
  "decode_upload_initiate_segmented_response p =
     (if p ! 0 AND CS_MASK \<noteq> SCS_UPLOAD_INITIATE \<or> p ! 0 AND EXPEDITED \<noteq> 0
         \<or> p ! 0 AND SIZE_INDICATED = 0
      then Inl UnexpectedCommand
      else Inr (address_of p, from_le [p ! 4, p ! 5, p ! 6, p ! 7]))"

definition encode_data_segment :: "u8 list \<Rightarrow> bool \<Rightarrow> bool \<Rightarrow> core_error + sdo_payload" where
  "encode_data_segment data toggle is_last =
     (if length data > SEGMENT_DATA_MAX then Inl BadLength
      else
        let n = of_nat (SEGMENT_DATA_MAX - length data) :: u8;
            b = push_bit 1 n AND 0x0E;
            b = (if toggle then b OR TOGGLE else b);
            b = (if is_last then b OR NO_MORE_SEGMENTS else b)
        in Inr (copy_at 1 data ((zeros 8)[0 := b])))"

definition decode_data_segment :: "sdo_payload \<Rightarrow> core_error + segment" where
  "decode_data_segment p =
     (if p ! 0 AND CS_MASK \<noteq> CCS_DOWNLOAD_SEGMENT then Inl UnexpectedCommand
      else
        let n = unat (drop_bit 1 (p ! 0) AND 0x07) in
        if n > SEGMENT_DATA_MAX then Inl BadLength
        else Inr \<lparr>seg_toggle = (p ! 0 AND TOGGLE \<noteq> 0),
                  seg_last = (p ! 0 AND NO_MORE_SEGMENTS \<noteq> 0),
                  seg_data = take (SEGMENT_DATA_MAX - n) (drop 1 p)\<rparr>)"

definition encode_download_segment_response :: "bool \<Rightarrow> sdo_payload" where
  "encode_download_segment_response toggle =
     (zeros 8)[0 := SCS_DOWNLOAD_SEGMENT OR (if toggle then TOGGLE else 0)]"

definition decode_download_segment_response :: "sdo_payload \<Rightarrow> core_error + bool" where
  "decode_download_segment_response p =
     (if p ! 0 AND CS_MASK \<noteq> SCS_DOWNLOAD_SEGMENT then Inl UnexpectedCommand
      else Inr (p ! 0 AND TOGGLE \<noteq> 0))"

definition encode_upload_segment_request :: "bool \<Rightarrow> sdo_payload" where
  "encode_upload_segment_request toggle =
     (zeros 8)[0 := CCS_UPLOAD_SEGMENT OR (if toggle then TOGGLE else 0)]"

definition decode_upload_segment_request :: "sdo_payload \<Rightarrow> core_error + bool" where
  "decode_upload_segment_request p =
     (if p ! 0 AND CS_MASK \<noteq> CCS_UPLOAD_SEGMENT then Inl UnexpectedCommand
      else Inr (p ! 0 AND TOGGLE \<noteq> 0))"

section \<open>SegmentWriter and SegmentReader\<close>

record segment_writer =
  sw_data :: "u8 list"
  sw_pos :: nat
  sw_toggle :: bool

definition segment_writer_new :: "u8 list \<Rightarrow> segment_writer" where
  "segment_writer_new data = \<lparr>sw_data = data, sw_pos = 0, sw_toggle = False\<rparr>"

definition sw_is_done :: "segment_writer \<Rightarrow> bool" where
  "sw_is_done w \<longleftrightarrow> sw_pos w \<ge> length (sw_data w)"

definition sw_next_segment :: "segment_writer \<Rightarrow> (segment_writer \<times> sdo_payload option) run" where
  "sw_next_segment w =
     (if sw_is_done w then Done (w, None)
      else
        let remaining = length (sw_data w) - sw_pos w;
            len = min remaining SEGMENT_DATA_MAX;
            is_last = (remaining \<le> SEGMENT_DATA_MAX)
        in run_bind (subslice (sw_data w) (sw_pos w) (sw_pos w + len)) (\<lambda>data.
           run_bind (expect (encode_data_segment data (sw_toggle w) is_last)) (\<lambda>frame.
           Done (w\<lparr>sw_pos := sw_pos w + len, sw_toggle := \<not> sw_toggle w\<rparr>, Some frame))))"

record 'b segment_reader =
  sr_buf :: 'b
  sr_toggle :: bool
  sr_done :: bool

definition segment_reader_new :: "('b, u8) vec_ops \<Rightarrow> 'b segment_reader" where
  "segment_reader_new V = \<lparr>sr_buf = v_new V, sr_toggle = False, sr_done = False\<rparr>"

definition sr_data :: "('b, u8) vec_ops \<Rightarrow> 'b segment_reader \<Rightarrow> u8 list" where
  "sr_data V r = v_slice V (sr_buf r)"

definition sr_push ::
  "('b, u8) vec_ops \<Rightarrow> 'b segment_reader \<Rightarrow> segment \<Rightarrow> core_error + 'b segment_reader" where
  "sr_push V r seg =
     (if sr_done r then Inl UnexpectedCommand
      else if seg_toggle seg \<noteq> sr_toggle r then Inl ToggleMismatch
      else
        case v_extend V (sr_buf r) (seg_data seg) of
          None \<Rightarrow> Inl Overflow
        | Some buf \<Rightarrow>
            Inr \<lparr>sr_buf = buf, sr_toggle = (\<not> sr_toggle r),
                 sr_done = (if seg_last seg then True else sr_done r)\<rparr>)"

section \<open>The shape of the frames\<close>

lemma list_update_0 [frame_simps]: "(x # xs)[0 := y] = y # xs"
  by simp

lemma put_address_frame [frame_simps]:
  "put_address a [b0, b1, b2, b3, b4, b5, b6, b7] =
     [b0, ucast (index a), ucast (drop_bit 8 (index a)), subindex a, b4, b5, b6, b7]"
  by (simp add: put_address_def copy_at_def frame_simps numeral_eq_Suc)

lemma copy_at_1 [frame_simps]:
  "copy_at (Suc 0) data (b # xs) = b # data @ drop (length data) xs"
  "copy_at 1 data (b # xs) = b # data @ drop (length data) xs"
  by (simp_all add: copy_at_def)

lemma copy_at_4 [frame_simps]:
  "copy_at 4 data (b0 # b1 # b2 # b3 # xs) = b0 # b1 # b2 # b3 # data @ drop (length data) xs"
  by (simp add: copy_at_def numeral_eq_Suc)

lemma frame_nth [frame_simps]:
  "[b0, b1, b2, b3, b4, b5, b6, b7] ! 0 = b0"
  "[b0, b1, b2, b3, b4, b5, b6, b7] ! 1 = b1"
  "[b0, b1, b2, b3, b4, b5, b6, b7] ! 2 = b2"
  "[b0, b1, b2, b3, b4, b5, b6, b7] ! 3 = b3"
  "[b0, b1, b2, b3, b4, b5, b6, b7] ! 4 = b4"
  "[b0, b1, b2, b3, b4, b5, b6, b7] ! 5 = b5"
  "[b0, b1, b2, b3, b4, b5, b6, b7] ! 6 = b6"
  "[b0, b1, b2, b3, b4, b5, b6, b7] ! 7 = b7"
  by simp_all

lemma encode_download_response_frame [frame_simps]:
  "encode_download_response a =
     [0x60, ucast (index a), ucast (drop_bit 8 (index a)), subindex a, 0, 0, 0, 0]"
  by (simp add: encode_download_response_def frame_simps)

lemma encode_upload_request_frame [frame_simps]:
  "encode_upload_request a =
     [0x40, ucast (index a), ucast (drop_bit 8 (index a)), subindex a, 0, 0, 0, 0]"
  by (simp add: encode_upload_request_def frame_simps)

lemma encode_download_initiate_segmented_frame [frame_simps]:
  "encode_download_initiate_segmented a n =
     [0x21, ucast (index a), ucast (drop_bit 8 (index a)), subindex a,
      ucast n, ucast (drop_bit 8 n), ucast (drop_bit 16 n), ucast (drop_bit 24 n)]"
  by (simp add: encode_download_initiate_segmented_def frame_simps)

lemma encode_upload_initiate_segmented_response_frame [frame_simps]:
  "encode_upload_initiate_segmented_response a n =
     [0x41, ucast (index a), ucast (drop_bit 8 (index a)), subindex a,
      ucast n, ucast (drop_bit 8 n), ucast (drop_bit 16 n), ucast (drop_bit 24 n)]"
  by (simp add: encode_upload_initiate_segmented_response_def frame_simps)

section \<open>Round trips of the codec\<close>

lemma le_7_cases:
  "(n::nat) \<le> 7 \<Longrightarrow> n = 0 \<or> n = 1 \<or> n = 2 \<or> n = 3 \<or> n = 4 \<or> n = 5 \<or> n = 6 \<or> n = 7"
  by auto

definition segment_command :: "nat \<Rightarrow> bool \<Rightarrow> bool \<Rightarrow> u8" where
  "segment_command k t l =
     (push_bit 1 (of_nat k) AND 0x0E) OR (if t then TOGGLE else 0)
       OR (if l then NO_MORE_SEGMENTS else 0)"

lemma segment_command_fields:
  assumes "k \<le> 7"
  shows "segment_command k t l AND CS_MASK = 0"
    and "unat (drop_bit 1 (segment_command k t l) AND 0x07) = k"
    and "(segment_command k t l AND TOGGLE \<noteq> 0) = t"
    and "(segment_command k t l AND NO_MORE_SEGMENTS \<noteq> 0) = l"
    and "segment_command k t l \<noteq> CS_ABORT"
  using le_7_cases [OF assms] by (auto simp: segment_command_def)

lemma zeros_Suc: "zeros (Suc n) = 0 # zeros n"
  by (simp add: zeros_def)

lemma zeros_8_head: "(zeros 8)[0 := b] = b # zeros 7"
  by (simp add: zeros_def numeral_eq_Suc)

lemma encode_data_segment_eq:
  "length data \<le> 7 \<Longrightarrow>
   encode_data_segment data t l =
     Inr (segment_command (7 - length data) t l # data @ zeros (7 - length data))"
  by (simp only: encode_data_segment_def Let_def segment_command_def zeros_8_head copy_at_1)
    (auto simp: or.assoc)

lemma encode_data_segment_too_long: "7 < length data \<Longrightarrow> encode_data_segment data t l = Inl BadLength"
  by (simp add: encode_data_segment_def)

lemma decode_encode_data_segment:
  assumes "length data \<le> 7" and "encode_data_segment data t l = Inr p"
  shows "decode_data_segment p = Inr \<lparr>seg_toggle = t, seg_last = l, seg_data = data\<rparr>"
proof -
  have p: "p = segment_command (7 - length data) t l # data @ zeros (7 - length data)"
    using assms by (simp add: encode_data_segment_eq)
  have "7 - length data \<le> 7" by simp
  note fields = segment_command_fields [OF this, of t l]
  show ?thesis
    using assms(1) fields by (simp add: p decode_data_segment_def Let_def)
qed

lemma length_encode_data_segment: "encode_data_segment data t l = Inr p \<Longrightarrow> length p = 8"
  by (cases "length data \<le> 7") (auto simp: encode_data_segment_eq encode_data_segment_too_long)

text \<open>Any eight-byte data segment frame decodes to at most seven bytes.\<close>

lemma decode_data_segment_bound:
  assumes "decode_data_segment p = Inr s"
  shows "length (seg_data s) \<le> 7"
  using assms by (auto simp: decode_data_segment_def Let_def split: if_splits)

text \<open>The command byte of an expedited frame with \<open>k\<close> unused bytes.\<close>

definition expedited_command :: "u8 \<Rightarrow> nat \<Rightarrow> u8" where
  "expedited_command cs k = cs OR push_bit 2 (of_nat k) OR EXPEDITED_SIZED"

lemma expedited_command_fields:
  assumes "k \<le> 3" and "cs = 0x20 \<or> cs = 0x40"
  shows "expedited_command cs k AND CS_MASK = cs"
    and "expedited_command cs k AND EXPEDITED_SIZED = EXPEDITED_SIZED"
    and "expedited_command cs k AND EXPEDITED \<noteq> 0"
    and "expedited_command cs k AND SIZE_INDICATED \<noteq> 0"
    and "unat (drop_bit 2 (expedited_command cs k) AND 0x03) = k"
    and "expedited_command cs k \<noteq> CS_ABORT"
    and "expedited_command cs k \<noteq> SCS_DOWNLOAD_INITIATE"
proof -
  have k: "k = 0 \<or> k = 1 \<or> k = 2 \<or> k = 3" using assms(1) by auto
  show "expedited_command cs k AND CS_MASK = cs"
    and "expedited_command cs k AND EXPEDITED_SIZED = EXPEDITED_SIZED"
    and "expedited_command cs k AND EXPEDITED \<noteq> 0"
    and "expedited_command cs k AND SIZE_INDICATED \<noteq> 0"
    and "unat (drop_bit 2 (expedited_command cs k) AND 0x03) = k"
    and "expedited_command cs k \<noteq> CS_ABORT"
    and "expedited_command cs k \<noteq> SCS_DOWNLOAD_INITIATE"
    using k assms(2) by (auto simp: expedited_command_def)
qed

definition expedited_frame :: "u8 \<Rightarrow> address \<Rightarrow> u8 list \<Rightarrow> sdo_payload" where
  "expedited_frame cs a data =
     expedited_command cs (4 - length data) # ucast (index a) # ucast (drop_bit 8 (index a)) #
     subindex a # data @ zeros (4 - length data)"

lemma zeros_4: "zeros 4 = [0, 0, 0, 0]"
  by (simp add: zeros_def numeral_eq_Suc)

lemma encode_expedited_eq:
  assumes "wf_value v" and "1 \<le> value_size v" and "value_size v \<le> 4"
  shows "encode_download_expedited a v = Inr (expedited_frame 0x20 a (encode_payload v))"
    and "encode_upload_expedited_response a v = Inr (expedited_frame 0x40 a (encode_payload v))"
proof -
  have len: "length (encode_payload v) = value_size v" using assms(1) by (rule length_encode_payload)
  have tail: "drop n [0, 0, 0, 0] = zeros (4 - n)" for n
    unfolding zeros_4 [symmetric] by simp
  have "encode_le v (take (value_size v) [0, 0, 0, 0]) = Inr (value_size v, encode_payload v)"
    using assms len by (subst encode_le_fits) auto
  then show "encode_download_expedited a v = Inr (expedited_frame 0x20 a (encode_payload v))"
    and "encode_upload_expedited_response a v = Inr (expedited_frame 0x40 a (encode_payload v))"
    using assms len by (simp_all add: encode_download_expedited_def
        encode_upload_expedited_response_def Let_def frame_simps expedited_frame_def
        expedited_command_def tail)
qed

lemma length_expedited_frame: "length data \<le> 4 \<Longrightarrow> length (expedited_frame cs a data) = 8"
  by (simp add: expedited_frame_def)

lemma address_of_expedited_frame [simp]: "address_of (expedited_frame cs a data) = a"
  by (simp add: address_of_def expedited_frame_def)

lemma expedited_frame_nth_0: "expedited_frame cs a data ! 0 = expedited_command cs (4 - length data)"
  by (simp add: expedited_frame_def)

lemma expedited_frame_data: "take (length data) (drop 4 (expedited_frame cs a data)) = data"
  by (simp add: expedited_frame_def)

lemma decode_encode_upload_expedited:
  assumes "wf_value v" and "1 \<le> value_size v" and "value_size v \<le> 4"
    and "encode_upload_expedited_response a v = Inr p"
  shows "decode_upload_expedited_response p (data_type_of v) = Inr (a, v)"
proof -
  have p: "p = expedited_frame 0x40 a (encode_payload v)"
    using assms by (simp add: encode_expedited_eq)
  have len: "length (encode_payload v) = value_size v" using assms(1) by (rule length_encode_payload)
  have k: "4 - value_size v \<le> 3" using assms(2) by simp
  note fields = expedited_command_fields [OF k, of "0x40"]
  have data: "take (value_size v) (drop 4 p) = encode_payload v"
    using expedited_frame_data [of "encode_payload v"] by (simp add: p len)
  show ?thesis
    using fields assms(2,3) data value_size_fixed [of v] decode_le_encode_payload [OF assms(1)]
    by (auto simp: decode_upload_expedited_response_def Let_def p expedited_frame_nth_0 len
        split: option.splits)
qed

lemma decode_encode_download_response [simp]:
  "decode_download_response (encode_download_response a) = Inr a"
  by (simp add: decode_download_response_def address_of_def frame_simps)

lemma decode_encode_abort [simp]: "decode_abort (encode_abort a c) = Inr (a, abort_code c)"
  by (simp add: decode_abort_def encode_abort_def address_of_def frame_simps)

lemma decode_encode_download_initiate [simp]:
  "decode_download_initiate_segmented (encode_download_initiate_segmented a n) = Inr (a, n)"
  by (simp add: decode_download_initiate_segmented_def address_of_def frame_simps)

lemma decode_encode_upload_initiate_response [simp]:
  "decode_upload_initiate_segmented_response (encode_upload_initiate_segmented_response a n) =
     Inr (a, n)"
  by (simp add: decode_upload_initiate_segmented_response_def address_of_def frame_simps)

lemma decode_encode_download_segment_response [simp]:
  "decode_download_segment_response (encode_download_segment_response t) = Inr t"
  by (simp add: decode_download_segment_response_def encode_download_segment_response_def frame_simps)

lemma decode_encode_upload_segment_request [simp]:
  "decode_upload_segment_request (encode_upload_segment_request t) = Inr t"
  by (simp add: decode_upload_segment_request_def encode_upload_segment_request_def frame_simps)

lemma length_encoders [simp]:
  "length (encode_download_response a) = 8"
  "length (encode_upload_request a) = 8"
  "length (encode_abort a c) = 8"
  "length (encode_download_initiate_segmented a n) = 8"
  "length (encode_upload_initiate_segmented_response a n) = 8"
  "length (encode_download_segment_response t) = 8"
  "length (encode_upload_segment_request t) = 8"
  by (simp_all add: frame_simps encode_abort_def encode_download_segment_response_def
      encode_upload_segment_request_def)

section \<open>Segments of a buffer\<close>

text \<open>
  What splitting a buffer means: segments of seven bytes, the toggle alternating, the last one
  marked. An empty buffer is one empty last segment, which is how an empty value travels.
\<close>

function segments :: "bool \<Rightarrow> u8 list \<Rightarrow> segment list" where
  "segments t d =
     (if length d \<le> SEGMENT_DATA_MAX
      then [\<lparr>seg_toggle = t, seg_last = True, seg_data = d\<rparr>]
      else \<lparr>seg_toggle = t, seg_last = False, seg_data = take SEGMENT_DATA_MAX d\<rparr> #
             segments (\<not> t) (drop SEGMENT_DATA_MAX d))"
  by pat_completeness auto
termination
  by (relation "measure (\<lambda>(t, d). length d)") auto

declare segments.simps [simp del]

lemma segments_short:
  "length d \<le> 7 \<Longrightarrow> segments t d = [\<lparr>seg_toggle = t, seg_last = True, seg_data = d\<rparr>]"
  by (simp add: segments.simps [of t d])

lemma segments_long:
  "7 < length d \<Longrightarrow> segments t d =
     \<lparr>seg_toggle = t, seg_last = False, seg_data = take 7 d\<rparr> # segments (\<not> t) (drop 7 d)"
  by (simp add: segments.simps [of t d])

lemma segments_data: "concat (map seg_data (segments t d)) = d"
proof (induction t d rule: segments.induct)
  case (1 t d)
  show ?case
  proof (cases "length d \<le> 7")
    case True
    then show ?thesis by (simp add: segments_short)
  next
    case False
    with 1 show ?thesis by (simp add: segments_long)
  qed
qed

lemma length_segments: "length (segments t d) = max 1 ((length d + 6) div 7)"
proof (induction t d rule: segments.induct)
  case (1 t d)
  show ?case
  proof (cases "length d \<le> 7")
    case True
    then show ?thesis by (auto simp: segments_short max_def)
  next
    case False
    then have "(length d + 6) div 7 = Suc ((length d - 1) div 7)" and "1 \<le> (length d - 1) div 7"
      using le_div_geq [of 7 "length d + 6"] div_le_mono [of 7 "length d - 1" 7] by auto
    with 1 False show ?thesis by (simp add: segments_long)
  qed
qed

text \<open>The writer driven until it yields \<open>None\<close>, and the reader fed with every frame.\<close>

fun sw_drain :: "nat \<Rightarrow> segment_writer \<Rightarrow> sdo_payload list run" where
  "sw_drain 0 w = Panic"
| "sw_drain (Suc fuel) w =
     run_bind (sw_next_segment w) (\<lambda>(w', out).
       case out of None \<Rightarrow> Done [] | Some p \<Rightarrow> run_map (\<lambda>ps. p # ps) (sw_drain fuel w'))"

fun sr_receive :: "('b, u8) vec_ops \<Rightarrow> 'b segment_reader \<Rightarrow> sdo_payload list \<Rightarrow>
    core_error + 'b segment_reader" where
  "sr_receive V r [] = Inr r"
| "sr_receive V r (p # ps) =
     (case decode_data_segment p of
        Inl e \<Rightarrow> Inl e
      | Inr s \<Rightarrow> (case sr_push V r s of Inl e \<Rightarrow> Inl e | Inr r' \<Rightarrow> sr_receive V r' ps))"

lemma sw_next_segment_step:
  assumes "pos < length d" and "rest = drop pos d"
  shows "\<exists>p. sw_next_segment \<lparr>sw_data = d, sw_pos = pos, sw_toggle = t\<rparr> =
      Done (\<lparr>sw_data = d, sw_pos = pos + min (length rest) 7, sw_toggle = \<not> t\<rparr>, Some p) \<and>
    decode_data_segment p =
      Inr \<lparr>seg_toggle = t, seg_last = (length rest \<le> 7), seg_data = take 7 rest\<rparr>"
proof -
  let ?data = "take 7 rest"
  have "subslice d pos (pos + min (length rest) 7) = Done ?data"
    using assms by (auto simp: subslice_def min_def)
  moreover obtain p where p: "encode_data_segment ?data t (length rest \<le> 7) = Inr p"
    by (simp add: encode_data_segment_eq)
  moreover have "decode_data_segment p =
      Inr \<lparr>seg_toggle = t, seg_last = (length rest \<le> 7), seg_data = ?data\<rparr>"
    by (rule decode_encode_data_segment [OF _ p]) simp
  ultimately show ?thesis
    using assms by (auto simp: sw_next_segment_def sw_is_done_def Let_def)
qed

lemma sw_drain_segments:
  assumes "pos < length d" and "length d - pos < fuel"
  shows "\<exists>ps. sw_drain fuel \<lparr>sw_data = d, sw_pos = pos, sw_toggle = t\<rparr> = Done ps \<and>
    map decode_data_segment ps = map Inr (segments t (drop pos d))"
  using assms
proof (induction fuel arbitrary: pos t)
  case 0
  then show ?case by simp
next
  case (Suc fuel)
  obtain p where step: "sw_next_segment \<lparr>sw_data = d, sw_pos = pos, sw_toggle = t\<rparr> =
      Done (\<lparr>sw_data = d, sw_pos = pos + min (length (drop pos d)) 7, sw_toggle = \<not> t\<rparr>, Some p)"
    and dec: "decode_data_segment p = Inr \<lparr>seg_toggle = t,
      seg_last = (length (drop pos d) \<le> 7), seg_data = take 7 (drop pos d)\<rparr>"
    using sw_next_segment_step [OF Suc.prems(1) refl] by blast
  show ?case
  proof (cases "length (drop pos d) \<le> 7")
    case True
    have "sw_drain fuel \<lparr>sw_data = d, sw_pos = length d, sw_toggle = \<not> t\<rparr> = Done []"
      using Suc.prems by (cases fuel) (simp_all add: sw_next_segment_def sw_is_done_def)
    then show ?thesis using True step dec Suc.prems
      by (auto simp: min_def segments_short)
  next
    case False
    then obtain ps where "sw_drain fuel \<lparr>sw_data = d, sw_pos = pos + 7, sw_toggle = \<not> t\<rparr> = Done ps"
      and "map decode_data_segment ps = map Inr (segments (\<not> t) (drop (pos + 7) d))"
      using Suc.IH [of "pos + 7" "\<not> t"] Suc.prems by fastforce
    then show ?thesis using False step dec
      by (auto simp: min_def segments_long add.commute)
  qed
qed

context byte_vec
begin

lemma sr_push_ok:
  assumes "v_len V (sr_buf r) + length (seg_data s) \<le> N"
    and "\<not> sr_done r" and "seg_toggle s = sr_toggle r"
  obtains r' where "sr_push V r s = Inr r'"
    and "sr_data V r' = sr_data V r @ seg_data s"
    and "sr_toggle r' = (\<not> sr_toggle r)" and "sr_done r' = seg_last s"
  using extend_room [OF assms(1)] assms(2,3) that by (auto simp: sr_push_def sr_data_def)

lemma sr_receive_segments:
  assumes "map decode_data_segment ps = map Inr (segments t d)"
    and "sr_toggle r = t" and "\<not> sr_done r" and "v_len V (sr_buf r) + length d \<le> N"
  shows "\<exists>r'. sr_receive V r ps = Inr r' \<and> sr_data V r' = sr_data V r @ d \<and> sr_done r'"
  using assms
proof (induction t d arbitrary: ps r rule: segments.induct)
  case (1 t d)
  show ?case
  proof (cases "length d \<le> 7")
    case True
    then obtain p where ps: "ps = [p]"
      and dec: "decode_data_segment p = Inr \<lparr>seg_toggle = t, seg_last = True, seg_data = d\<rparr>"
      using "1.prems"(1) by (auto simp: segments_short)
    obtain r' where "sr_push V r \<lparr>seg_toggle = t, seg_last = True, seg_data = d\<rparr> = Inr r'"
      and "sr_data V r' = sr_data V r @ d" and "sr_done r'"
      using sr_push_ok [of r "\<lparr>seg_toggle = t, seg_last = True, seg_data = d\<rparr>"] "1.prems" by auto
    then show ?thesis by (simp add: ps dec)
  next
    case False
    let ?s = "\<lparr>seg_toggle = t, seg_last = False, seg_data = take 7 d\<rparr>"
    obtain p ps' where ps: "ps = p # ps'" and dec: "decode_data_segment p = Inr ?s"
      and rest: "map decode_data_segment ps' = map Inr (segments (\<not> t) (drop 7 d))"
      using "1.prems"(1) False by (auto simp: segments_long)
    obtain r' where r': "sr_push V r ?s = Inr r'" "sr_data V r' = sr_data V r @ take 7 d"
      "sr_toggle r' = (\<not> t)" "\<not> sr_done r'"
      using sr_push_ok [of r ?s] "1.prems" False by auto
    then have "v_len V (sr_buf r') + length (drop 7 d) \<le> N"
      using "1.prems"(4) False by (simp add: sr_data_def)
    with "1.IH" [of ps' r'] False rest r' obtain r'' where "sr_receive V r' ps' = Inr r''"
      "sr_data V r'' = sr_data V r' @ drop 7 d" "sr_done r''"
      by auto
    then show ?thesis by (simp add: ps dec r')
  qed
qed

text \<open>A reader never holds more than its capacity, whatever is pushed into it.\<close>

lemma sr_push_bound: "sr_push V r s = Inr r' \<Longrightarrow> length (sr_data V r') \<le> N"
  by (auto simp: sr_push_def sr_data_def split: if_splits option.splits dest: extend_bound)

end

text \<open>Splitting a non-empty buffer with \<open>SegmentWriter\<close> never panics and ends, and a
  \<open>SegmentReader\<close> with room for the buffer accepts every frame and holds exactly the buffer.\<close>

lemma segment_writer_reader_roundtrip:
  assumes "byte_vec V N" and "d \<noteq> []" and "length d \<le> N"
  shows "\<exists>ps r. sw_drain (Suc (length d)) (segment_writer_new d) = Done ps \<and>
    length ps = (length d + 6) div 7 \<and>
    sr_receive V (segment_reader_new V) ps = Inr r \<and> sr_data V r = d \<and> sr_done r"
proof -
  obtain ps where ps: "sw_drain (Suc (length d)) (segment_writer_new d) = Done ps"
    and dec: "map decode_data_segment ps = map Inr (segments False d)"
    using sw_drain_segments [of 0 d "Suc (length d)" False] assms(2)
    by (auto simp: segment_writer_new_def)
  have "length ps = length (segments False d)" using arg_cong [OF dec, of length] by simp
  then have "length ps = (length d + 6) div 7"
    using assms(2) by (cases d) (auto simp: length_segments max_def)
  moreover obtain r where "sr_receive V (segment_reader_new V) ps = Inr r" "sr_data V r = d" "sr_done r"
    using byte_vec.sr_receive_segments [OF assms(1) dec, of "segment_reader_new V"] assms(3)
    by (auto simp: segment_reader_new_def sr_data_def bounded_vec.slice_new [OF byte_vec.axioms [OF assms(1)]])
  ultimately show ?thesis using ps by blast
qed

end
