(* ===== verification/Sdo_Block.thy ===== *)
theory Sdo_Block
  imports Sdo
begin

text \<open>
  \<^verbatim>\<open>core/src/sdo/block.rs\<close>: the CRC-16 of block transfer, the frame codecs of both directions, and
  the two helpers that cut a buffer into sub-block segments and reassemble it. The theorems show
  that the CRC is linear and tells apart any two buffers that differ in a burst of two bytes, that
  the codecs round-trip, that a whole transfer gives the buffer back for every sequence of
  sub-block sizes the protocol allows, and what happens for a size it does not allow.
\<close>

section \<open>CRC-16/XMODEM\<close>

definition crc_step :: "u16 \<Rightarrow> u16" where
  "crc_step crc = (if crc AND 0x8000 \<noteq> 0 then push_bit 1 crc XOR 0x1021 else push_bit 1 crc)"

definition crc_byte :: "u16 \<Rightarrow> u8 \<Rightarrow> u16" where
  "crc_byte crc byte = (crc_step ^^ 8) (crc XOR push_bit 8 (ucast byte))"

definition crc16 :: "u8 list \<Rightarrow> u16" where
  "crc16 data = foldl crc_byte 0 data"

lemma crc_top: "(c :: u16) AND 0x8000 \<noteq> 0 \<longleftrightarrow> bit c 15"
  using and_exp_eq_0_iff_not_bit [of c 15] by simp

lemma crc_step_xor: "crc_step (a XOR b) = crc_step a XOR crc_step b"
  by (simp add: crc_step_def crc_top bit_xor_iff push_bit_xor ac_simps)

lemma crc_step_0 [simp]: "crc_step 0 = 0"
  by (simp add: crc_step_def)

lemma crc_step_inject: "crc_step a = crc_step b \<longleftrightarrow> a = b"
proof -
  have "a = 0" if "crc_step a = 0" for a
  proof (rule ccontr)
    assume "a \<noteq> 0"
    show False
    proof (cases "bit a 15")
      case True
      then have "push_bit 1 a XOR 0x1021 = 0" using that by (simp add: crc_step_def crc_top)
      then have "even (push_bit 1 a XOR 0x1021)" by simp
      then show False by (simp add: even_xor_iff)
    next
      case False
      then have p: "push_bit 1 a = 0" using that by (simp add: crc_step_def crc_top)
      have "\<not> bit a n" for n
      proof (cases "n < 15")
        case True
        have "bit (push_bit 1 a) (Suc n) = False" unfolding p by simp
        then show ?thesis using True unfolding bit_push_bit_iff by simp
      next
        case False2: False
        then show ?thesis using False by (cases "n = 15") (auto dest: bit_imp_le_length)
      qed
      then have "a = 0" by (simp add: bit_eq_iff)
      with \<open>a \<noteq> 0\<close> show False ..
    qed
  qed
  then have "a XOR b = 0" if "crc_step a = crc_step b" using that crc_step_xor [of a b] by simp
  then show ?thesis by (metis xor.assoc xor.left_neutral xor_self_eq xor.right_neutral)
qed


lemma crc_steps_xor: "(crc_step ^^ n) (a XOR b) = (crc_step ^^ n) a XOR (crc_step ^^ n) b"
  by (induction n) (simp_all add: crc_step_xor)

lemma crc_steps_inject: "(crc_step ^^ n) a = (crc_step ^^ n) b \<longleftrightarrow> a = b"
  by (induction n) (simp_all add: crc_step_inject)

lemma crc_byte_xor: "crc_byte (a XOR b) (x XOR y) = crc_byte a x XOR crc_byte b y"
proof -
  have "(a XOR b) XOR push_bit 8 (ucast (x XOR y)) =
      (a XOR push_bit 8 (ucast x)) XOR (b XOR push_bit 8 (ucast y))"
    by (simp add: unsigned_xor_eq push_bit_xor ac_simps)
  then show ?thesis by (simp only: crc_byte_def) (rule crc_steps_xor)
qed

lemma xor_cancel: "(a :: 'a::len word) XOR c = b XOR c \<longleftrightarrow> a = b" "c XOR a = c XOR b \<longleftrightarrow> a = b"
  by (auto simp: bit_eq_iff bit_xor_iff)

lemma crc_byte_state_inject: "crc_byte a x = crc_byte b x \<longleftrightarrow> a = b"
  by (simp only: crc_byte_def crc_steps_inject xor_cancel)

lemma foldl_crc_inject: "foldl crc_byte a ys = foldl crc_byte b ys \<longleftrightarrow> a = b"
  by (induction ys arbitrary: a b) (simp_all add: crc_byte_state_inject)

text \<open>The last two bytes reach distinct states: eight steps move a low byte to the top.\<close>

lemma crc_steps_low: "n \<le> 8 \<Longrightarrow> (crc_step ^^ n) (ucast (b :: u8)) = push_bit n (ucast b)"
proof (induction n)
  case 0
  show ?case by simp
next
  case (Suc n)
  then have "\<not> bit (push_bit n (ucast b) :: u16) 15"
    by (auto simp: bit_push_bit_iff bit_unsigned_iff dest: bit_imp_le_length)
  with Suc show ?case by (simp add: crc_step_def crc_top push_bit_push_bit del: push_bit_eq_mult)
qed

lemma crc_two_bytes:
  "crc_byte (crc_byte c a) b = (crc_step ^^ 16) (c XOR (push_bit 8 (ucast a) XOR ucast b))"
proof -
  have "crc_byte (crc_byte c a) b =
      (crc_step ^^ 8) ((crc_step ^^ 8) (c XOR push_bit 8 (ucast a)) XOR (crc_step ^^ 8) (ucast b))"
    by (simp only: crc_byte_def crc_steps_low)
  also have "\<dots> = (crc_step ^^ (8 + 8)) ((c XOR push_bit 8 (ucast a)) XOR ucast b)"
    by (simp only: crc_steps_xor [symmetric] funpow_add o_apply)
  finally show ?thesis by (simp add: ac_simps)
qed

lemma two_bytes_inject:
  fixes a b a' b' :: u8
  assumes "push_bit 8 (ucast a) XOR ucast b = (push_bit 8 (ucast a') XOR ucast b' :: u16)"
  shows "a = a' \<and> b = b'"
proof -
  have eq: "bit (push_bit 8 (ucast a) XOR ucast b :: u16) n =
      bit (push_bit 8 (ucast a') XOR ucast b' :: u16) n" for n
    using assms by simp
  have "bit a n = bit a' n" if "n < 8" for n
    using eq [of "n + 8"] that by (auto simp: bit_xor_iff bit_push_bit_iff bit_unsigned_iff dest: bit_imp_le_length)
  moreover have "bit b n = bit b' n" if "n < 8" for n
    using eq [of n] that by (auto simp: bit_xor_iff bit_push_bit_iff bit_unsigned_iff dest: bit_imp_le_length)
  ultimately show ?thesis by (auto intro: bit_word_eqI)
qed

lemma crc_two_bytes_inject:
  "crc_byte (crc_byte c a) b = crc_byte (crc_byte c a') b' \<longleftrightarrow> a = a' \<and> b = b'"
proof
  assume "crc_byte (crc_byte c a) b = crc_byte (crc_byte c a') b'"
  then have "c XOR (push_bit 8 (ucast a) XOR ucast b) = c XOR (push_bit 8 (ucast a') XOR ucast b')"
    by (simp only: crc_two_bytes crc_steps_inject)
  then have "push_bit 8 (ucast a) XOR ucast b = (push_bit 8 (ucast a') XOR ucast b' :: u16)"
    by (simp only: xor_cancel)
  then show "a = a' \<and> b = b'" by (rule two_bytes_inject)
qed simp

lemma crc16_xor:
  assumes "length xs = length ys"
  shows "crc16 (map2 (XOR) xs ys) = crc16 xs XOR crc16 ys"
proof -
  have "foldl crc_byte (a XOR b) (map2 (XOR) xs ys) = foldl crc_byte a xs XOR foldl crc_byte b ys" for a b
    using assms by (induction xs ys arbitrary: a b rule: list_induct2) (simp_all add: crc_byte_xor)
  from this [of 0 0] show ?thesis by (simp add: crc16_def)
qed

lemma crc16_burst:
  assumes "crc16 (xs @ a # b # ys) = crc16 (xs @ a' # b' # ys)"
  shows "a = a' \<and> b = b'"
  using assms by (simp add: crc16_def foldl_crc_inject crc_two_bytes_inject)

section \<open>Command bytes\<close>

abbreviation (input) CS_6 :: u8 where "CS_6 \<equiv> 0xC0"
abbreviation (input) CS_5 :: u8 where "CS_5 \<equiv> 0xA0"
abbreviation (input) BLK_CRC_SUPPORTED :: u8 where "BLK_CRC_SUPPORTED \<equiv> 0x04"
abbreviation (input) BLK_SIZE_INDICATED :: u8 where "BLK_SIZE_INDICATED \<equiv> 0x02"
abbreviation (input) SUBCMD_MASK :: u8 where "SUBCMD_MASK \<equiv> 0x03"
abbreviation (input) SUBCMD_INITIATE :: u8 where "SUBCMD_INITIATE \<equiv> 0x00"
abbreviation (input) SUBCMD_END :: u8 where "SUBCMD_END \<equiv> 0x01"
abbreviation (input) SUBCMD_RESPONSE :: u8 where "SUBCMD_RESPONSE \<equiv> 0x02"
abbreviation (input) SUBCMD_START :: u8 where "SUBCMD_START \<equiv> 0x03"
abbreviation (input) LAST_SEGMENT :: u8 where "LAST_SEGMENT \<equiv> 0x80"
abbreviation (input) SEQNO_MASK :: u8 where "SEQNO_MASK \<equiv> 0x7F"
abbreviation (input) MAX_BLKSIZE :: u8 where "MAX_BLKSIZE \<equiv> 127"

section \<open>Frames\<close>

record block_initiate =
  bi_address :: address
  bi_size :: "u32 option"
  bi_crc_support :: bool

record block_negotiation =
  bn_address :: address
  bn_blksize :: u8
  bn_crc_support :: bool

record sub_segment =
  ss_seqno :: u8
  ss_last :: bool
  ss_data :: "u8 list"

definition encode_initiate_with_size ::
  "u8 \<Rightarrow> address \<Rightarrow> u32 option \<Rightarrow> bool \<Rightarrow> sdo_payload" where
  "encode_initiate_with_size cs a sz crc =
     (let p = (zeros 8)[0 := cs OR SUBCMD_INITIATE];
          p = (if crc then p[0 := p ! 0 OR BLK_CRC_SUPPORTED] else p);
          p = (case sz of
                 Some n \<Rightarrow> copy_at 4 (le_bytes 4 n) (p[0 := p ! 0 OR BLK_SIZE_INDICATED])
               | None \<Rightarrow> p)
      in put_address a p)"

definition decode_initiate_with_size :: "u8 \<Rightarrow> sdo_payload \<Rightarrow> core_error + block_initiate" where
  "decode_initiate_with_size cs p =
     (if p ! 0 AND CS_MASK \<noteq> cs \<or> p ! 0 AND SUBCMD_END \<noteq> 0 then Inl UnexpectedCommand
      else Inr \<lparr>bi_address = address_of p,
                bi_size = (if p ! 0 AND BLK_SIZE_INDICATED \<noteq> 0
                           then Some (from_le [p ! 4, p ! 5, p ! 6, p ! 7]) else None),
                bi_crc_support = (p ! 0 AND BLK_CRC_SUPPORTED \<noteq> 0)\<rparr>)"

definition encode_initiate_with_blksize :: "u8 \<Rightarrow> address \<Rightarrow> u8 \<Rightarrow> bool \<Rightarrow> sdo_payload" where
  "encode_initiate_with_blksize cs a blksize crc =
     (let p = (zeros 8)[0 := cs OR SUBCMD_INITIATE];
          p = (if crc then p[0 := p ! 0 OR BLK_CRC_SUPPORTED] else p)
      in (put_address a p)[4 := blksize])"

definition decode_initiate_with_blksize ::
  "u8 \<Rightarrow> sdo_payload \<Rightarrow> core_error + block_negotiation" where
  "decode_initiate_with_blksize cs p =
     (if p ! 0 AND CS_MASK \<noteq> cs \<or> p ! 0 AND SUBCMD_MASK \<noteq> SUBCMD_INITIATE
      then Inl UnexpectedCommand
      else Inr \<lparr>bn_address = address_of p, bn_blksize = p ! 4,
                bn_crc_support = (p ! 0 AND BLK_CRC_SUPPORTED \<noteq> 0)\<rparr>)"

definition blk_encode_download_initiate :: "address \<Rightarrow> u32 option \<Rightarrow> bool \<Rightarrow> sdo_payload" where
  "blk_encode_download_initiate a sz crc = encode_initiate_with_size CS_6 a sz crc"

definition blk_decode_download_initiate :: "sdo_payload \<Rightarrow> core_error + block_initiate" where
  "blk_decode_download_initiate p = decode_initiate_with_size CS_6 p"

definition blk_encode_download_initiate_response :: "address \<Rightarrow> u8 \<Rightarrow> bool \<Rightarrow> sdo_payload" where
  "blk_encode_download_initiate_response a blksize crc =
     encode_initiate_with_blksize CS_5 a blksize crc"

definition blk_decode_download_initiate_response ::
  "sdo_payload \<Rightarrow> core_error + block_negotiation" where
  "blk_decode_download_initiate_response p = decode_initiate_with_blksize CS_5 p"

definition blk_encode_upload_initiate :: "address \<Rightarrow> u8 \<Rightarrow> bool \<Rightarrow> sdo_payload" where
  "blk_encode_upload_initiate a blksize crc = encode_initiate_with_blksize CS_5 a blksize crc"

definition blk_decode_upload_initiate :: "sdo_payload \<Rightarrow> core_error + block_negotiation" where
  "blk_decode_upload_initiate p = decode_initiate_with_blksize CS_5 p"

definition blk_encode_upload_initiate_response ::
  "address \<Rightarrow> u32 option \<Rightarrow> bool \<Rightarrow> sdo_payload" where
  "blk_encode_upload_initiate_response a sz crc = encode_initiate_with_size CS_6 a sz crc"

definition blk_decode_upload_initiate_response :: "sdo_payload \<Rightarrow> core_error + block_initiate" where
  "blk_decode_upload_initiate_response p = decode_initiate_with_size CS_6 p"

definition encode_upload_start :: sdo_payload where
  "encode_upload_start = (zeros 8)[0 := CS_5 OR SUBCMD_START]"

definition decode_upload_start :: "sdo_payload \<Rightarrow> core_error + unit" where
  "decode_upload_start p =
     (if p ! 0 AND CS_MASK \<noteq> CS_5 \<or> p ! 0 AND SUBCMD_MASK \<noteq> SUBCMD_START
      then Inl UnexpectedCommand else Inr ())"

definition encode_sub_segment :: "u8 \<Rightarrow> u8 list \<Rightarrow> bool \<Rightarrow> core_error + sdo_payload" where
  "encode_sub_segment seqno data is_last =
     (if seqno = 0 \<or> seqno > MAX_BLKSIZE \<or> data = [] \<or> length data > SEGMENT_DATA_MAX
      then Inl BadLength
      else
        let p = (zeros 8)[0 := seqno];
            p = (if is_last then p[0 := p ! 0 OR LAST_SEGMENT] else p)
        in Inr (copy_at 1 data p))"

definition decode_sub_segment :: "sdo_payload \<Rightarrow> sub_segment" where
  "decode_sub_segment p =
     \<lparr>ss_seqno = p ! 0 AND SEQNO_MASK, ss_last = (p ! 0 AND LAST_SEGMENT \<noteq> 0),
      ss_data = take 7 (drop 1 p)\<rparr>"

definition encode_sub_response :: "u8 \<Rightarrow> u8 \<Rightarrow> sdo_payload" where
  "encode_sub_response ackseq blksize =
     ((zeros 8)[0 := CS_5 OR SUBCMD_RESPONSE])[1 := ackseq, 2 := blksize]"

definition decode_sub_response :: "sdo_payload \<Rightarrow> core_error + u8 \<times> u8" where
  "decode_sub_response p =
     (if p ! 0 AND CS_MASK \<noteq> CS_5 \<or> p ! 0 AND SUBCMD_MASK \<noteq> SUBCMD_RESPONSE
      then Inl UnexpectedCommand else Inr (p ! 1, p ! 2))"

definition encode_end :: "u8 \<Rightarrow> u16 \<Rightarrow> sdo_payload" where
  "encode_end unused crc =
     copy_at 1 (le_bytes 2 crc)
       ((zeros 8)[0 := CS_6 OR push_bit 2 (unused AND 0x07) OR SUBCMD_END])"

definition decode_end :: "sdo_payload \<Rightarrow> core_error + u8 \<times> u16" where
  "decode_end p =
     (if p ! 0 AND CS_MASK \<noteq> CS_6 \<or> p ! 0 AND SUBCMD_MASK \<noteq> SUBCMD_END
      then Inl UnexpectedCommand
      else Inr (drop_bit 2 (p ! 0) AND 0x07, from_le [p ! 1, p ! 2]))"

definition encode_end_response :: sdo_payload where
  "encode_end_response = (zeros 8)[0 := CS_5 OR SUBCMD_END]"

definition decode_end_response :: "sdo_payload \<Rightarrow> core_error + unit" where
  "decode_end_response p =
     (if p ! 0 AND CS_MASK \<noteq> CS_5 \<or> p ! 0 AND SUBCMD_MASK \<noteq> SUBCMD_END
      then Inl UnexpectedCommand else Inr ())"

section \<open>BlockWriter and BlockReceiver\<close>

record block_writer =
  bw_data :: "u8 list"
  bw_pos :: nat
  bw_seqno :: u8
  bw_blksize :: u8

definition block_writer_new :: "u8 list \<Rightarrow> u8 \<Rightarrow> block_writer" where
  "block_writer_new data blksize =
     \<lparr>bw_data = data, bw_pos = 0, bw_seqno = 1, bw_blksize = blksize\<rparr>"

definition bw_is_done :: "block_writer \<Rightarrow> bool" where
  "bw_is_done w \<longleftrightarrow> bw_pos w \<ge> length (bw_data w)"

definition bw_next_segment :: "block_writer \<Rightarrow> (block_writer \<times> sdo_payload option) run" where
  "bw_next_segment w =
     (if bw_is_done w \<or> bw_seqno w > bw_blksize w then Done (w, None)
      else
        let remaining = length (bw_data w) - bw_pos w;
            len = min remaining SEGMENT_DATA_MAX;
            is_last = (remaining \<le> SEGMENT_DATA_MAX)
        in run_bind (subslice (bw_data w) (bw_pos w) (bw_pos w + len)) (\<lambda>data.
           run_bind (expect (encode_sub_segment (bw_seqno w) data is_last)) (\<lambda>frame.
           Done (w\<lparr>bw_pos := bw_pos w + len, bw_seqno := bw_seqno w + 1\<rparr>, Some frame))))"

definition bw_start_sub_block :: "u8 \<Rightarrow> block_writer \<Rightarrow> block_writer" where
  "bw_start_sub_block blksize w = w\<lparr>bw_seqno := 1, bw_blksize := blksize\<rparr>"

definition bw_end_frame :: "bool \<Rightarrow> block_writer \<Rightarrow> sdo_payload" where
  "bw_end_frame crc_support w =
     (let r = length (bw_data w) mod SEGMENT_DATA_MAX;
          last_len = (if r = 0 \<and> bw_data w \<noteq> [] then SEGMENT_DATA_MAX else r);
          unused = of_nat (SEGMENT_DATA_MAX - last_len);
          crc = (if crc_support then crc16 (bw_data w) else 0)
      in encode_end unused crc)"

record 'b block_receiver =
  br_buf :: 'b
  br_done :: bool

definition block_receiver_new :: "('b, u8) vec_ops \<Rightarrow> 'b block_receiver" where
  "block_receiver_new V = \<lparr>br_buf = v_new V, br_done = False\<rparr>"

definition br_push ::
  "('b, u8) vec_ops \<Rightarrow> 'b block_receiver \<Rightarrow> sub_segment \<Rightarrow> core_error + 'b block_receiver" where
  "br_push V r seg =
     (if br_done r then Inl UnexpectedCommand
      else
        case v_extend V (br_buf r) (ss_data seg) of
          None \<Rightarrow> Inl Overflow
        | Some buf \<Rightarrow> Inr \<lparr>br_buf = buf, br_done = (if ss_last seg then True else br_done r)\<rparr>)"

definition br_finish ::
  "('b, u8) vec_ops \<Rightarrow> 'b block_receiver \<Rightarrow> u8 \<Rightarrow> u16 \<Rightarrow> bool \<Rightarrow>
    'b block_receiver \<times> (core_error + u8 list)" where
  "br_finish V r unused crc verify_crc =
     (let n = unat unused in
      if n > v_len V (br_buf r) then (r, Inl BadLength)
      else
        let buf = v_truncate V (br_buf r) (v_len V (br_buf r) - n);
            r' = r\<lparr>br_buf := buf\<rparr>
        in if verify_crc \<and> crc16 (v_slice V buf) \<noteq> crc then (r', Inl CrcMismatch)
           else (r', Inr (v_slice V buf)))"

section \<open>Round trips of the frames\<close>

lemma encode_initiate_with_size_frame [frame_simps]:
  "encode_initiate_with_size cs a sz crc =
     [cs OR (if crc then 4 else 0) OR (if sz = None then 0 else 2),
      ucast (index a), ucast (drop_bit 8 (index a)), subindex a] @
     (case sz of None \<Rightarrow> [0, 0, 0, 0] | Some n \<Rightarrow> le_bytes 4 n)"
  by (auto simp: encode_initiate_with_size_def Let_def frame_simps or.assoc split: option.splits)

lemma frame_update_4 [frame_simps]:
  "[b0, b1, b2, b3, b4, b5, b6, b7][4 := x] = [b0, b1, b2, b3, x, b5, b6, b7]"
  by (simp add: numeral_eq_Suc)

lemma encode_initiate_with_blksize_frame [frame_simps]:
  "encode_initiate_with_blksize cs a n crc =
     [cs OR (if crc then 4 else 0), ucast (index a), ucast (drop_bit 8 (index a)), subindex a,
      n, 0, 0, 0]"
  by (auto simp: encode_initiate_with_blksize_def Let_def frame_simps)

lemma decode_encode_initiate_with_size:
  "cs = CS_6 \<Longrightarrow> decode_initiate_with_size cs (encode_initiate_with_size cs a sz crc) =
     Inr \<lparr>bi_address = a, bi_size = sz, bi_crc_support = crc\<rparr>"
  by (auto simp: decode_initiate_with_size_def frame_simps address_of_def split: option.splits)

lemma decode_encode_initiate_with_blksize:
  "cs = CS_5 \<Longrightarrow> decode_initiate_with_blksize cs (encode_initiate_with_blksize cs a n crc) =
     Inr \<lparr>bn_address = a, bn_blksize = n, bn_crc_support = crc\<rparr>"
  by (auto simp: decode_initiate_with_blksize_def frame_simps address_of_def)

lemma decode_encode_sub_response: "decode_sub_response (encode_sub_response k n) = Inr (k, n)"
  by (simp add: decode_sub_response_def encode_sub_response_def frame_simps numeral_eq_Suc)

lemma u8_le_7_cases:
  "(n :: u8) AND 7 = 0 \<or> n AND 7 = 1 \<or> n AND 7 = 2 \<or> n AND 7 = 3 \<or> n AND 7 = 4 \<or> n AND 7 = 5
    \<or> n AND 7 = 6 \<or> n AND 7 = 7"
proof -
  have "n AND 7 = of_nat (unat n mod 8)"
    using take_bit_eq_mask [of 3 n] unsigned_take_bit_eq [of 3 n, where ?'a = nat]
    by (simp add: mask_eq_exp_minus_1 take_bit_eq_mod) (metis of_nat_unat ucast_id)
  moreover have "unat n mod 8 < 8" by simp
  ultimately obtain k :: nat where "n AND 7 = of_nat k" and "k \<le> 7" using that [of "unat n mod 8"] by simp
  then show ?thesis using le_7_cases [of k] by auto
qed

lemma decode_encode_end: "decode_end (encode_end k crc) = Inr (k AND 0x07, crc)"
  using u8_le_7_cases [of k]
  by (elim disjE) (simp_all add: decode_end_def encode_end_def frame_simps)

lemma decode_encode_units:
  "decode_upload_start encode_upload_start = Inr ()"
  "decode_end_response encode_end_response = Inr ()"
  by (simp_all add: decode_upload_start_def encode_upload_start_def decode_end_response_def
      encode_end_response_def frame_simps)


lemma sub_segment_command:
  assumes "s \<le> (127 :: u8)"
  shows "s AND 0x7F = s" and "s AND 0x80 = 0" and "(s OR 0x80) AND 0x7F = s"
    and "(s OR 0x80) AND 0x80 = 0x80"
proof -
  have "unat s < 2 ^ 7" using assms by (simp add: word_le_nat_alt)
  then have "take_bit 7 s = s"
    by (metis of_nat_unat take_bit_nat_eq_self unsigned_take_bit_eq ucast_id)
  then show *: "s AND 0x7F = s" by (simp add: take_bit_eq_mask mask_eq_exp_minus_1)
  show **: "s AND 0x80 = 0" by (subst * [symmetric]) (simp add: and.assoc)
  show "(s OR 0x80) AND 0x7F = s" using * by (simp add: bit.conj_disj_distrib2)
  show "(s OR 0x80) AND 0x80 = 0x80" using ** by (simp add: bit.conj_disj_distrib2)
qed

lemma decode_encode_sub_segment:
  assumes "1 \<le> s" and "s \<le> MAX_BLKSIZE" and "data \<noteq> []" and "length data \<le> 7"
  obtains p where "encode_sub_segment s data l = Inr p" and "length p = 8"
    and "decode_sub_segment p =
      \<lparr>ss_seqno = s, ss_last = l, ss_data = data @ zeros (7 - length data)\<rparr>"
proof -
  have s: "s \<noteq> 0" using assms(1) by auto
  have enc: "encode_sub_segment s data l =
      Inr ((if l then s OR 0x80 else s) # data @ zeros (7 - length data))"
    using assms s by (auto simp: encode_sub_segment_def zeros_8_head copy_at_1 Let_def)
  show thesis
    by (rule that [OF enc])
      (use assms(4) sub_segment_command [OF assms(2)] in \<open>auto simp: decode_sub_segment_def\<close>)
qed

section \<open>A whole block transfer\<close>

text \<open>What a buffer is cut into: chunks of seven bytes, the last one flagged and zero-padded.\<close>

function chunks :: "u8 list \<Rightarrow> (bool \<times> u8 list) list" where
  "chunks d =
     (if length d \<le> SEGMENT_DATA_MAX then [(True, d @ zeros (7 - length d))]
      else (False, take 7 d) # chunks (drop 7 d))"
  by pat_completeness auto
termination
  by (relation "measure length") auto

declare chunks.simps [simp del]

lemma chunks_short: "length d \<le> 7 \<Longrightarrow> chunks d = [(True, d @ zeros (7 - length d))]"
  by (simp add: chunks.simps [of d])

lemma chunks_long: "7 < length d \<Longrightarrow> chunks d = (False, take 7 d) # chunks (drop 7 d)"
  by (simp add: chunks.simps [of d])

lemma length_chunks: "length (chunks d) = max 1 ((length d + 6) div 7)"
proof (induction d rule: chunks.induct)
  case (1 d)
  show ?case
  proof (cases "length d \<le> 7")
    case True
    then show ?thesis by (auto simp: chunks_short max_def)
  next
    case False
    then have "(length d + 6) div 7 = Suc ((length d - 1) div 7)" and "1 \<le> (length d - 1) div 7"
      using le_div_geq [of 7 "length d + 6"] div_le_mono [of 7 "length d - 1" 7] by auto
    with 1 False show ?thesis by (simp add: chunks_long)
  qed
qed

definition unused_bytes :: "u8 list \<Rightarrow> nat" where
  "unused_bytes d = (if d = [] then 7 else 6 - (length d - 1) mod 7)"

lemma chunks_data: "concat (map snd (chunks d)) = d @ zeros (unused_bytes d)"
proof (induction d rule: chunks.induct)
  case (1 d)
  show ?case
  proof (cases "length d \<le> 7")
    case True
    then show ?thesis by (cases d) (auto simp: chunks_short unused_bytes_def)
  next
    case False
    have "(length d - 1) mod 7 = (length d - 1 - 7) mod 7"
      using le_mod_geq [of 7 "length d - 1"] False by simp
    then have "unused_bytes (drop 7 d) = unused_bytes d"
      using False by (auto simp: unused_bytes_def diff_commute)
    with 1 False show ?thesis by (simp add: chunks_long flip: append_assoc)
  qed
qed

text \<open>
  The transfer as the module documents it: segments until \<open>None\<close>, then either the end or the next
  sub-block with the size of the acknowledgement; \<open>sizes k\<close> is the size in the \<open>k\<close>-th one. The
  receiver is fed with every frame.
\<close>

fun bw_transfer ::
  "nat \<Rightarrow> (nat \<Rightarrow> u8) \<Rightarrow> nat \<Rightarrow> block_writer \<Rightarrow> (sdo_payload list \<times> block_writer) run" where
  "bw_transfer 0 sizes k w = Panic"
| "bw_transfer (Suc fuel) sizes k w =
     run_bind (bw_next_segment w) (\<lambda>(w', out).
       case out of
         Some p \<Rightarrow> run_map (\<lambda>(ps, w''). (p # ps, w'')) (bw_transfer fuel sizes k w')
       | None \<Rightarrow>
           if bw_is_done w' then Done ([], w')
           else bw_transfer fuel sizes (Suc k) (bw_start_sub_block (sizes k) w'))"

fun br_receive ::
  "('b, u8) vec_ops \<Rightarrow> 'b block_receiver \<Rightarrow> sdo_payload list \<Rightarrow> core_error + 'b block_receiver" where
  "br_receive V r [] = Inr r"
| "br_receive V r (p # ps) =
     (case br_push V r (decode_sub_segment p) of
        Inl e \<Rightarrow> Inl e
      | Inr r' \<Rightarrow> br_receive V r' ps)"

abbreviation (input) last_and_data :: "sdo_payload \<Rightarrow> bool \<times> u8 list" where
  "last_and_data p \<equiv> (ss_last (decode_sub_segment p), ss_data (decode_sub_segment p))"

lemma bw_next_segment_step:
  assumes "pos < length d" and "rest = drop pos d" and "1 \<le> s" and "s \<le> n" and "s \<le> MAX_BLKSIZE"
  obtains p where "bw_next_segment \<lparr>bw_data = d, bw_pos = pos, bw_seqno = s, bw_blksize = n\<rparr> =
      Done (\<lparr>bw_data = d, bw_pos = pos + min (length rest) 7, bw_seqno = s + 1, bw_blksize = n\<rparr>,
        Some p)"
    and "decode_sub_segment p = \<lparr>ss_seqno = s, ss_last = (length rest \<le> 7),
      ss_data = take 7 rest @ zeros (7 - length rest)\<rparr>"
proof -
  have ne: "take 7 rest \<noteq> []" using assms by auto
  have "subslice d pos (pos + min (length rest) 7) = Done (take 7 rest)"
    using assms by (auto simp: subslice_def min_def)
  moreover obtain p where "encode_sub_segment s (take 7 rest) (length rest \<le> 7) = Inr p"
    and "decode_sub_segment p = \<lparr>ss_seqno = s, ss_last = (length rest \<le> 7),
      ss_data = take 7 rest @ zeros (7 - length (take 7 rest))\<rparr>"
    using decode_encode_sub_segment [OF assms(3,5) ne] by auto
  moreover have "7 - length (take 7 rest) = 7 - length rest" by simp
  moreover have "\<not> n < s" using assms(4) by simp
  ultimately show thesis
    using that [of p] assms(1,2) by (simp add: bw_next_segment_def bw_is_done_def Let_def)
qed

lemma bw_transfer_chunks:
  assumes "pos < length d" and "1 \<le> s" and "s \<le> n + 1" and "n \<le> MAX_BLKSIZE"
    and "\<And>k. 1 \<le> sizes k \<and> sizes k \<le> MAX_BLKSIZE"
    and "2 * (length d - pos) + (if n < s then 1 else 0) < fuel"
  shows "\<exists>ps s' n'. bw_transfer fuel sizes k
      \<lparr>bw_data = d, bw_pos = pos, bw_seqno = s, bw_blksize = n\<rparr> =
        Done (ps, \<lparr>bw_data = d, bw_pos = length d, bw_seqno = s', bw_blksize = n'\<rparr>) \<and>
    map last_and_data ps = chunks (drop pos d)"
  using assms(1-4,6)
proof (induction fuel arbitrary: pos s n k)
  case 0
  then show ?case by simp
next
  case (Suc fuel)
  let ?w = "\<lambda>pos s n. \<lparr>bw_data = d, bw_pos = pos, bw_seqno = s, bw_blksize = n\<rparr>"
  show ?case
  proof (cases "n < s")
    case True
    with Suc.prems(1) have "bw_transfer (Suc fuel) sizes k (?w pos s n) =
        bw_transfer fuel sizes (Suc k) (?w pos 1 (sizes k))"
      by (simp add: bw_next_segment_def bw_is_done_def bw_start_sub_block_def)
    moreover have "\<not> sizes k < 1" and "1 \<le> sizes k + 1"
      using assms(5) [of k] by (auto simp: word_le_nat_alt word_less_nat_alt unat_word_ariths)
    ultimately show ?thesis
      using Suc.IH [of pos 1 "sizes k" "Suc k"] Suc.prems True assms(5) [of k] by simp
  next
    case False
    then have s: "s \<le> n" "s \<le> MAX_BLKSIZE" using Suc.prems(4) by auto
    obtain p where step: "bw_next_segment (?w pos s n) =
        Done (?w (pos + min (length (drop pos d)) 7) (s + 1) n, Some p)"
      and p: "decode_sub_segment p = \<lparr>ss_seqno = s, ss_last = (length (drop pos d) \<le> 7),
        ss_data = take 7 (drop pos d) @ zeros (7 - length (drop pos d))\<rparr>"
      using bw_next_segment_step [OF Suc.prems(1) refl Suc.prems(2) s] by blast
    show ?thesis
    proof (cases "length (drop pos d) \<le> 7")
      case True
      obtain f where "fuel = Suc f" using Suc.prems(1,5) by (cases fuel) auto
      then have "bw_transfer fuel sizes k (?w (length d) (s + 1) n) = Done ([], ?w (length d) (s + 1) n)"
        by (simp add: bw_next_segment_def bw_is_done_def)
      moreover have "pos + min (length (drop pos d)) 7 = length d"
        using True Suc.prems(1) by simp
      ultimately show ?thesis using step p True by (simp add: chunks_short)
    next
      case long: False
      have s1: "1 \<le> s + 1" "s + 1 \<le> n + 1"
        using s Suc.prems(2,4) by (auto simp: word_le_nat_alt unat_word_ariths)
      have fuel: "2 * (length d - (pos + 7)) + (if n < s + 1 then 1 else 0) < fuel"
        using long Suc.prems(5) False by auto
      have "pos + 7 < length d" using long by simp
      then obtain ps s' n' where rest: "bw_transfer fuel sizes k (?w (pos + 7) (s + 1) n) =
          Done (ps, ?w (length d) s' n')"
        and ps: "map last_and_data ps = chunks (drop (pos + 7) d)"
        using Suc.IH [of "pos + 7" "s + 1" n k, OF _ s1 Suc.prems(4) fuel] by blast
      have "pos + min (length (drop pos d)) 7 = pos + 7" using long by simp
      then have "bw_transfer (Suc fuel) sizes k (?w pos s n) = Done (p # ps, ?w (length d) s' n')"
        using step rest by simp
      moreover have "map last_and_data (p # ps) = chunks (drop pos d)"
        using long p ps by (simp add: chunks_long add.commute)
      ultimately show ?thesis by blast
    qed
  qed
qed

context byte_vec
begin

lemma br_receive_chunks:
  assumes "map last_and_data ps = chunks d" and "\<not> br_done r"
    and "v_len V (br_buf r) + 7 * length (chunks d) \<le> N"
  shows "\<exists>r'. br_receive V r ps = Inr r' \<and> br_done r' \<and>
    v_slice V (br_buf r') = v_slice V (br_buf r) @ concat (map snd (chunks d))"
  using assms
proof (induction d arbitrary: ps r rule: chunks.induct)
  case (1 d)
  show ?case
  proof (cases "length d \<le> 7")
    case True
    obtain p where ps: "ps = [p]"
      and p: "ss_last (decode_sub_segment p)" "ss_data (decode_sub_segment p) = d @ zeros (7 - length d)"
      using "1.prems"(1) True by (auto simp: chunks_short)
    have "v_len V (br_buf r) + length (d @ zeros (7 - length d)) \<le> N"
      using "1.prems"(3) True by (simp add: chunks_short)
    from extend_room [OF this] obtain b where
      "v_extend V (br_buf r) (d @ zeros (7 - length d)) = Some b"
      "v_slice V b = v_slice V (br_buf r) @ d @ zeros (7 - length d)" by blast
    then show ?thesis using "1.prems"(2) True by (simp add: ps p br_push_def chunks_short)
  next
    case False
    obtain p ps' where ps: "ps = p # ps'"
      and p: "\<not> ss_last (decode_sub_segment p)" "ss_data (decode_sub_segment p) = take 7 d"
      and rest: "map last_and_data ps' = chunks (drop 7 d)"
      using "1.prems"(1) False by (auto simp: chunks_long)
    have "v_len V (br_buf r) + length (take 7 d) \<le> N"
      using "1.prems"(3) False by (simp add: chunks_long)
    from extend_room [OF this] obtain b where
      b: "v_extend V (br_buf r) (take 7 d) = Some b"
      "v_slice V b = v_slice V (br_buf r) @ take 7 d" by blast
    then have "br_push V r (decode_sub_segment p) = Inr \<lparr>br_buf = b, br_done = False\<rparr>"
      using "1.prems"(2) p by (simp add: br_push_def)
    moreover have "v_len V b + 7 * length (chunks (drop 7 d)) \<le> N"
      using "1.prems"(3) False b by (simp add: chunks_long)
    ultimately show ?thesis
      using "1.IH" [of ps' "\<lparr>br_buf = b, br_done = False\<rparr>"] False rest b
      by (auto simp: ps chunks_long)
  qed
qed

lemma br_finish_exact:
  assumes "v_slice V (br_buf r) = d @ pad" and "length pad = unat u"
  shows "snd (br_finish V r u crc verify) =
    (if verify \<and> crc16 d \<noteq> crc then Inl CrcMismatch else Inr d)"
  using assms by (simp add: br_finish_def Let_def slice_truncate)

lemma br_push_bound: "br_push V r s = Inr r' \<Longrightarrow> v_len V (br_buf r') \<le> N"
  by (auto simp: br_push_def split: if_splits option.splits dest: extend_bound)

end

lemma decode_bw_end_frame:
  "decode_end (bw_end_frame c w) =
     Inr (of_nat (unused_bytes (bw_data w)), if c then crc16 (bw_data w) else 0)"
proof -
  let ?n = "length (bw_data w)"
  have u: "7 - (if ?n mod 7 = 0 \<and> bw_data w \<noteq> [] then 7 else ?n mod 7) = unused_bytes (bw_data w)"
  proof (cases "bw_data w")
    case Nil
    then show ?thesis by (simp add: unused_bytes_def)
  next
    case (Cons b bs)
    have "length bs mod 7 < 7" by simp
    then show ?thesis by (auto simp: Cons unused_bytes_def mod_Suc)
  qed
  have "unused_bytes (bw_data w) \<le> 7" by (auto simp: unused_bytes_def)
  then have "of_nat (unused_bytes (bw_data w)) AND 7 = (of_nat (unused_bytes (bw_data w)) :: u8)"
    using le_7_cases [of "unused_bytes (bw_data w)"] by auto
  with u show ?thesis by (simp add: bw_end_frame_def Let_def decode_encode_end)
qed

context byte_vec
begin

lemma block_transfer:
  assumes "d \<noteq> []" and "7 * ((length d + 6) div 7) \<le> N"
    and "1 \<le> n \<and> n \<le> MAX_BLKSIZE" and "\<forall>k. 1 \<le> sizes k \<and> sizes k \<le> MAX_BLKSIZE"
  shows "\<exists>ps w r u crc. bw_transfer (2 * length d + 1) sizes 0 (block_writer_new d n) = Done (ps, w) \<and>
    length ps = (length d + 6) div 7 \<and>
    br_receive V (block_receiver_new V) ps = Inr r \<and> br_done r \<and>
    decode_end (bw_end_frame True w) = Inr (u, crc) \<and>
    snd (br_finish V r u crc True) = Inr d"
proof -
  have n: "1 \<le> n + 1" "\<not> n < 1"
    using assms(3) by (auto simp: word_le_nat_alt word_less_nat_alt unat_word_ariths)
  obtain ps s' n' where
    t: "bw_transfer (2 * length d + 1) sizes 0 (block_writer_new d n) =
      Done (ps, \<lparr>bw_data = d, bw_pos = length d, bw_seqno = s', bw_blksize = n'\<rparr>)"
    and ps: "map last_and_data ps = chunks d"
    using bw_transfer_chunks [of 0 d 1 n sizes "2 * length d + 1" 0] assms n
    by (auto simp: block_writer_new_def)
  have len: "length (chunks d) = (length d + 6) div 7"
    using assms(1) by (cases d) (auto simp: length_chunks max_def)
  have "length ps = length (chunks d)" using arg_cong [OF ps, of length] by simp
  moreover obtain r where r: "br_receive V (block_receiver_new V) ps = Inr r" "br_done r"
    "v_slice V (br_buf r) = d @ zeros (unused_bytes d)"
    using br_receive_chunks [OF ps, of "block_receiver_new V"] assms(2) len
    by (auto simp: block_receiver_new_def slice_new chunks_data)
  moreover have "unat (of_nat (unused_bytes d) :: u8) = unused_bytes d"
    by (simp add: unused_bytes_def unat_of_nat)
  then have "snd (br_finish V r (of_nat (unused_bytes d)) (crc16 d) True) = Inr d"
    using br_finish_exact [OF r(3), of "of_nat (unused_bytes d)"] by simp
  ultimately show ?thesis using t len by (simp add: decode_bw_end_frame)
qed

lemma br_finish_burst:
  assumes "v_slice V (br_buf r) = (xs @ a' # b' # ys) @ pad" and "length pad = unat u"
    and "(a, b) \<noteq> (a', b')"
  shows "snd (br_finish V r u (crc16 (xs @ a # b # ys)) True) = Inl CrcMismatch"
  using br_finish_exact [OF assms(1,2)] crc16_burst [of xs a b ys a' b'] assms(3) by auto

end

text \<open>C20: A block transfer of any non-empty buffer, with any negotiated sub-block sizes from 1 to
  127 (changing from one acknowledgement to the next), ends without a panic after
  \<open>(len + 6) / 7\<close> segments; a receiver with room for them accepts every one, and finishing it with
  the unused count and the CRC of the end frame gives exactly the buffer.\<close>

theorem block_transfer_roundtrip:
  assumes "byte_vec V N" and "d \<noteq> []" and "7 * ((length d + 6) div 7) \<le> N"
    and "1 \<le> n \<and> n \<le> MAX_BLKSIZE" and "\<forall>k. 1 \<le> sizes k \<and> sizes k \<le> MAX_BLKSIZE"
  shows "\<exists>ps w r u crc. bw_transfer (2 * length d + 1) sizes 0 (block_writer_new d n) = Done (ps, w) \<and>
    length ps = (length d + 6) div 7 \<and>
    br_receive V (block_receiver_new V) ps = Inr r \<and> br_done r \<and>
    decode_end (bw_end_frame True w) = Inr (u, crc) \<and>
    snd (br_finish V r u crc True) = Inr d"
  by (rule byte_vec.block_transfer [OF assms])

theorem block_transfer_roundtrip_witness:
  "\<exists>ps w r u crc. bw_transfer (2 * length [1 :: u8, 2, 3, 4, 5, 6, 7, 8, 9] + 1) (\<lambda>_. 1) 0
      (block_writer_new [1, 2, 3, 4, 5, 6, 7, 8, 9] 1) = Done (ps, w) \<and>
    length ps = (length [1 :: u8, 2, 3, 4, 5, 6, 7, 8, 9] + 6) div 7 \<and>
    br_receive (list_ops 16) (block_receiver_new (list_ops 16)) ps = Inr r \<and> br_done r \<and>
    decode_end (bw_end_frame True w) = Inr (u, crc) \<and>
    snd (br_finish (list_ops 16) r u crc True) = Inr [1, 2, 3, 4, 5, 6, 7, 8, 9]"
  by (rule block_transfer_roundtrip [OF bytes.byte_vec_axioms]) simp_all

text \<open>C38: The CRC check of a block transfer catches every corruption confined to two adjacent bytes:
  when the received data differs from what the sender summed in such a pair, \<open>finish\<close> returns
  \<open>CrcMismatch\<close>.\<close>

theorem block_finish_detects_burst:
  assumes "byte_vec V N" and "v_slice V (br_buf r) = (xs @ a' # b' # ys) @ pad"
    and "length pad = unat u" and "(a, b) \<noteq> (a', b')"
  shows "snd (br_finish V r u (crc16 (xs @ a # b # ys)) True) = Inl CrcMismatch"
  by (rule byte_vec.br_finish_burst [OF assms])

theorem block_finish_detects_burst_witness:
  "snd (br_finish (list_ops 16) \<lparr>br_buf = ([1] @ 7 # 3 # [4]) @ [0, 0], br_done = True\<rparr> 2
     (crc16 ([1] @ 2 # 3 # [4])) True) = Inl CrcMismatch"
  by (rule block_finish_detects_burst [where pad = "[0, 0]" and N = 16, OF bytes.byte_vec_axioms]) (simp, simp, simp)

section \<open>Sub-blocks larger than the protocol allows\<close>

fun bw_calls :: "nat \<Rightarrow> block_writer \<Rightarrow> block_writer run" where
  "bw_calls 0 w = Done w"
| "bw_calls (Suc n) w = run_bind (bw_calls n w) (\<lambda>w'. run_map fst (bw_next_segment w'))"

lemma unat_of_nat_u8: "m < 256 \<Longrightarrow> unat (of_nat m :: u8) = m"
  by (simp add: unat_of_nat)

lemma bw_calls_state:
  assumes "7 * k < length d" and "k \<le> 127" and "128 \<le> n"
  shows "bw_calls k (block_writer_new d n) =
    Done \<lparr>bw_data = d, bw_pos = 7 * k, bw_seqno = of_nat (k + 1), bw_blksize = n\<rparr>"
  using assms
proof (induction k)
  case 0
  then show ?case by (simp add: block_writer_new_def)
next
  case (Suc k)
  have k: "unat (of_nat (k + 1) :: u8) = k + 1" using Suc.prems(2) by (intro unat_of_nat_u8) simp
  then have s: "(1 :: u8) \<le> of_nat (k + 1)" "of_nat (k + 1) \<le> n" "of_nat (k + 1) \<le> MAX_BLKSIZE"
    using Suc.prems(2,3) by (simp_all add: word_le_nat_alt del: of_nat_add of_nat_Suc)
  have "bw_calls k (block_writer_new d n) =
      Done \<lparr>bw_data = d, bw_pos = 7 * k, bw_seqno = of_nat (k + 1), bw_blksize = n\<rparr>"
    using Suc by simp
  moreover obtain p where "bw_next_segment
      \<lparr>bw_data = d, bw_pos = 7 * k, bw_seqno = of_nat (k + 1), bw_blksize = n\<rparr> =
      Done (\<lparr>bw_data = d, bw_pos = 7 * k + min (length (drop (7 * k) d)) 7,
        bw_seqno = of_nat (k + 1) + 1, bw_blksize = n\<rparr>, Some p)"
    using bw_next_segment_step [OF _ refl s(1,2,3), of "7 * k" d] Suc.prems(1) by auto
  ultimately show ?case using Suc.prems(1) by (simp add: min_def algebra_simps)
qed

text \<open>C39: A peer that negotiates a sub-block size of 128 or more (the byte of the response is not
  checked) makes the writer panic: it emits 127 segments and the next call hits \<open>expect\<close> on a
  sequence number that does not fit the frame, for every buffer longer than 889 bytes.\<close>

theorem block_writer_oversized_panics:
  assumes "128 \<le> n" and "889 < length d"
  shows "\<exists>w. bw_calls 127 (block_writer_new d n) = Done w \<and> bw_next_segment w = Panic"
proof -
  have "bw_calls 127 (block_writer_new d n) =
      Done \<lparr>bw_data = d, bw_pos = 889, bw_seqno = 128, bw_blksize = n\<rparr>"
    using bw_calls_state [of 127 d n] assms by (simp add: word_le_nat_alt del: bw_calls.simps)
  moreover have "bw_next_segment \<lparr>bw_data = d, bw_pos = 889, bw_seqno = 128, bw_blksize = n\<rparr> = Panic"
    using assms by (auto simp: bw_next_segment_def bw_is_done_def Let_def subslice_def
        encode_sub_segment_def word_le_nat_alt word_less_nat_alt)
  ultimately show ?thesis by blast
qed

theorem block_writer_oversized_panics_witness:
  "\<exists>w. bw_calls 127 (block_writer_new (zeros 900) 200) = Done w \<and> bw_next_segment w = Panic"
  by (rule block_writer_oversized_panics) simp_all

section \<open>The frames as codecs\<close>

interpretation blk_download_initiate: frame_codec
  "\<lambda>b. blk_encode_download_initiate (bi_address b) (bi_size b) (bi_crc_support b)"
  blk_decode_download_initiate "\<lambda>_. True"
  by unfold_locales
    (simp add: blk_encode_download_initiate_def blk_decode_download_initiate_def
      decode_encode_initiate_with_size)

interpretation blk_upload_initiate: frame_codec
  "\<lambda>b. blk_encode_upload_initiate (bn_address b) (bn_blksize b) (bn_crc_support b)"
  blk_decode_upload_initiate "\<lambda>_. True"
  by unfold_locales
    (simp add: blk_encode_upload_initiate_def blk_decode_upload_initiate_def
      decode_encode_initiate_with_blksize)

interpretation blk_download_response: frame_codec
  "\<lambda>b. blk_encode_download_initiate_response (bn_address b) (bn_blksize b) (bn_crc_support b)"
  blk_decode_download_initiate_response "\<lambda>_. True"
  by unfold_locales
    (simp add: blk_encode_download_initiate_response_def blk_decode_download_initiate_response_def
      decode_encode_initiate_with_blksize)

interpretation blk_upload_response: frame_codec
  "\<lambda>b. blk_encode_upload_initiate_response (bi_address b) (bi_size b) (bi_crc_support b)"
  blk_decode_upload_initiate_response "\<lambda>_. True"
  by unfold_locales
    (simp add: blk_encode_upload_initiate_response_def blk_decode_upload_initiate_response_def
      decode_encode_initiate_with_size)

interpretation blk_sub_response: frame_codec
  "\<lambda>(k, n). encode_sub_response k n" decode_sub_response "\<lambda>_. True"
  by unfold_locales (auto simp: decode_encode_sub_response)

interpretation blk_end: frame_codec
  "\<lambda>(k, crc). encode_end k crc" decode_end "\<lambda>(k, crc). k AND 0x07 = k"
  by unfold_locales (auto simp: decode_encode_end)

text \<open>Every control frame of a block transfer is read back by its decoder: both initiate
  handshakes, the sub-block acknowledgement and the end frame (whose unused count keeps three
  bits).\<close>

theorem block_frames_roundtrip:
  "blk_decode_download_initiate (blk_encode_download_initiate a sz crc) =
     Inr \<lparr>bi_address = a, bi_size = sz, bi_crc_support = crc\<rparr> \<and>
   blk_decode_upload_initiate_response (blk_encode_upload_initiate_response a sz crc) =
     Inr \<lparr>bi_address = a, bi_size = sz, bi_crc_support = crc\<rparr> \<and>
   blk_decode_upload_initiate (blk_encode_upload_initiate a n crc) =
     Inr \<lparr>bn_address = a, bn_blksize = n, bn_crc_support = crc\<rparr> \<and>
   blk_decode_download_initiate_response (blk_encode_download_initiate_response a n crc) =
     Inr \<lparr>bn_address = a, bn_blksize = n, bn_crc_support = crc\<rparr> \<and>
   decode_sub_response (encode_sub_response k n) = Inr (k, n) \<and>
   decode_end (encode_end k c) = Inr (k AND 0x07, c)"
  using blk_download_initiate.dec_enc [of "\<lparr>bi_address = a, bi_size = sz, bi_crc_support = crc\<rparr>"]
    blk_upload_response.dec_enc [of "\<lparr>bi_address = a, bi_size = sz, bi_crc_support = crc\<rparr>"]
    blk_upload_initiate.dec_enc [of "\<lparr>bn_address = a, bn_blksize = n, bn_crc_support = crc\<rparr>"]
    blk_download_response.dec_enc [of "\<lparr>bn_address = a, bn_blksize = n, bn_crc_support = crc\<rparr>"]
    blk_sub_response.dec_enc [of "(k, n)"]
  by (simp add: decode_encode_end)

end
