(* ===== verification/Crc_Poly.thy ===== *)
theory Crc_Poly
  imports Sdo_Block
begin

text \<open>
  The reference for the CRC of block transfer: the remainder of polynomial division over GF(2) of the
  message, followed by sixteen zero bits, by \<open>x^16 + x^12 + x^5 + 1\<close>. The byte-wise, shifting \<open>crc16\<close> of
  \<^verbatim>\<open>core/src/sdo/block.rs\<close> computes exactly it.
\<close>

section \<open>Long division\<close>

text \<open>Bits come most significant first.\<close>

definition bits16 :: "u16 \<Rightarrow> bool list" where
  "bits16 c = rev (map (bit c) [0..<16])"

definition bits8 :: "u8 \<Rightarrow> bool list" where
  "bits8 b = rev (map (bit b) [0..<8])"

definition xor_into :: "bool list \<Rightarrow> bool list \<Rightarrow> bool list" where
  "xor_into p xs = map2 (\<noteq>) p (take 16 xs) @ drop 16 xs"

function gf2_rem :: "bool list \<Rightarrow> bool list" where
  "gf2_rem [] = []"
| "gf2_rem (b # bs) =
     (if length bs < 16 then b # bs
      else gf2_rem (if b then xor_into (bits16 0x1021) bs else bs))"
  by pat_completeness auto
termination
  by (relation "measure length") (auto simp: xor_into_def bits16_def)

section \<open>One bit at a time\<close>

definition crc_bit :: "u16 \<Rightarrow> bool \<Rightarrow> u16" where
  "crc_bit c b = (if bit c 15 \<noteq> b then push_bit 1 c XOR 0x1021 else push_bit 1 c)"

lemma length_bits16 [simp]: "length (bits16 c) = 16"
  by (simp add: bits16_def)

lemma nth_bits16: "i < 16 \<Longrightarrow> bits16 c ! i = bit c (15 - i)"
  by (simp add: bits16_def rev_nth)

lemma length_xor_into: "16 \<le> length xs \<Longrightarrow> length (xor_into (bits16 c) xs) = length xs"
  by (simp add: xor_into_def)

lemma nth_xor_into: "16 \<le> length xs \<Longrightarrow> i < length xs \<Longrightarrow>
    xor_into (bits16 c) xs ! i = (if i < 16 then bit c (15 - i) \<noteq> xs ! i else xs ! i)"
  by (simp add: xor_into_def nth_append nth_bits16)

lemma xor_into_xor:
  "16 \<le> length xs \<Longrightarrow> xor_into (bits16 (a XOR p)) xs = xor_into (bits16 p) (xor_into (bits16 a) xs)"
  by (rule nth_equalityI) (auto simp: length_xor_into nth_xor_into bit_xor_iff)

lemma xor_into_shift:
  assumes "16 \<le> length xs"
  shows "xor_into (bits16 c) (b # xs) = (bit c 15 \<noteq> b) # xor_into (bits16 (push_bit 1 c)) xs"
proof (rule nth_equalityI)
  show "length (xor_into (bits16 c) (b # xs)) = length ((bit c 15 \<noteq> b) # xor_into (bits16 (push_bit 1 c)) xs)"
    using assms by (simp add: length_xor_into)
  fix i
  assume "i < length (xor_into (bits16 c) (b # xs))"
  then have i: "i < Suc (length xs)" using assms by (simp add: length_xor_into)
  show "xor_into (bits16 c) (b # xs) ! i = ((bit c 15 \<noteq> b) # xor_into (bits16 (push_bit 1 c)) xs) ! i"
  proof (cases i)
    case 0
    then show ?thesis using assms by (simp add: nth_xor_into)
  next
    case (Suc j)
    have shift: "bit (push_bit 1 c) (15 - j) = (j < 15 \<and> bit c (14 - j))"
      by (auto simp: bit_push_bit_iff simp del: push_bit_eq_mult push_bit_Suc
          dest: bit_imp_le_length)
    consider "j < 15" | "j = 15" | "15 < j" by linarith
    then show ?thesis
      by cases (use Suc i assms shift in \<open>simp_all add: nth_xor_into del: push_bit_eq_mult push_bit_Suc\<close>)
  qed
qed

lemma gf2_rem_step:
  assumes "16 \<le> length xs"
  shows "gf2_rem (xor_into (bits16 c) (b # xs)) = gf2_rem (xor_into (bits16 (crc_bit c b)) xs)"
  using assms
  by (simp add: xor_into_shift length_xor_into crc_bit_def xor_into_xor del: push_bit_eq_mult)

lemma gf2_rem_bits:
  "gf2_rem (xor_into (bits16 c) (bs @ replicate 16 False)) = bits16 (foldl crc_bit c bs)"
proof (induction bs arbitrary: c)
  case Nil
  have "xor_into (bits16 c) (replicate 16 False) = bits16 c"
    by (rule nth_equalityI) (simp_all add: length_xor_into nth_xor_into nth_bits16)
  moreover have "gf2_rem (bits16 c) = bits16 c"
    by (cases "bits16 c") (auto dest: arg_cong [where f = length])
  ultimately show ?case by simp
next
  case (Cons b bs)
  then show ?case using gf2_rem_step [of "bs @ replicate 16 False" c b] by simp
qed

section \<open>Eight bits at a time\<close>

lemma crc_step_no_top: "\<not> bit d 15 \<Longrightarrow> crc_step d = push_bit 1 d"
  by (simp add: crc_step_def crc_top)

lemma bit_twiddle_top: "bit (0x8000 :: u16) n = (n = 15)"
proof -
  have "(0x8000 :: u16) = 2 ^ 15" by simp
  then have "bit (0x8000 :: u16) n = bit ((2 :: u16) ^ 15) n" by (rule arg_cong)
  also have "\<dots> = (n = 15)" by (subst bit_exp_iff) auto
  finally show ?thesis .
qed

lemma crc_bit_step: "crc_bit c b = crc_step (c XOR (if b then 0x8000 else 0))"
proof -
  have top: "bit (0x8000 :: u16) 15" by (simp add: bit_twiddle_top)
  have shift: "push_bit 1 (0x8000 :: u16) = 0" by simp
  have "push_bit 1 (c XOR 0x8000) = push_bit 1 c" by (simp only: push_bit_xor shift xor.right_neutral)
  then show ?thesis using top
    by (cases b) (simp_all add: crc_bit_def crc_step_def crc_top bit_xor_iff del: push_bit_eq_mult)
qed

lemma crc_bits:
  "m \<le> 8 \<Longrightarrow> foldl crc_bit c (rev (map (bit r) [0..<m])) =
    (crc_step ^^ m) (c XOR push_bit (16 - m) (take_bit m r))"
proof (induction m arbitrary: c)
  case 0
  then show ?case by simp
next
  case (Suc m)
  let ?t = "push_bit (15 - m) (take_bit m r)"
  have split: "push_bit (15 - m) (take_bit (Suc m) r) = (if bit r m then 0x8000 else 0) XOR ?t"
  proof (rule bit_word_eqI)
    fix n assume "n < LENGTH(16)"
    then have n: "n < 16" by simp
    have top: "bit (0x8000 :: u16) n = (n = 15)" by (rule bit_twiddle_top)
    show "bit (push_bit (15 - m) (take_bit (Suc m) r)) n = bit ((if bit r m then 0x8000 else 0) XOR ?t) n"
    proof (cases "n = 15")
      case True
      then show ?thesis using Suc.prems top
        by (simp add: bit_xor_iff bit_push_bit_iff bit_take_bit_iff del: push_bit_eq_mult)
    next
      case False
      then show ?thesis using Suc.prems top n
        by (auto simp: bit_xor_iff bit_push_bit_iff bit_take_bit_iff simp del: push_bit_eq_mult)
    qed
  qed
  have "\<not> bit ?t 15"
    using Suc.prems by (auto simp: bit_push_bit_iff bit_take_bit_iff simp del: push_bit_eq_mult)
  then have "crc_step ?t = push_bit 1 ?t" by (rule crc_step_no_top)
  also have "\<dots> = push_bit (1 + (15 - m)) (take_bit m r)" by (simp only: push_bit_push_bit)
  also have "1 + (15 - m) = 16 - m" using Suc.prems by simp
  finally have step: "crc_bit c (bit r m) XOR push_bit (16 - m) (take_bit m r) =
      crc_step (c XOR push_bit (15 - m) (take_bit (Suc m) r))"
    unfolding crc_bit_step split by (simp add: crc_step_xor ac_simps)
  have "foldl crc_bit c (rev (map (bit r) [0..<Suc m])) =
      (crc_step ^^ m) (crc_bit c (bit r m) XOR push_bit (16 - m) (take_bit m r))"
    using Suc.IH [of "crc_bit c (bit r m)"] Suc.prems by simp
  then show ?case unfolding step by (simp add: funpow_swap1)
qed

lemma crc_byte_bits: "foldl crc_bit c (bits8 b) = crc_byte c b"
proof -
  have "bits8 b = rev (map (bit (ucast b :: u16)) [0..<8])"
    by (auto simp: bits8_def bit_unsigned_iff)
  moreover have "take_bit 8 (ucast b :: u16) = ucast b"
    by (rule bit_word_eqI) (auto simp: bit_take_bit_iff bit_unsigned_iff dest: bit_imp_le_length)
  ultimately show ?thesis using crc_bits [of 8 c "ucast b"] by (simp add: crc_byte_def)
qed

text \<open>C40: The CRC of block transfer is the CRC-16/XMODEM checksum: for every message it is the remainder
  of dividing the message, followed by sixteen zero bits, by x^16 + x^12 + x^5 + 1 over GF(2).\<close>

theorem crc16_is_polynomial_remainder:
  "bits16 (crc16 data) = gf2_rem (concat (map bits8 data) @ replicate 16 False)"
proof -
  have fold: "foldl crc_bit c (concat (map bits8 data)) = foldl crc_byte c data" for c
    by (induction data arbitrary: c) (simp_all add: crc_byte_bits)
  have "xor_into (bits16 0) xs = xs" if "16 \<le> length xs" for xs
    using that by (intro nth_equalityI) (simp_all add: length_xor_into nth_xor_into)
  then show ?thesis
    using gf2_rem_bits [of 0 "concat (map bits8 data)"] by (simp add: fold crc16_def)
qed

end
