(* ===== verification/Time.thy ===== *)
theory Time
  imports Types
begin

text \<open>
  \<^verbatim>\<open>core/src/time.rs\<close>: the TIME_OF_DAY payload. The millisecond field is 28 bits wide, which holds
  every time of day.
\<close>

abbreviation (input) TIME_COB_ID :: u16 where "TIME_COB_ID \<equiv> 0x100"
abbreviation (input) MS_PER_DAY :: u32 where "MS_PER_DAY \<equiv> 86400000"

record time_of_day =
  td_milliseconds :: u32
  td_days :: u16

definition time_new :: "u32 \<Rightarrow> u16 \<Rightarrow> time_of_day" where
  "time_new ms days = \<lparr>td_milliseconds = ms, td_days = days\<rparr>"

definition time_encode :: "time_of_day \<Rightarrow> u8 list" where
  "time_encode t =
     (let ms = td_milliseconds t AND 0x0FFFFFFF
      in copy_at 4 (le_bytes 2 (td_days t)) (copy_at 0 (le_bytes 4 ms) (zeros 6)))"

definition time_decode :: "u8 list \<Rightarrow> core_error + time_of_day" where
  "time_decode data =
     (if length data < 6 then Inl BadLength
      else Inr \<lparr>td_milliseconds =
                  from_le [data ! 0, data ! 1, data ! 2, data ! 3] AND 0x0FFFFFFF,
                td_days = from_le [data ! 4, data ! 5]\<rparr>)"

lemma time_encode_frame:
  "time_encode t = le_bytes 4 (td_milliseconds t AND 0x0FFFFFFF) @ le_bytes 2 (td_days t)"
  by (simp add: time_encode_def copy_at_def frame_simps)

lemma time_decode_encode:
  "time_decode (time_encode t @ rest) =
     Inr \<lparr>td_milliseconds = td_milliseconds t AND 0x0FFFFFFF, td_days = td_days t\<rparr>"
proof -
  define ms where "ms = td_milliseconds t AND 0x0FFFFFFF"
  have "from_le (le_bytes 4 ms) = ms" and "from_le (le_bytes 2 (td_days t)) = td_days t"
    by (rule from_le_le_bytes; simp)+
  moreover have "ms AND 0x0FFFFFFF = ms" by (simp add: ms_def and.assoc)
  ultimately show ?thesis
    by (simp add: time_decode_def time_encode_frame frame_simps flip: ms_def del: from_le.simps)
qed

lemma time_fits:
  assumes "ms < MS_PER_DAY"
  shows "ms AND 0x0FFFFFFF = ms"
proof -
  have "unat ms < 2 ^ 28" using assms by (simp add: word_less_nat_alt)
  then have "take_bit 28 ms = ms"
    by (metis of_nat_unat take_bit_nat_eq_self unsigned_take_bit_eq ucast_id)
  then show ?thesis by (simp add: take_bit_eq_mask mask_eq_exp_minus_1)
qed

interpretation time_frame: frame_codec time_encode time_decode
  "\<lambda>t. td_milliseconds t AND 0x0FFFFFFF = td_milliseconds t"
  using time_decode_encode [where rest = "[]"] by unfold_locales simp

text \<open>Every time of day before midnight survives the TIME frame; the reserved top bits never
  reach the decoded value, and a field shorter than six bytes is refused.\<close>

theorem time_roundtrip:
  assumes "td_milliseconds t < MS_PER_DAY"
  shows "time_decode (time_encode t) = Inr t"
  using time_frame.dec_enc [OF time_fits [OF assms]] .

end
