(* ===== verification/Sdo_Server.thy ===== *)
theory Sdo_Server
  imports Sdo
begin

text \<open>
  \<^verbatim>\<open>core/src/sdo/server.rs\<close>: the SDO server as a state machine over request frames. Each handler
  takes the dictionary, the server and the request and returns them updated together with the
  response; \<open>Panic\<close> stands for a failing \<open>expect\<close>, slice or subtraction.
\<close>

section \<open>State\<close>

datatype 'b transfer =
    Upload (up_addr: address) (up_data: "u8 list") (up_len: nat) (up_pos: nat) (up_toggle: bool)
  | Download (dn_addr: address) (dn_type: data_type) (dn_buf: 'b) (dn_declared: nat) (dn_toggle: bool)

record 'b sdo_server =
  srv_node :: node_id
  srv_transfer :: "'b transfer option"
  srv_last_write :: "address option"

definition sdo_server_new :: "node_id \<Rightarrow> 'b sdo_server" where
  "sdo_server_new n = \<lparr>srv_node = n, srv_transfer = None, srv_last_write = None\<rparr>"

definition srv_request_cob_id :: "'b sdo_server \<Rightarrow> u16" where
  "srv_request_cob_id srv = request_cob_id (srv_node srv)"

definition srv_response_cob_id :: "'b sdo_server \<Rightarrow> u16" where
  "srv_response_cob_id srv = response_cob_id (srv_node srv)"

definition srv_is_busy :: "'b sdo_server \<Rightarrow> bool" where
  "srv_is_busy srv \<longleftrightarrow> srv_transfer srv \<noteq> None"

definition take_write :: "'b sdo_server \<Rightarrow> address option \<times> 'b sdo_server" where
  "take_write srv = (srv_last_write srv, srv\<lparr>srv_last_write := None\<rparr>)"

section \<open>Handlers\<close>

definition req_address :: "sdo_payload \<Rightarrow> address" where
  "req_address req = Address (from_le [req ! 1, req ! 2]) (req ! 3)"

definition srv_abort :: "address \<Rightarrow> sdo_abort_code \<Rightarrow> sdo_payload option" where
  "srv_abort a code = Some (encode_abort a code)"

definition write_value ::
  "'m od_ops \<Rightarrow> 'm \<Rightarrow> address \<Rightarrow> od_value \<Rightarrow> address option \<Rightarrow>
   'm \<times> address option \<times> sdo_payload option" where
  "write_value M od a v last_write =
     (case od_write M od a v of
        Inr od' \<Rightarrow> (od', Some a, Some (encode_download_response a))
      | Inl e \<Rightarrow>
          if e = ReadOnly then (od, last_write, srv_abort a WriteOfReadOnly)
          else if e = TypeMismatch then (od, last_write, srv_abort a DataTypeMismatchLengthHigh)
          else (od, last_write, srv_abort a General))"

definition on_download_initiate ::
  "'m od_ops \<Rightarrow> ('b, u8) vec_ops \<Rightarrow> 'm \<Rightarrow> 'b sdo_server \<Rightarrow> sdo_payload \<Rightarrow>
   ('m \<times> 'b sdo_server \<times> sdo_payload option) run" where
  "on_download_initiate M B od srv req =
     (let a = req_address req in
      case od_entry M od a of
        None \<Rightarrow> Done (od, srv, srv_abort a ObjectDoesNotExist)
      | Some e \<Rightarrow>
          let dt = data_type_of (e_value e) in
          if \<not> is_writable (e_access e) then Done (od, srv, srv_abort a WriteOfReadOnly)
          else if req ! 0 AND EXPEDITED \<noteq> 0 then
            let len = (if req ! 0 AND SIZE_INDICATED \<noteq> 0
                       then 4 - unat (drop_bit 2 (req ! 0) AND 0x03)
                       else (case fixed_size dt of Some n \<Rightarrow> n | None \<Rightarrow> 0)) in
            if len > 4 then Done (od, srv, srv_abort a DataTypeMismatchLengthHigh)
            else if (case fixed_size dt of Some fixed \<Rightarrow> len \<noteq> fixed | None \<Rightarrow> False)
            then Done (od, srv, srv_abort a DataTypeMismatchLengthHigh)
            else
              run_bind (subslice req 4 (4 + len)) (\<lambda>data.
              case decode_le dt data of
                Inl _ \<Rightarrow> Done (od, srv, srv_abort a General)
              | Inr v \<Rightarrow>
                  (case write_value M od a v (srv_last_write srv) of
                     (od', lw, out) \<Rightarrow> Done (od', srv\<lparr>srv_last_write := lw\<rparr>, out)))
          else
            case decode_download_initiate_segmented req of
              Inl _ \<Rightarrow> Done (od, srv, srv_abort a CommandInvalid)
            | Inr (_, sz) \<Rightarrow>
                if (case fixed_size dt of
                      Some fixed \<Rightarrow> unat sz = fixed
                    | None \<Rightarrow> unat sz \<le> MAX_STRING_LEN)
                then Done (od,
                       srv\<lparr>srv_transfer := Some (Download a dt (v_new B) (unat sz) False)\<rparr>,
                       Some (encode_download_response a))
                else Done (od, srv, srv_abort a DataTypeMismatchLengthHigh))"

definition on_upload_initiate ::
  "'m od_ops \<Rightarrow> 'm \<Rightarrow> 'b sdo_server \<Rightarrow> sdo_payload \<Rightarrow>
   ('m \<times> 'b sdo_server \<times> sdo_payload option) run" where
  "on_upload_initiate M od srv req =
     (let a = req_address req in
      case od_read M od a of
        Inl e \<Rightarrow>
          if e = ObjectNotFound then Done (od, srv, srv_abort a ObjectDoesNotExist)
          else if e = WriteOnly then Done (od, srv, srv_abort a ReadOfWriteOnly)
          else Done (od, srv, srv_abort a General)
      | Inr v \<Rightarrow>
          let sz = value_size v in
          if 1 \<le> sz \<and> sz \<le> 4 then
            run_bind (expect (encode_upload_expedited_response a v)) (\<lambda>p.
            Done (od, srv, Some p))
          else
            run_bind (subslice (zeros MAX_STRING_LEN) 0 sz) (\<lambda>buf.
            run_bind (expect (encode_le v buf)) (\<lambda>(_, bytes).
            Done (od,
              srv\<lparr>srv_transfer :=
                Some (Upload a (copy_at 0 bytes (zeros MAX_STRING_LEN)) sz 0 False)\<rparr>,
              Some (encode_upload_initiate_segmented_response a (of_nat sz))))))"

definition on_upload_segment ::
  "'b sdo_server \<Rightarrow> sdo_payload \<Rightarrow> ('b sdo_server \<times> sdo_payload option) run" where
  "on_upload_segment srv req =
     (let want_toggle = (req ! 0 AND TOGGLE \<noteq> 0);
          taken = srv\<lparr>srv_transfer := None\<rparr> in
      case srv_transfer srv of
        Some (Upload a data len pos toggle) \<Rightarrow>
          if want_toggle \<noteq> toggle then Done (taken, srv_abort a ToggleBitNotAlternated)
          else
            run_bind (usub len pos) (\<lambda>remaining.
            let n = min remaining SEGMENT_DATA_MAX; is_last = (remaining \<le> SEGMENT_DATA_MAX) in
            run_bind (subslice data pos (pos + n)) (\<lambda>d.
            run_bind (expect (encode_data_segment d toggle is_last)) (\<lambda>seg.
            Done (if is_last then taken
                  else taken\<lparr>srv_transfer := Some (Upload a data len (pos + n) (\<not> toggle))\<rparr>,
                  Some seg))))
      | _ \<Rightarrow> Done (taken, srv_abort (Address 0 0) CommandInvalid))"

definition on_download_segment ::
  "'m od_ops \<Rightarrow> ('b, u8) vec_ops \<Rightarrow> 'm \<Rightarrow> 'b sdo_server \<Rightarrow> sdo_payload \<Rightarrow>
   'm \<times> 'b sdo_server \<times> sdo_payload option" where
  "on_download_segment M B od srv req =
     (case decode_data_segment req of
        Inl _ \<Rightarrow> (od, srv, srv_abort (Address 0 0) CommandInvalid)
      | Inr seg \<Rightarrow>
          let taken = srv\<lparr>srv_transfer := None\<rparr> in
          case srv_transfer srv of
            Some (Download a dt buf declared toggle) \<Rightarrow>
              if seg_toggle seg \<noteq> toggle then (od, taken, srv_abort a ToggleBitNotAlternated)
              else
                (case v_extend B buf (seg_data seg) of
                   None \<Rightarrow> (od, taken, srv_abort a DataTypeMismatchLengthHigh)
                 | Some buf' \<Rightarrow>
                     let ack = encode_download_segment_response (seg_toggle seg) in
                     if seg_last seg then
                       if v_len B buf' \<noteq> declared
                       then (od, taken, srv_abort a DataTypeMismatchLengthLow)
                       else
                         (case decode_le dt (v_slice B buf') of
                            Inl _ \<Rightarrow> (od, taken, srv_abort a General)
                          | Inr v \<Rightarrow>
                              (case od_write M od a v of
                                 Inr od' \<Rightarrow> (od', taken\<lparr>srv_last_write := Some a\<rparr>, Some ack)
                               | Inl e \<Rightarrow>
                                   if e = ReadOnly then (od, taken, srv_abort a WriteOfReadOnly)
                                   else (od, taken, srv_abort a General)))
                     else
                       (od,
                        taken\<lparr>srv_transfer := Some (Download a dt buf' declared (\<not> toggle))\<rparr>,
                        Some ack))
          | _ \<Rightarrow> (od, taken, srv_abort (Address 0 0) CommandInvalid))"

definition srv_handle ::
  "'m od_ops \<Rightarrow> ('b, u8) vec_ops \<Rightarrow> 'm \<Rightarrow> 'b sdo_server \<Rightarrow> sdo_payload \<Rightarrow>
   ('m \<times> 'b sdo_server \<times> sdo_payload option) run" where
  "srv_handle M B od srv req =
     (let cs = req ! 0 AND CS_MASK in
      if cs = CCS_DOWNLOAD_INITIATE then on_download_initiate M B od srv req
      else if cs = CCS_UPLOAD_INITIATE then on_upload_initiate M od srv req
      else if cs = CCS_DOWNLOAD_SEGMENT then Done (on_download_segment M B od srv req)
      else if cs = CCS_UPLOAD_SEGMENT then
        run_bind (on_upload_segment srv req) (\<lambda>(srv', out). Done (od, srv', out))
      else if cs = CS_ABORT then Done (od, srv\<lparr>srv_transfer := None\<rparr>, None)
      else Done (od, srv, srv_abort (req_address req) CommandInvalid))"

section \<open>Invariant\<close>

text \<open>
  An upload in progress holds the whole value at the front of its 32-byte buffer, and its position
  is inside it: strictly, unless the value is empty and no segment has been sent yet. A download in
  progress never declares more than the buffer holds.
\<close>

fun wf_transfer :: "('b, u8) vec_ops \<Rightarrow> 'b transfer \<Rightarrow> bool" where
  "wf_transfer B (Upload a data len pos toggle) \<longleftrightarrow>
     length data = MAX_STRING_LEN \<and> len \<le> MAX_STRING_LEN \<and> (pos < len \<or> pos = 0)"
| "wf_transfer B (Download a dt buf declared toggle) \<longleftrightarrow>
     v_len B buf \<le> MAX_STRING_LEN \<and> declared \<le> MAX_STRING_LEN"

definition wf_srv :: "('b, u8) vec_ops \<Rightarrow> 'b sdo_server \<Rightarrow> bool" where
  "wf_srv B srv \<longleftrightarrow> (case srv_transfer srv of None \<Rightarrow> True | Some t \<Rightarrow> wf_transfer B t)"

lemma wf_srv_new [simp]: "wf_srv B (sdo_server_new n)"
  by (simp add: wf_srv_def sdo_server_new_def)

lemma wf_srv_none [simp]: "wf_srv B (srv\<lparr>srv_transfer := None\<rparr>)"
  by (simp add: wf_srv_def)

lemma wf_srv_last_write [simp]: "wf_srv B (srv\<lparr>srv_last_write := w\<rparr>) = wf_srv B srv"
  by (simp add: wf_srv_def)

lemma length_srv_abort: "srv_abort a c = Some p \<Longrightarrow> length p = 8"
  by (auto simp: srv_abort_def)

locale sdo_env = object_map M N + byte_vec B MAX_STRING_LEN
  for M :: "'m od_ops" and N :: nat and B :: "('b, u8) vec_ops"

interpretation list_env: sdo_env "assoc_ops N" N "list_ops MAX_STRING_LEN" for N
  by unfold_locales

section \<open>No handler panics, every handler keeps the invariant\<close>

text \<open>What every handler guarantees from a well-formed dictionary and server.\<close>

definition srv_post ::
  "'m od_ops \<Rightarrow> ('b, u8) vec_ops \<Rightarrow> 'm \<Rightarrow> 'b sdo_server \<Rightarrow>
   ('m \<times> 'b sdo_server \<times> sdo_payload option) run \<Rightarrow> bool" where
  "srv_post M B od srv r \<longleftrightarrow>
     (\<exists>od' srv' out. r = Done (od', srv', out) \<and> wf_od M od' \<and> wf_srv B srv' \<and>
        od_schema M od' = od_schema M od \<and> srv_node srv' = srv_node srv \<and>
        (\<exists>p. out = Some p \<and> length p = 8))"

lemma srv_postI:
  "wf_od M od' \<Longrightarrow> wf_srv B srv' \<Longrightarrow> od_schema M od' = od_schema M od \<Longrightarrow>
   srv_node srv' = srv_node srv \<Longrightarrow> length p = 8 \<Longrightarrow>
   srv_post M B od srv (Done (od', srv', Some p))"
  by (auto simp: srv_post_def)

lemma srv_post_abort [simp]:
  "wf_od M od \<Longrightarrow> wf_srv B srv' \<Longrightarrow> srv_node srv' = srv_node srv \<Longrightarrow>
   srv_post M B od srv (Done (od, srv', srv_abort a c))"
  by (simp add: srv_abort_def srv_postI)

text \<open>The server after it sent one more segment of an upload, and the segment it sends.\<close>

definition after_upload_segment ::
  "'b sdo_server \<Rightarrow> address \<Rightarrow> u8 list \<Rightarrow> nat \<Rightarrow> nat \<Rightarrow> bool \<Rightarrow> 'b sdo_server" where
  "after_upload_segment srv a data len pos toggle =
     (if len - pos \<le> 7 then srv\<lparr>srv_transfer := None\<rparr>
      else srv\<lparr>srv_transfer := Some (Upload a data len (pos + 7) (\<not> toggle))\<rparr>)"

lemma on_upload_segment_eq:
  assumes tr: "srv_transfer srv = Some (Upload a data len pos toggle)"
    and inv: "length data = 32" "len \<le> 32" "pos < len \<or> pos = 0"
  shows "\<exists>p. (\<forall>req. on_upload_segment srv req =
      (if (req ! 0 AND TOGGLE \<noteq> 0) \<noteq> toggle
       then Done (srv\<lparr>srv_transfer := None\<rparr>, srv_abort a ToggleBitNotAlternated)
       else Done (after_upload_segment srv a data len pos toggle, Some p))) \<and>
    length p = 8 \<and>
    decode_data_segment p = Inr \<lparr>seg_toggle = toggle, seg_last = (len - pos \<le> 7),
      seg_data = take (min (len - pos) 7) (drop pos data)\<rparr>"
proof -
  let ?d = "take (min (len - pos) 7) (drop pos data)"
  obtain p where p: "encode_data_segment ?d toggle (len - pos \<le> 7) = Inr p"
    by (simp add: encode_data_segment_eq)
  have "length p = 8" using p by (rule length_encode_data_segment)
  moreover have "decode_data_segment p =
      Inr \<lparr>seg_toggle = toggle, seg_last = (len - pos \<le> 7), seg_data = ?d\<rparr>"
    by (rule decode_encode_data_segment [OF _ p]) simp
  moreover have "usub len pos = Done (len - pos)"
    "subslice data pos (pos + min (len - pos) 7) = Done ?d"
    using inv by (auto simp: usub_def subslice_def)
  then have "on_upload_segment srv req =
      (if (req ! 0 AND TOGGLE \<noteq> 0) \<noteq> toggle
       then Done (srv\<lparr>srv_transfer := None\<rparr>, srv_abort a ToggleBitNotAlternated)
       else Done (after_upload_segment srv a data len pos toggle, Some p))" for req
    by (simp add: on_upload_segment_def Let_def tr p after_upload_segment_def)
  ultimately show ?thesis by blast
qed

text \<open>The dispatch on the command specifier.\<close>

lemma srv_handle_dispatch:
  "req ! 0 AND CS_MASK = 0x20 \<Longrightarrow> srv_handle M B od srv req = on_download_initiate M B od srv req"
  "req ! 0 AND CS_MASK = 0x40 \<Longrightarrow> srv_handle M B od srv req = on_upload_initiate M od srv req"
  "req ! 0 AND CS_MASK = 0 \<Longrightarrow> srv_handle M B od srv req = Done (on_download_segment M B od srv req)"
  "req ! 0 AND CS_MASK = 0x60 \<Longrightarrow> srv_handle M B od srv req =
     run_bind (on_upload_segment srv req) (\<lambda>(srv', out). Done (od, srv', out))"
  by (simp_all add: srv_handle_def)

lemma u8_low2: "unat (drop_bit 2 (x :: u8) AND 3) \<le> 3"
proof -
  have "drop_bit 2 x AND 3 \<le> (3 :: u8)" by (rule word_and_le1)
  then show ?thesis by (simp add: word_le_nat_alt)
qed

context sdo_env
begin

lemma write_value_post:
  assumes "wf_od M od" and "wf_srv B srv" and "wf_value v"
  shows "srv_post M B od srv
    (case write_value M od a v (srv_last_write srv) of
       (od', lw, out) \<Rightarrow> Done (od', srv\<lparr>srv_last_write := lw\<rparr>, out))"
proof (cases "od_write M od a v")
  case (Inl e)
  with assms show ?thesis by (simp add: write_value_def)
next
  case (Inr od')
  with assms show ?thesis
    by (auto simp: write_value_def intro!: srv_postI dest: od_write_wf od_write_schema)
qed

lemma on_download_initiate_post:
  assumes "wf_od M od" and "wf_srv B srv" and "length req = 8"
  shows "srv_post M B od srv (on_download_initiate M B od srv req)"
proof (cases "od_entry M od (req_address req)")
  case None
  with assms show ?thesis by (simp add: on_download_initiate_def)
next
  case (Some e)
  show ?thesis
  proof (cases "req ! 0 AND EXPEDITED \<noteq> 0")
    case True
    let ?len = "if req ! 0 AND SIZE_INDICATED \<noteq> 0 then 4 - unat (drop_bit 2 (req ! 0) AND 0x03)
      else (case fixed_size (data_type_of (e_value e)) of Some n \<Rightarrow> n | None \<Rightarrow> 0)"
    have "subslice req 4 (4 + ?len) = Done (take ?len (drop 4 req))" if "?len \<le> 4"
      using that assms(3) by (simp add: subslice_def del: if_split)
    then show ?thesis
      using Some True assms
      by (auto simp: on_download_initiate_def Let_def not_less split: sum.split
          intro!: write_value_post simp del: if_split dest: decode_le_sound
          split: if_split)
  next
    case False
    then show ?thesis using Some assms
      by (auto simp: on_download_initiate_def Let_def wf_srv_def slice_new
          dest: fixed_size_cases intro!: srv_postI split: sum.split option.split)
  qed
qed

lemma on_upload_initiate_post:
  assumes "wf_od M od" and "wf_srv B srv"
  shows "srv_post M B od srv (on_upload_initiate M od srv req)"
proof (cases "od_read M od (req_address req)")
  case (Inl e)
  with assms show ?thesis by (simp add: on_upload_initiate_def Let_def)
next
  case (Inr v)
  have wf: "wf_value v" using Inr assms(1) by (rule od_read_wf)
  show ?thesis
  proof (cases "1 \<le> value_size v \<and> value_size v \<le> 4")
    case True
    then show ?thesis using Inr assms wf
      by (auto simp: on_upload_initiate_def Let_def encode_expedited_eq length_encode_payload
          intro!: srv_postI length_expedited_frame)
  next
    case False
    have "value_size v \<le> MAX_STRING_LEN" using wf by (rule value_size_le)
    then show ?thesis using Inr assms wf False
      by (auto simp: on_upload_initiate_def Let_def subslice_Done encode_le_fits
          length_encode_payload wf_srv_def intro!: srv_postI)
  qed
qed

lemma on_upload_segment_post:
  assumes "wf_od M od" and "wf_srv B srv"
  shows "srv_post M B od srv (run_bind (on_upload_segment srv req) (\<lambda>(srv', out). Done (od, srv', out)))"
proof (cases "\<exists>a data len pos toggle. srv_transfer srv = Some (Upload a data len pos toggle)")
  case False
  then show ?thesis using assms
    by (auto simp: on_upload_segment_def Let_def split: option.split transfer.split)
next
  case True
  then obtain a data len pos toggle where tr: "srv_transfer srv = Some (Upload a data len pos toggle)"
    by blast
  with assms(2) have inv: "length data = 32" "len \<le> 32" "pos < len \<or> pos = 0"
    by (auto simp: wf_srv_def)
  obtain p where eq: "on_upload_segment srv req =
      (if (req ! 0 AND TOGGLE \<noteq> 0) \<noteq> toggle
       then Done (srv\<lparr>srv_transfer := None\<rparr>, srv_abort a ToggleBitNotAlternated)
       else Done (after_upload_segment srv a data len pos toggle, Some p))" and "length p = 8"
    using on_upload_segment_eq [OF tr inv] by blast
  have "wf_srv B (after_upload_segment srv a data len pos toggle)"
    using inv by (auto simp: after_upload_segment_def wf_srv_def)
  then have "srv_post M B od srv (Done (od, after_upload_segment srv a data len pos toggle, Some p))"
    using assms \<open>length p = 8\<close> by (auto simp: after_upload_segment_def intro!: srv_postI)
  with assms show ?thesis by (simp add: eq)
qed

lemma on_download_segment_post:
  assumes "wf_od M od" and "wf_srv B srv"
  shows "srv_post M B od srv (Done (on_download_segment M B od srv req))"
proof (cases "decode_data_segment req")
  case (Inl e)
  with assms show ?thesis by (simp add: on_download_segment_def)
next
  case (Inr seg)
  show ?thesis
  proof (cases "\<exists>a dt buf n t. srv_transfer srv = Some (Download a dt buf n t)")
    case False
    then show ?thesis using Inr assms
      by (auto simp: on_download_segment_def Let_def split: option.split transfer.split)
  next
    case True
    then obtain a dt buf n t where tr: "srv_transfer srv = Some (Download a dt buf n t)"
      by blast
    with assms(2) have n: "n \<le> 32" by (simp add: wf_srv_def)
    show ?thesis
    proof (cases "v_extend B buf (seg_data seg)")
      case None
      then show ?thesis using Inr assms tr by (simp add: on_download_segment_def Let_def)
    next
      case buf': (Some buf')
      have more: "srv_post M B od srv (Done (od,
          srv\<lparr>srv_transfer := Some (Download a dt buf' n (\<not> t))\<rparr>,
          Some (encode_download_segment_response t)))"
        using assms n extend_bound [OF buf'] by (auto simp: wf_srv_def intro: srv_postI)
      show ?thesis
      proof (cases "decode_le dt (v_slice B buf')")
        case (Inl e)
        then show ?thesis using Inr assms tr more buf'
          by (simp add: on_download_segment_def Let_def)
      next
        case v: (Inr v)
        then have wf: "wf_value v" by (simp add: decode_le_sound)
        show ?thesis
        proof (cases "od_write M od a v")
          case (Inl e)
          then show ?thesis using Inr assms tr more buf' v
            by (simp add: on_download_segment_def Let_def)
        next
          case od': (Inr od')
          have "wf_od M od'" "od_schema M od' = od_schema M od"
            using od_write_wf [OF od' wf assms(1)] od_write_schema [OF od'] by auto
          then show ?thesis using Inr assms tr more buf' v od'
            by (auto simp: on_download_segment_def Let_def intro!: srv_postI)
        qed
      qed
    qed
  qed
qed

text \<open>
  Every request of eight bytes is served without a panic. It is answered by exactly one frame,
  unless it is an abort, which ends the transfer in progress and has no answer.
\<close>

lemma srv_handle_post:
  assumes "wf_od M od" and "wf_srv B srv" and "length req = 8"
    and "req ! 0 AND CS_MASK \<noteq> CS_ABORT"
  shows "srv_post M B od srv (srv_handle M B od srv req)"
  using assms on_download_initiate_post [OF assms(1-3)] on_upload_initiate_post [OF assms(1,2)]
    on_upload_segment_post [OF assms(1,2)] on_download_segment_post [OF assms(1,2)]
  unfolding srv_handle_def Let_def by simp

lemma srv_handle_abort:
  "req ! 0 AND CS_MASK = CS_ABORT \<Longrightarrow>
   srv_handle M B od srv req = Done (od, srv\<lparr>srv_transfer := None\<rparr>, None)"
  by (simp add: srv_handle_def)

lemma srv_handle_safe:
  assumes "wf_od M od" and "wf_srv B srv" and "length req = 8"
  shows "\<exists>od' srv' out. srv_handle M B od srv req = Done (od', srv', out) \<and>
    wf_od M od' \<and> wf_srv B srv' \<and> od_schema M od' = od_schema M od \<and>
    srv_node srv' = srv_node srv \<and> (out = None \<longleftrightarrow> req ! 0 AND CS_MASK = CS_ABORT) \<and>
    (\<forall>p. out = Some p \<longrightarrow> length p = 8)"
proof (cases "req ! 0 AND CS_MASK = CS_ABORT")
  case True
  then show ?thesis using assms by (simp add: srv_handle_abort)
next
  case False
  then show ?thesis using srv_handle_post [OF assms False] by (auto simp: srv_post_def)
qed

end

end
