(* ===== verification/Sdo_Client.thy ===== *)
theory Sdo_Client
  imports Sdo
begin

text \<open>
  \<^verbatim>\<open>core/src/sdo/client.rs\<close>: the SDO client as a state machine over response frames. Starting a
  transaction gives the first request; every response gives the next event.
\<close>

section \<open>State and events\<close>

abbreviation (input) ABORT_TOGGLE :: u32 where "ABORT_TOGGLE \<equiv> 0x05030000"
abbreviation (input) ABORT_GENERAL :: u32 where "ABORT_GENERAL \<equiv> 0x08000000"

datatype sdo_event = Send sdo_payload | Complete "od_value option" | Aborted u32

datatype 'b client_state =
    Idle
  | DownloadExpedited
  | DownloadInit "u8 list" nat
  | DownloadSeg "u8 list" nat nat bool
  | UploadInit data_type
  | UploadSeg data_type 'b bool

record 'b sdo_client =
  cl_node :: node_id
  cl_state :: "'b client_state"

definition sdo_client_new :: "node_id \<Rightarrow> 'b sdo_client" where
  "sdo_client_new n = \<lparr>cl_node = n, cl_state = Idle\<rparr>"

definition cl_request_cob_id :: "'b sdo_client \<Rightarrow> u16" where
  "cl_request_cob_id c = request_cob_id (cl_node c)"

definition cl_response_cob_id :: "'b sdo_client \<Rightarrow> u16" where
  "cl_response_cob_id c = response_cob_id (cl_node c)"

definition cl_is_busy :: "'b sdo_client \<Rightarrow> bool" where
  "cl_is_busy c \<longleftrightarrow> \<not> (case cl_state c of Idle \<Rightarrow> True | _ \<Rightarrow> False)"

section \<open>Starting a transaction\<close>

definition client_read :: "'b sdo_client \<Rightarrow> address \<Rightarrow> data_type \<Rightarrow> 'b sdo_client \<times> sdo_payload" where
  "client_read c a dt = (c\<lparr>cl_state := UploadInit dt\<rparr>, encode_upload_request a)"

definition client_write ::
  "'b sdo_client \<Rightarrow> address \<Rightarrow> od_value \<Rightarrow> ('b sdo_client \<times> sdo_payload) run" where
  "client_write c a v =
     (let sz = value_size v in
      if 1 \<le> sz \<and> sz \<le> 4 then
        run_bind (expect (encode_download_expedited a v)) (\<lambda>p.
        Done (c\<lparr>cl_state := DownloadExpedited\<rparr>, p))
      else
        run_bind (subslice (zeros MAX_STRING_LEN) 0 sz) (\<lambda>buf.
        run_bind (expect (encode_le v buf)) (\<lambda>(_, bytes).
        Done (c\<lparr>cl_state := DownloadInit (copy_at 0 bytes (zeros MAX_STRING_LEN)) sz\<rparr>,
              encode_download_initiate_segmented a (of_nat sz)))))"

section \<open>Responses\<close>

text \<open>
  The handlers run on the client whose state has already been replaced by \<open>Idle\<close>, as the
  \<open>mem::replace\<close> of \<open>on_response\<close> does.
\<close>

definition on_download_expedited :: "'b sdo_client \<Rightarrow> sdo_payload \<Rightarrow> 'b sdo_client \<times> sdo_event" where
  "on_download_expedited c resp =
     (case decode_download_response resp of
        Inr _ \<Rightarrow> (c, Complete None)
      | Inl _ \<Rightarrow> (c, Aborted ABORT_GENERAL))"

definition send_download_segment ::
  "'b sdo_client \<Rightarrow> u8 list \<Rightarrow> nat \<Rightarrow> nat \<Rightarrow> bool \<Rightarrow> ('b sdo_client \<times> sdo_event) run" where
  "send_download_segment c data len pos toggle =
     run_bind (usub len pos) (\<lambda>remaining.
     let n = min remaining SEGMENT_DATA_MAX; is_last = (remaining \<le> SEGMENT_DATA_MAX) in
     run_bind (subslice data pos (pos + n)) (\<lambda>d.
     run_bind (expect (encode_data_segment d toggle is_last)) (\<lambda>frame.
     Done (c\<lparr>cl_state := DownloadSeg data len (pos + n) toggle\<rparr>, Send frame))))"

definition on_download_init ::
  "'b sdo_client \<Rightarrow> sdo_payload \<Rightarrow> u8 list \<Rightarrow> nat \<Rightarrow> ('b sdo_client \<times> sdo_event) run" where
  "on_download_init c resp data len =
     (case decode_download_response resp of
        Inl _ \<Rightarrow> Done (c, Aborted ABORT_GENERAL)
      | Inr _ \<Rightarrow> send_download_segment c data len 0 False)"

definition on_download_seg ::
  "'b sdo_client \<Rightarrow> sdo_payload \<Rightarrow> u8 list \<Rightarrow> nat \<Rightarrow> nat \<Rightarrow> bool \<Rightarrow> ('b sdo_client \<times> sdo_event) run" where
  "on_download_seg c resp data len pos last_toggle =
     (case decode_download_segment_response resp of
        Inr t \<Rightarrow>
          if t = last_toggle then
            if pos \<ge> len then Done (c, Complete None)
            else send_download_segment c data len pos (\<not> last_toggle)
          else Done (c, Aborted ABORT_TOGGLE)
      | Inl _ \<Rightarrow> Done (c, Aborted ABORT_GENERAL))"

definition on_upload_init ::
  "('b, u8) vec_ops \<Rightarrow> 'b sdo_client \<Rightarrow> sdo_payload \<Rightarrow> data_type \<Rightarrow> 'b sdo_client \<times> sdo_event" where
  "on_upload_init B c resp dt =
     (case decode_upload_expedited_response resp dt of
        Inr (_, v) \<Rightarrow> (c, Complete (Some v))
      | Inl _ \<Rightarrow>
          (case decode_upload_initiate_segmented_response resp of
             Inr _ \<Rightarrow> (c\<lparr>cl_state := UploadSeg dt (v_new B) False\<rparr>,
                      Send (encode_upload_segment_request False))
           | Inl _ \<Rightarrow> (c, Aborted ABORT_GENERAL)))"

definition on_upload_seg ::
  "('b, u8) vec_ops \<Rightarrow> 'b sdo_client \<Rightarrow> sdo_payload \<Rightarrow> data_type \<Rightarrow> 'b \<Rightarrow> bool \<Rightarrow>
   'b sdo_client \<times> sdo_event" where
  "on_upload_seg B c resp dt buf toggle =
     (case decode_data_segment resp of
        Inl _ \<Rightarrow> (c, Aborted ABORT_GENERAL)
      | Inr seg \<Rightarrow>
          if seg_toggle seg \<noteq> toggle then (c, Aborted ABORT_TOGGLE)
          else
            (case v_extend B buf (seg_data seg) of
               None \<Rightarrow> (c, Aborted ABORT_GENERAL)
             | Some buf' \<Rightarrow>
                 if seg_last seg then
                   (case decode_le dt (v_slice B buf') of
                      Inr v \<Rightarrow> (c, Complete (Some v))
                    | Inl _ \<Rightarrow> (c, Aborted ABORT_GENERAL))
                 else
                   (let nxt = (\<not> toggle) in
                    (c\<lparr>cl_state := UploadSeg dt buf' nxt\<rparr>,
                     Send (encode_upload_segment_request nxt)))))"

definition on_response ::
  "('b, u8) vec_ops \<Rightarrow> 'b sdo_client \<Rightarrow> sdo_payload \<Rightarrow> ('b sdo_client \<times> sdo_event) run" where
  "on_response B c resp =
     (case decode_abort resp of
        Inr (_, code) \<Rightarrow> Done (c\<lparr>cl_state := Idle\<rparr>, Aborted code)
      | Inl _ \<Rightarrow>
          let idle = c\<lparr>cl_state := Idle\<rparr> in
          (case cl_state c of
             Idle \<Rightarrow> Done (idle, Aborted ABORT_GENERAL)
           | DownloadExpedited \<Rightarrow> Done (on_download_expedited idle resp)
           | DownloadInit data len \<Rightarrow> on_download_init idle resp data len
           | DownloadSeg data len pos last_toggle \<Rightarrow>
               on_download_seg idle resp data len pos last_toggle
           | UploadInit dt \<Rightarrow> Done (on_upload_init B idle resp dt)
           | UploadSeg dt buf toggle \<Rightarrow> Done (on_upload_seg B idle resp dt buf toggle)))"

section \<open>Invariant\<close>

fun wf_client_state :: "'b client_state \<Rightarrow> bool" where
  "wf_client_state (DownloadInit data len) \<longleftrightarrow> length data = MAX_STRING_LEN \<and> len \<le> MAX_STRING_LEN"
| "wf_client_state (DownloadSeg data len pos t) \<longleftrightarrow>
     length data = MAX_STRING_LEN \<and> len \<le> MAX_STRING_LEN \<and> pos \<le> len"
| "wf_client_state _ \<longleftrightarrow> True"

definition wf_client :: "'b sdo_client \<Rightarrow> bool" where
  "wf_client c \<longleftrightarrow> wf_client_state (cl_state c)"

text \<open>What a client that reported an event is left with: it is idle unless it sends a frame.\<close>

definition client_post :: "'b sdo_client \<Rightarrow> ('b sdo_client \<times> sdo_event) run \<Rightarrow> bool" where
  "client_post c r \<longleftrightarrow>
     (\<exists>c' ev. r = Done (c', ev) \<and> wf_client c' \<and> cl_node c' = cl_node c \<and>
        (case ev of Send p \<Rightarrow> cl_is_busy c' \<and> length p = 8 | _ \<Rightarrow> \<not> cl_is_busy c'))"

lemma client_new_idle [simp]: "wf_client (sdo_client_new n)" "\<not> cl_is_busy (sdo_client_new n)"
  by (simp_all add: wf_client_def sdo_client_new_def cl_is_busy_def)

lemma client_post_end [simp]:
  "cl_state c' = Idle \<Longrightarrow> cl_node c' = cl_node c \<Longrightarrow> client_post c (Done (c', Aborted code))"
  "cl_state c' = Idle \<Longrightarrow> cl_node c' = cl_node c \<Longrightarrow> client_post c (Done (c', Complete v))"
  by (simp_all add: client_post_def wf_client_def cl_is_busy_def)

lemma client_post_send:
  "wf_client_state st \<Longrightarrow> st \<noteq> Idle \<Longrightarrow> length p = 8 \<Longrightarrow> cl_node idle = cl_node c \<Longrightarrow>
   client_post c (Done (idle\<lparr>cl_state := st\<rparr>, Send p))"
  by (auto simp: client_post_def wf_client_def cl_is_busy_def split: client_state.split)

text \<open>The segment that \<open>send_download_segment\<close> emits, from any position inside the data.\<close>

lemma send_download_segment_eq:
  assumes "length data = MAX_STRING_LEN" and "len \<le> MAX_STRING_LEN" and "pos \<le> len"
  shows "\<exists>p. send_download_segment c data len pos toggle =
      Done (c\<lparr>cl_state := DownloadSeg data len (pos + min (len - pos) 7) toggle\<rparr>, Send p) \<and>
    length p = 8 \<and>
    decode_data_segment p = Inr \<lparr>seg_toggle = toggle, seg_last = (len - pos \<le> 7),
      seg_data = take (min (len - pos) 7) (drop pos data)\<rparr>"
proof -
  let ?d = "take (min (len - pos) 7) (drop pos data)"
  obtain p where p: "encode_data_segment ?d toggle (len - pos \<le> 7) = Inr p"
    by (simp add: encode_data_segment_eq)
  have "length p = 8" using p by (rule length_encode_data_segment)
  moreover have "decode_data_segment p =
      Inr \<lparr>seg_toggle = toggle, seg_last = (len - pos \<le> 7), seg_data = ?d\<rparr>"
    by (rule decode_encode_data_segment [OF _ p]) simp
  moreover have "usub len pos = Done (len - pos)"
    "subslice data pos (pos + min (len - pos) 7) = Done ?d"
    using assms by (auto simp: usub_def subslice_def)
  ultimately show ?thesis by (simp add: send_download_segment_def Let_def p)
qed

lemma send_download_segment_post:
  assumes "length data = MAX_STRING_LEN" and "len \<le> MAX_STRING_LEN" and "pos \<le> len"
    and "cl_node idle = cl_node c"
  shows "client_post c (send_download_segment idle data len pos toggle)"
proof -
  obtain p where eq: "send_download_segment idle data len pos toggle =
      Done (idle\<lparr>cl_state := DownloadSeg data len (pos + min (len - pos) 7) toggle\<rparr>, Send p)"
    and "length p = 8"
    using send_download_segment_eq [OF assms(1-3)] by blast
  then show ?thesis using assms by (auto intro!: client_post_send)
qed

lemma on_response_post:
  assumes "wf_client c"
  shows "client_post c (on_response B c resp)"
proof (cases "decode_abort resp")
  case (Inr x)
  then show ?thesis by (cases x) (simp add: on_response_def)
next
  case (Inl e)
  note defs = on_response_def on_download_expedited_def on_download_init_def on_download_seg_def
    on_upload_init_def on_upload_seg_def
  show ?thesis
  proof (cases "cl_state c")
    case (UploadInit dt)
    then show ?thesis using Inl
      by (auto simp: defs Let_def split: sum.split intro!: client_post_send)
  next
    case (UploadSeg dt buf toggle)
    then show ?thesis using Inl
      by (auto simp: defs Let_def split: sum.split option.split intro!: client_post_send)
  qed (use Inl assms in \<open>auto simp: defs Let_def wf_client_def split: sum.split
      intro!: send_download_segment_post\<close>)
qed

lemma client_write_post:
  assumes "wf_value v"
  shows "\<exists>c' p. client_write c a v = Done (c', p) \<and> wf_client c' \<and> cl_is_busy c' \<and>
    cl_node c' = cl_node c \<and> length p = 8"
proof (cases "1 \<le> value_size v \<and> value_size v \<le> 4")
  case True
  then show ?thesis using assms
    by (auto simp: client_write_def Let_def encode_expedited_eq length_encode_payload
        length_expedited_frame wf_client_def cl_is_busy_def)
next
  case False
  then show ?thesis using assms value_size_le [OF assms]
    by (auto simp: client_write_def Let_def subslice_Done encode_le_fits length_encode_payload
        wf_client_def cl_is_busy_def)
qed

end
