(* ===== verification/Sdo_Session.thy ===== *)
theory Sdo_Session
  imports Sdo_Server Sdo_Client
begin

text \<open>
  A client and a server connected back to back, as in the example of \<^verbatim>\<open>core/src/lib.rs\<close>: the
  frame the client wants to send is handed to the server, the server's response to the client,
  until the client completes or aborts. The loop takes fuel, and \<open>None\<close> means that it ran out;
  the theorems show that six exchanges are always enough.
\<close>

section \<open>The loop\<close>

fun sdo_loop ::
  "nat \<Rightarrow> 'm od_ops \<Rightarrow> ('b, u8) vec_ops \<Rightarrow> 'm \<Rightarrow> 'b sdo_server \<Rightarrow> 'b sdo_client \<Rightarrow> sdo_payload \<Rightarrow>
   ('m \<times> 'b sdo_server \<times> 'b sdo_client \<times> sdo_event) run option" where
  "sdo_loop 0 M B od srv cl frame = None"
| "sdo_loop (Suc fuel) M B od srv cl frame =
     (case srv_handle M B od srv frame of
        Done (od', srv', Some response) \<Rightarrow>
          (case on_response B cl response of
             Done (cl', Send nxt) \<Rightarrow> sdo_loop fuel M B od' srv' cl' nxt
           | Done (cl', ev) \<Rightarrow> Some (Done (od', srv', cl', ev))
           | Panic \<Rightarrow> Some Panic)
      | _ \<Rightarrow> Some Panic)"

text \<open>The event a transferred byte string gives, and the two ends of a transaction.\<close>

definition read_event :: "data_type \<Rightarrow> u8 list \<Rightarrow> sdo_event" where
  "read_event dt bytes =
     (case decode_le dt bytes of Inr w \<Rightarrow> Complete (Some w) | Inl _ \<Rightarrow> Aborted ABORT_GENERAL)"

definition sdo_read_session ::
  "nat \<Rightarrow> 'm od_ops \<Rightarrow> ('b, u8) vec_ops \<Rightarrow> 'm \<Rightarrow> 'b sdo_server \<Rightarrow> 'b sdo_client \<Rightarrow> address \<Rightarrow>
   data_type \<Rightarrow> ('m \<times> 'b sdo_server \<times> 'b sdo_client \<times> sdo_event) run option" where
  "sdo_read_session fuel M B od srv cl a dt =
     (case client_read cl a dt of (cl', frame) \<Rightarrow> sdo_loop fuel M B od srv cl' frame)"

definition sdo_write_session ::
  "nat \<Rightarrow> 'm od_ops \<Rightarrow> ('b, u8) vec_ops \<Rightarrow> 'm \<Rightarrow> 'b sdo_server \<Rightarrow> 'b sdo_client \<Rightarrow> address \<Rightarrow>
   od_value \<Rightarrow> ('m \<times> 'b sdo_server \<times> 'b sdo_client \<times> sdo_event) run option" where
  "sdo_write_session fuel M B od srv cl a v =
     (case client_write cl a v of
        Done (cl', frame) \<Rightarrow> sdo_loop fuel M B od srv cl' frame
      | Panic \<Rightarrow> Some Panic)"

section \<open>Frames as the other side sees them\<close>

lemma decode_segment_not_abort:
  "decode_data_segment p = Inr s \<Longrightarrow> decode_abort p = Inl UnexpectedCommand"
  by (auto simp: decode_data_segment_def decode_abort_def split: if_splits)

lemma request_kinds [simp]:
  "encode_upload_request a ! 0 = 0x40"
  "encode_upload_segment_request t ! 0 = (if t then 0x70 else 0x60)"
  "encode_download_initiate_segmented a n ! 0 = 0x21"
  by (simp_all add: frame_simps encode_upload_segment_request_def)

lemma upload_segment_request_bits:
  "encode_upload_segment_request t ! 0 AND CS_MASK = 0x60"
  "(encode_upload_segment_request t ! 0 AND TOGGLE \<noteq> 0) = t"
  by simp_all

lemma request_addresses [simp]:
  "req_address (encode_upload_request a) = a"
  "req_address (encode_download_initiate_segmented a n) = a"
  "req_address (expedited_frame cs a d) = a"
  using address_of_expedited_frame [of cs a d]
  by (simp_all add: req_address_def address_of_def frame_simps)

lemma response_not_abort [simp]:
  "decode_abort (encode_download_response a) = Inl UnexpectedCommand"
  "decode_abort (encode_download_segment_response t) = Inl UnexpectedCommand"
  "decode_abort (encode_upload_initiate_segmented_response a n) = Inl UnexpectedCommand"
  by (simp_all add: decode_abort_def frame_simps encode_download_segment_response_def)

lemma expedited_not_abort:
  assumes "1 \<le> length d" and "length d \<le> 4"
  shows "decode_abort (expedited_frame 0x40 a d) = Inl UnexpectedCommand"
  using expedited_command_fields [of "4 - length d" "0x40"] assms
  by (simp add: decode_abort_def expedited_frame_nth_0)

lemma segmented_response_not_expedited [simp]:
  "decode_upload_expedited_response (encode_upload_initiate_segmented_response a n) dt =
     Inl UnexpectedCommand"
  by (simp add: decode_upload_expedited_response_def frame_simps)

lemma expedited_not_segmented_response:
  assumes "1 \<le> length d" and "length d \<le> 4"
  shows "decode_upload_initiate_segmented_response (expedited_frame 0x40 a d) = Inl UnexpectedCommand"
  using expedited_command_fields [of "4 - length d" "0x40"] assms
  by (simp add: decode_upload_initiate_segmented_response_def expedited_frame_nth_0)

lemma decode_expedited_frame:
  assumes "1 \<le> length d" and "length d \<le> 4"
  shows "decode_upload_expedited_response (expedited_frame 0x40 a d) dt =
    (case fixed_size dt of
       Some n \<Rightarrow> if length d \<noteq> n then Inl TypeMismatch else map_sum id (Pair a) (decode_le dt d)
     | None \<Rightarrow> map_sum id (Pair a) (decode_le dt d))"
proof -
  have "4 - length d \<le> 3" using assms by simp
  note fields = expedited_command_fields [OF this, of "0x40"]
  have "take (length d) (drop 4 (expedited_frame 0x40 a d)) = d" by (rule expedited_frame_data)
  with assms fields show ?thesis
    by (auto simp: decode_upload_expedited_response_def Let_def expedited_frame_nth_0
        split: option.split sum.split)
qed

lemma decode_le_wrong_length: "fixed_size dt = Some n \<Longrightarrow> length d \<noteq> n \<Longrightarrow> decode_le dt d = Inl BadLength"
  by (simp add: decode_le_def)

lemma on_upload_init_expedited:
  assumes "1 \<le> length d" and "length d \<le> 4"
  shows "on_upload_init B c (expedited_frame 0x40 a d) dt = (c, read_event dt d)"
  using expedited_not_segmented_response [OF assms]
  by (auto simp: on_upload_init_def decode_expedited_frame [OF assms] read_event_def
      decode_le_wrong_length split: option.split sum.split)

section \<open>Reading\<close>

context sdo_env
begin

lemma upload_segments_loop:
  assumes "srv_transfer srv = Some (Upload a data len pos t)"
    and "length data = 32" and "len \<le> 32" and "pos < len \<or> pos = 0"
    and "cl_state cl = UploadSeg dt buf t" and "v_slice B buf = take pos data"
    and "(len - pos) div 7 < fuel"
  shows "sdo_loop fuel M B od srv cl (encode_upload_segment_request t) =
    Some (Done (od, srv\<lparr>srv_transfer := None\<rparr>, cl\<lparr>cl_state := Idle\<rparr>, read_event dt (take len data)))"
  using assms
proof (induction fuel arbitrary: srv cl pos t buf)
  case 0
  then show ?case by simp
next
  case (Suc fuel)
  let ?d = "take (min (len - pos) 7) (drop pos data)"
  have pos: "pos \<le> len" using Suc.prems(4) by auto
  obtain p where eq: "\<And>req. on_upload_segment srv req =
      (if (req ! 0 AND TOGGLE \<noteq> 0) \<noteq> t
       then Done (srv\<lparr>srv_transfer := None\<rparr>, srv_abort a ToggleBitNotAlternated)
       else Done (after_upload_segment srv a data len pos t, Some p))"
    and dec: "decode_data_segment p =
      Inr \<lparr>seg_toggle = t, seg_last = (len - pos \<le> 7), seg_data = ?d\<rparr>"
    using on_upload_segment_eq [OF Suc.prems(1-4)] by blast
  have handle: "srv_handle M B od srv (encode_upload_segment_request t) =
      Done (od, after_upload_segment srv a data len pos t, Some p)"
    by (simp only: srv_handle_dispatch(4) [OF upload_segment_request_bits(1)] eq
        upload_segment_request_bits(2)) simp
  have room: "v_len B buf + length ?d \<le> MAX_STRING_LEN"
    using Suc.prems pos by simp
  obtain buf' where buf': "v_extend B buf ?d = Some buf'" and "v_slice B buf' = v_slice B buf @ ?d"
    using extend_room [OF room] by blast
  then have slice: "v_slice B buf' = take (min len (pos + 7)) data"
    using Suc.prems pos by (auto simp: take_add [symmetric] min_def)
  show ?case
  proof (cases "len - pos \<le> 7")
    case True
    then have "on_response B cl p = Done (cl\<lparr>cl_state := Idle\<rparr>, read_event dt (take len data))"
      using dec buf' slice pos Suc.prems(5)
      by (simp add: on_response_def decode_segment_not_abort Let_def on_upload_seg_def read_event_def
          split: sum.split)
    then show ?thesis using True handle
      by (auto simp: read_event_def after_upload_segment_def split: sum.split)
  next
    case False
    let ?srv = "srv\<lparr>srv_transfer := Some (Upload a data len (pos + 7) (\<not> t))\<rparr>"
    let ?cl = "cl\<lparr>cl_state := UploadSeg dt buf' (\<not> t)\<rparr>"
    have "on_response B cl p = Done (?cl, Send (encode_upload_segment_request (\<not> t)))"
      using False dec buf' Suc.prems(5)
      by (simp add: on_response_def decode_segment_not_abort Let_def on_upload_seg_def)
    moreover have "sdo_loop fuel M B od ?srv ?cl (encode_upload_segment_request (\<not> t)) =
        Some (Done (od, ?srv\<lparr>srv_transfer := None\<rparr>, ?cl\<lparr>cl_state := Idle\<rparr>,
          read_event dt (take len data)))"
    proof (rule Suc.IH)
      show "(len - (pos + 7)) div 7 < fuel"
        using Suc.prems(7) False le_div_geq [of 7 "len - pos"] by simp
    qed (use False Suc.prems slice in auto)
    ultimately show ?thesis using False handle by (simp add: after_upload_segment_def)
  qed
qed

text \<open>
  A read session transports the bytes of the stored value: the client decodes exactly the bytes
  that the server's encoding of the value has, whichever transfer is used.
\<close>

lemma sdo_read_session_bytes:
  assumes "wf_od M od" and "od_read M od a = Inr v" and "5 < fuel"
  shows "\<exists>srv' cl'. sdo_read_session fuel M B od srv cl a dt =
      Some (Done (od, srv', cl', read_event dt (encode_payload v))) \<and>
    \<not> cl_is_busy cl' \<and> srv_last_write srv' = srv_last_write srv"
proof -
  have wf: "wf_value v" using assms(1,2) by (metis od_read_wf)
  define f where "f = fuel - 2"
  then have fuel: "fuel = Suc (Suc f)" and f: "4 \<le> f" using assms(3) by simp_all
  have len: "length (encode_payload v) = value_size v" using wf by (rule length_encode_payload)
  show ?thesis
  proof (cases "1 \<le> value_size v \<and> value_size v \<le> 4")
    case True
    then have "on_upload_initiate M od srv (encode_upload_request a) =
        Done (od, srv, Some (expedited_frame 0x40 a (encode_payload v)))"
      using assms(2) wf by (simp add: on_upload_initiate_def encode_expedited_eq)
    then show ?thesis using True
      by (auto simp: sdo_read_session_def client_read_def fuel srv_handle_dispatch(2) on_response_def
          expedited_not_abort len on_upload_init_expedited read_event_def cl_is_busy_def
          split: sum.split)
  next
    case False
    have size: "value_size v \<le> 32" using wf by (rule value_size_le)
    let ?data = "copy_at 0 (encode_payload v) (zeros MAX_STRING_LEN)"
    let ?srv = "srv\<lparr>srv_transfer := Some (Upload a ?data (value_size v) 0 False)\<rparr>"
    let ?cl = "cl\<lparr>cl_state := UploadSeg dt (v_new B) False\<rparr>"
    have init: "on_upload_initiate M od srv (encode_upload_request a) =
        Done (od, ?srv, Some (encode_upload_initiate_segmented_response a (of_nat (value_size v))))"
      using False assms(2) wf size
      by (auto simp: on_upload_initiate_def Let_def subslice_Done encode_le_fits len)
    have "sdo_loop (Suc f) M B od ?srv ?cl (encode_upload_segment_request False) =
        Some (Done (od, ?srv\<lparr>srv_transfer := None\<rparr>, ?cl\<lparr>cl_state := Idle\<rparr>,
          read_event dt (take (value_size v) ?data)))"
    proof (rule upload_segments_loop)
      show "(value_size v - 0) div 7 < Suc f"
        using size f div_le_mono [OF size, of 7] by simp
    qed (use size len slice_new in auto)
    moreover have "take (value_size v) ?data = encode_payload v" by (simp add: copy_at_def len)
    ultimately show ?thesis
      by (simp add: sdo_read_session_def client_read_def fuel sdo_loop.simps(2) [of "Suc f"]
          srv_handle_dispatch(2) init on_response_def on_upload_init_def cl_is_busy_def
          del: sdo_loop.simps(2))
  qed
qed

end

section \<open>Writing\<close>

text \<open>The server's side of one download segment while a download is in progress.\<close>

lemma on_download_segment_more:
  assumes "decode_data_segment req = Inr seg" and "srv_transfer srv = Some (Download a dt buf n t)"
    and "seg_toggle seg = t" and "v_extend B buf (seg_data seg) = Some buf'" and "\<not> seg_last seg"
  shows "on_download_segment M B od srv req =
    (od, srv\<lparr>srv_transfer := Some (Download a dt buf' n (\<not> t))\<rparr>,
     Some (encode_download_segment_response t))"
  using assms by (simp add: on_download_segment_def Let_def)

lemma on_download_segment_done:
  assumes "decode_data_segment req = Inr seg" and "srv_transfer srv = Some (Download a dt buf n t)"
    and "seg_toggle seg = t" and "v_extend B buf (seg_data seg) = Some buf'" and "seg_last seg"
    and "v_len B buf' = n" and "decode_le dt (v_slice B buf') = Inr w" and "od_write M od a w = Inr od'"
  shows "on_download_segment M B od srv req =
    (od', srv\<lparr>srv_transfer := None, srv_last_write := Some a\<rparr>,
     Some (encode_download_segment_response t))"
  using assms by (simp add: on_download_segment_def Let_def)

lemma on_response_download_ack:
  "cl_state c = DownloadSeg data len pos t \<Longrightarrow>
   on_response B c (encode_download_segment_response t) =
     (if pos \<ge> len then Done (c\<lparr>cl_state := Idle\<rparr>, Complete None)
      else send_download_segment (c\<lparr>cl_state := Idle\<rparr>) data len pos (\<not> t))"
  by (simp add: on_response_def on_download_seg_def Let_def)

lemma decode_data_segment_cs: "decode_data_segment p = Inr s \<Longrightarrow> p ! 0 AND CS_MASK = 0"
  by (auto simp: decode_data_segment_def split: if_splits)

lemma srv_handle_segment:
  "decode_data_segment p = Inr s \<Longrightarrow> srv_handle M B od srv p = Done (on_download_segment M B od srv p)"
  by (simp add: srv_handle_dispatch(3) decode_data_segment_cs)

context sdo_env
begin

lemma download_segments_loop:
  assumes "send_download_segment idle data len pos t = Done (cl, Send p)"
    and "length data = 32" and "len \<le> 32" and "pos < len \<or> pos = 0"
    and "srv_transfer srv = Some (Download a dt buf len t)" and "v_slice B buf = take pos data"
    and "decode_le dt (take len data) = Inr w" and "od_write M od a w = Inr od'"
    and "(len - pos) div 7 < fuel"
  shows "sdo_loop fuel M B od srv cl p =
    Some (Done (od', srv\<lparr>srv_transfer := None, srv_last_write := Some a\<rparr>,
      idle\<lparr>cl_state := Idle\<rparr>, Complete None))"
  using assms
proof (induction fuel arbitrary: srv idle cl p pos t buf)
  case 0
  then show ?case by simp
next
  case (Suc fuel)
  let ?d = "take (min (len - pos) 7) (drop pos data)"
  have pos: "pos \<le> len" using Suc.prems(4) by auto
  have cl: "cl = idle\<lparr>cl_state := DownloadSeg data len (pos + min (len - pos) 7) t\<rparr>"
    and dec: "decode_data_segment p =
      Inr \<lparr>seg_toggle = t, seg_last = (len - pos \<le> 7), seg_data = ?d\<rparr>"
    using send_download_segment_eq [OF Suc.prems(2,3) pos, of idle t] Suc.prems(1) by auto
  have room: "v_len B buf + length ?d \<le> MAX_STRING_LEN"
    using Suc.prems pos by simp
  obtain buf' where buf': "v_extend B buf ?d = Some buf'" and "v_slice B buf' = v_slice B buf @ ?d"
    using extend_room [OF room] by blast
  then have slice: "v_slice B buf' = take (min len (pos + 7)) data"
    using Suc.prems pos by (auto simp: take_add [symmetric] min_def)
  define q where "q = pos + min (len - pos) 7"
  have last: "len \<le> q \<longleftrightarrow> len - pos \<le> 7" and q: "len - pos \<le> 7 \<or> q = pos + 7"
    using pos by (auto simp: q_def)
  have resp: "on_response B cl (encode_download_segment_response t) =
      (if q \<ge> len then Done (idle\<lparr>cl_state := Idle\<rparr>, Complete None)
       else send_download_segment (idle\<lparr>cl_state := Idle\<rparr>) data len q (\<not> t))"
    using on_response_download_ack [of cl data len q t B] by (simp add: cl q_def [symmetric])
  show ?case
  proof (cases "len - pos \<le> 7")
    case True
    have "on_download_segment M B od srv p =
        (od', srv\<lparr>srv_transfer := None, srv_last_write := Some a\<rparr>,
         Some (encode_download_segment_response t))"
      by (rule on_download_segment_done [OF dec Suc.prems(5)])
        (use buf' slice True pos Suc.prems in auto)
    then show ?thesis using True resp last by (simp add: srv_handle_segment [OF dec])
  next
    case False
    let ?srv = "srv\<lparr>srv_transfer := Some (Download a dt buf' len (\<not> t))\<rparr>"
    let ?idle = "idle\<lparr>cl_state := Idle\<rparr>"
    have step: "on_download_segment M B od srv p =
        (od, ?srv, Some (encode_download_segment_response t))"
      by (rule on_download_segment_more [OF dec Suc.prems(5)]) (use buf' False in auto)
    obtain p' where send: "send_download_segment ?idle data len (pos + 7) (\<not> t) =
        Done (?idle\<lparr>cl_state := DownloadSeg data len (pos + 7 + min (len - (pos + 7)) 7) (\<not> t)\<rparr>, Send p')"
      using send_download_segment_eq [OF Suc.prems(2,3), of "pos + 7"] False by fastforce
    have "sdo_loop fuel M B od ?srv
        (?idle\<lparr>cl_state := DownloadSeg data len (pos + 7 + min (len - (pos + 7)) 7) (\<not> t)\<rparr>) p' =
        Some (Done (od', ?srv\<lparr>srv_transfer := None, srv_last_write := Some a\<rparr>,
          ?idle\<lparr>cl_state := Idle\<rparr>, Complete None))"
    proof (rule Suc.IH [OF send])
      show "(len - (pos + 7)) div 7 < fuel"
        using Suc.prems(9) False le_div_geq [of 7 "len - pos"] by simp
    qed (use False Suc.prems slice in auto)
    then show ?thesis using False resp last step send q
      by (simp add: srv_handle_segment [OF dec])
  qed
qed

end

lemma expedited_download_bits:
  assumes "1 \<le> length d" and "length d \<le> 4"
  shows "expedited_frame 0x20 a d ! 0 AND CS_MASK = 0x20"
    and "expedited_frame 0x20 a d ! 0 AND EXPEDITED \<noteq> 0"
    and "expedited_frame 0x20 a d ! 0 AND SIZE_INDICATED \<noteq> 0"
    and "4 - unat (drop_bit 2 (expedited_frame 0x20 a d ! 0) AND 0x03) = length d"
    and "subslice (expedited_frame 0x20 a d) 4 (4 + length d) = Done d"
proof -
  have "4 - length d \<le> 3" using assms by simp
  note fields = expedited_command_fields [OF this, of "0x20"]
  have "take (length d) (drop 4 (expedited_frame 0x20 a d)) = d" by (rule expedited_frame_data)
  then show "expedited_frame 0x20 a d ! 0 AND CS_MASK = 0x20"
    and "expedited_frame 0x20 a d ! 0 AND EXPEDITED \<noteq> 0"
    and "expedited_frame 0x20 a d ! 0 AND SIZE_INDICATED \<noteq> 0"
    and "4 - unat (drop_bit 2 (expedited_frame 0x20 a d ! 0) AND 0x03) = length d"
    and "subslice (expedited_frame 0x20 a d) 4 (4 + length d) = Done d"
    using assms fields by (simp_all add: expedited_frame_nth_0 subslice_def length_expedited_frame)
qed

text \<open>The server's answer to an expedited write request, on every branch.\<close>

lemma on_download_initiate_expedited:
  assumes "1 \<le> length d" and "length d \<le> 4"
  shows "on_download_initiate M B od srv (expedited_frame 0x20 a d) =
    (case lm_get M od a of
       None \<Rightarrow> Done (od, srv, srv_abort a ObjectDoesNotExist)
     | Some e \<Rightarrow>
         if \<not> is_writable (e_access e) then Done (od, srv, srv_abort a WriteOfReadOnly)
         else
           case decode_le (data_type_of (e_value e)) d of
             Inl _ \<Rightarrow> Done (od, srv, srv_abort a DataTypeMismatchLengthHigh)
           | Inr w \<Rightarrow> Done (lm_put M od a (e\<lparr>e_value := w\<rparr>), srv\<lparr>srv_last_write := Some a\<rparr>,
               Some (encode_download_response a)))"
proof (cases "lm_get M od a")
  case None
  then show ?thesis by (simp add: on_download_initiate_def od_entry_def)
next
  case (Some e)
  note bits = expedited_download_bits [OF assms, of a]
  show ?thesis
  proof (cases "decode_le (data_type_of (e_value e)) d")
    case (Inl err)
    then obtain n where "fixed_size (data_type_of (e_value e)) = Some n" and "length d \<noteq> n"
      using decode_le_ok_iff [of "data_type_of (e_value e)" d] assms(2)
      by (cases "fixed_size (data_type_of (e_value e))") auto
    then show ?thesis using bits assms(2) Inl Some
      by (simp add: on_download_initiate_def od_entry_def Let_def)
  next
    case (Inr w)
    then have "case fixed_size (data_type_of (e_value e)) of Some n \<Rightarrow> length d = n | None \<Rightarrow> True"
      using decode_le_ok_iff [of "data_type_of (e_value e)" d] by (auto split: option.splits)
    moreover have "data_type_of w = data_type_of (e_value e)" using decode_le_sound [OF Inr] by simp
    ultimately show ?thesis using bits assms(2) Inr Some
      by (cases "fixed_size (data_type_of (e_value e))")
        (simp_all add: on_download_initiate_def od_entry_def Let_def write_value_def od_write_def)
  qed
qed

lemma on_download_initiate_segmented:
  assumes "length d = n" and "n \<le> MAX_STRING_LEN"
  shows "on_download_initiate M B od srv (encode_download_initiate_segmented a (of_nat n)) =
    (case lm_get M od a of
       None \<Rightarrow> Done (od, srv, srv_abort a ObjectDoesNotExist)
     | Some e \<Rightarrow>
         if \<not> is_writable (e_access e) then Done (od, srv, srv_abort a WriteOfReadOnly)
         else
           case decode_le (data_type_of (e_value e)) d of
             Inl _ \<Rightarrow> Done (od, srv, srv_abort a DataTypeMismatchLengthHigh)
           | Inr _ \<Rightarrow> Done (od,
               srv\<lparr>srv_transfer := Some (Download a (data_type_of (e_value e)) (v_new B) n False)\<rparr>,
               Some (encode_download_response a)))"
proof -
  have n: "unat (of_nat n :: u32) = n" using assms(2) by (simp add: unat_of_nat)
  have ok: "(\<exists>w. decode_le dt d = Inr w) \<longleftrightarrow>
      (case fixed_size dt of
         Some fixed \<Rightarrow> unat (of_nat n :: u32) = fixed
       | None \<Rightarrow> unat (of_nat n :: u32) \<le> MAX_STRING_LEN)" for dt
    by (simp only: decode_le_ok_iff assms(1) n)
  show ?thesis
    using n ok [of "data_type_of (e_value (the (lm_get M od a)))"]
    by (cases "lm_get M od a"; cases "decode_le (data_type_of (e_value (the (lm_get M od a)))) d")
      (auto simp: on_download_initiate_def od_entry_def Let_def)
qed

text \<open>What a transaction does, as a function of the bytes that travel.\<close>

definition read_result :: "'m od_ops \<Rightarrow> 'm \<Rightarrow> address \<Rightarrow> data_type \<Rightarrow> sdo_event" where
  "read_result M od a dt =
     (case lm_get M od a of
        None \<Rightarrow> Aborted (abort_code ObjectDoesNotExist)
      | Some e \<Rightarrow>
          if \<not> is_readable (e_access e) then Aborted (abort_code ReadOfWriteOnly)
          else read_event dt (encode_payload (e_value e)))"

definition write_result :: "'m od_ops \<Rightarrow> 'm \<Rightarrow> address \<Rightarrow> u8 list \<Rightarrow> 'm \<times> sdo_event" where
  "write_result M od a bytes =
     (case lm_get M od a of
        None \<Rightarrow> (od, Aborted (abort_code ObjectDoesNotExist))
      | Some e \<Rightarrow>
          if \<not> is_writable (e_access e) then (od, Aborted (abort_code WriteOfReadOnly))
          else
            case decode_le (data_type_of (e_value e)) bytes of
              Inl _ \<Rightarrow> (od, Aborted (abort_code DataTypeMismatchLengthHigh))
            | Inr w \<Rightarrow> (lm_put M od a (e\<lparr>e_value := w\<rparr>), Complete None))"

lemma sdo_loop_abort:
  assumes "srv_handle M B od srv frame = Done (od', srv', srv_abort a code)"
  shows "sdo_loop (Suc fuel) M B od srv cl frame =
    Some (Done (od', srv', cl\<lparr>cl_state := Idle\<rparr>, Aborted (abort_code code)))"
  using assms by (simp add: srv_abort_def on_response_def)

lemma sdo_read_session_refused:
  assumes "od_read M od a = Inl e" and "0 < fuel"
  shows "sdo_read_session fuel M B od srv cl a dt =
    Some (Done (od, srv, cl\<lparr>cl_state := Idle\<rparr>, read_result M od a dt))"
proof -
  obtain code where "on_upload_initiate M od srv (encode_upload_request a) =
      Done (od, srv, srv_abort a code)"
    and result: "read_result M od a dt = Aborted (abort_code code)"
    using assms(1)
    by (auto simp: on_upload_initiate_def od_read_def read_result_def split: option.splits if_splits)
  note this(1)
  moreover have "srv_handle M B od srv (encode_upload_request a) =
      on_upload_initiate M od srv (encode_upload_request a)"
    by (rule srv_handle_dispatch(2)) simp
  ultimately have handle: "srv_handle M B od srv (encode_upload_request a) =
      Done (od, srv, srv_abort a code)" by simp
  obtain f where "fuel = Suc f" using assms(2) by (cases fuel) auto
  then show ?thesis using sdo_loop_abort [OF handle, of f] result
    by (simp add: sdo_read_session_def client_read_def del: sdo_loop.simps(2))
qed

context sdo_env
begin

lemma sdo_write_expedited:
  assumes "wf_value v" and "1 \<le> value_size v" and "value_size v \<le> 4" and "0 < fuel"
  shows "\<exists>srv' cl'. sdo_write_session fuel M B od srv cl a v =
      Some (Done (fst (write_result M od a (encode_payload v)), srv', cl',
        snd (write_result M od a (encode_payload v)))) \<and> \<not> cl_is_busy cl' \<and>
    srv_last_write srv' = (if snd (write_result M od a (encode_payload v)) = Complete None
      then Some a else srv_last_write srv)"
proof -
  have d: "1 \<le> length (encode_payload v)" "length (encode_payload v) \<le> 4"
    using assms by (simp_all add: length_encode_payload)
  obtain f where fuel: "fuel = Suc f" using assms(4) by (cases fuel) auto
  have start: "sdo_write_session fuel M B od srv cl a v =
      sdo_loop (Suc f) M B od srv (cl\<lparr>cl_state := DownloadExpedited\<rparr>)
        (expedited_frame 0x20 a (encode_payload v))"
    using assms by (simp add: sdo_write_session_def client_write_def encode_expedited_eq fuel
        del: sdo_loop.simps(2))
  have handle: "srv_handle M B od srv (expedited_frame 0x20 a (encode_payload v)) =
      on_download_initiate M B od srv (expedited_frame 0x20 a (encode_payload v))"
    using expedited_download_bits(1) [OF d] by (rule srv_handle_dispatch(1))
  show ?thesis
    unfolding start
    by (auto simp: handle on_download_initiate_expedited [OF d] write_result_def srv_abort_def
        on_response_def on_download_expedited_def cl_is_busy_def split: option.split sum.split)
qed

lemma sdo_write_segmented:
  assumes "wf_value v" and "\<not> (1 \<le> value_size v \<and> value_size v \<le> 4)" and "5 < fuel"
  shows "\<exists>srv' cl'. sdo_write_session fuel M B od srv cl a v =
      Some (Done (fst (write_result M od a (encode_payload v)), srv', cl',
        snd (write_result M od a (encode_payload v)))) \<and> \<not> cl_is_busy cl' \<and>
    srv_last_write srv' = (if snd (write_result M od a (encode_payload v)) = Complete None
      then Some a else srv_last_write srv)"
proof -
  let ?n = "value_size v" and ?d = "encode_payload v"
  let ?data = "copy_at 0 ?d (zeros MAX_STRING_LEN)"
  have len: "length ?d = ?n" and n: "?n \<le> MAX_STRING_LEN"
    using assms(1) by (simp_all add: length_encode_payload value_size_le)
  define f where "f = fuel - 2"
  then have fuel: "fuel = Suc (Suc f)" and f: "4 \<le> f" using assms(3) by simp_all
  let ?cl = "cl\<lparr>cl_state := DownloadInit ?data ?n\<rparr>"
  let ?req = "encode_download_initiate_segmented a (of_nat ?n)"
  have start: "sdo_write_session fuel M B od srv cl a v = sdo_loop (Suc (Suc f)) M B od srv ?cl ?req"
    using assms len n by (auto simp: sdo_write_session_def client_write_def Let_def subslice_Done
        encode_le_fits fuel simp del: sdo_loop.simps(2))
  have handle: "srv_handle M B od srv ?req = on_download_initiate M B od srv ?req"
    by (rule srv_handle_dispatch(1)) simp
  show ?thesis
  proof (cases "\<exists>e w. lm_get M od a = Some e \<and> is_writable (e_access e) \<and>
      decode_le (data_type_of (e_value e)) ?d = Inr w")
    case False
    then show ?thesis unfolding start sdo_loop.simps(2) [of "Suc f"] handle
      by (auto simp: on_download_initiate_segmented [OF len n] write_result_def srv_abort_def
          on_response_def cl_is_busy_def split: option.split sum.split)
  next
    case True
    then obtain e w where e: "lm_get M od a = Some e" "is_writable (e_access e)"
      and w: "decode_le (data_type_of (e_value e)) ?d = Inr w" by blast
    let ?dt = "data_type_of (e_value e)"
    let ?srv = "srv\<lparr>srv_transfer := Some (Download a ?dt (v_new B) ?n False)\<rparr>"
    let ?idle = "?cl\<lparr>cl_state := Idle\<rparr>"
    have data: "length ?data = 32" "take ?n ?data = ?d" using n len by (simp_all add: copy_at_def)
    obtain cl' p where send: "send_download_segment ?idle ?data ?n 0 False = Done (cl', Send p)"
      using send_download_segment_eq [OF data(1) n, of 0] by fastforce
    have wr: "od_write M od a w = Inr (lm_put M od a (e\<lparr>e_value := w\<rparr>))"
      using e decode_le_sound [OF w] by (simp add: od_write_def)
    have loop: "sdo_loop (Suc f) M B od ?srv cl' p =
        Some (Done (lm_put M od a (e\<lparr>e_value := w\<rparr>),
          ?srv\<lparr>srv_transfer := None, srv_last_write := Some a\<rparr>, ?idle\<lparr>cl_state := Idle\<rparr>, Complete None))"
    proof (rule download_segments_loop [OF send data(1) n])
      show "(?n - 0) div 7 < Suc f" using n f div_le_mono [OF n, of 7] by simp
    qed (use w wr data slice_new in auto)
    have resp: "on_response B ?cl (encode_download_response a) = Done (cl', Send p)"
      using send by (simp add: on_response_def on_download_init_def Let_def)
    have step: "srv_handle M B od srv ?req = Done (od, ?srv, Some (encode_download_response a))"
      unfolding handle by (simp add: on_download_initiate_segmented [OF len n] e w)
    have "sdo_loop (Suc (Suc f)) M B od srv ?cl ?req = sdo_loop (Suc f) M B od ?srv cl' p"
      by (simp only: sdo_loop.simps(2) [of "Suc f"] step resp run.case prod.case option.case sdo_event.case)
    moreover have "write_result M od a ?d = (lm_put M od a (e\<lparr>e_value := w\<rparr>), Complete None)"
      using e w by (simp add: write_result_def)
    ultimately show ?thesis unfolding start loop by (simp add: cl_is_busy_def)
  qed
qed

end

context sdo_env
begin

lemma read_session:
  assumes "wf_od M od" and "5 < fuel"
  shows "\<exists>srv' cl'. sdo_read_session fuel M B od srv cl a dt =
      Some (Done (od, srv', cl', read_result M od a dt)) \<and>
    \<not> cl_is_busy cl' \<and> srv_last_write srv' = srv_last_write srv"
proof (cases "od_read M od a")
  case (Inl e)
  then have "sdo_read_session fuel M B od srv cl a dt =
      Some (Done (od, srv, cl\<lparr>cl_state := Idle\<rparr>, read_result M od a dt))"
    using assms(2) by (intro sdo_read_session_refused) simp_all
  moreover have "\<not> cl_is_busy (cl\<lparr>cl_state := Idle\<rparr>)" by (simp add: cl_is_busy_def)
  ultimately show ?thesis by blast
next
  case (Inr v)
  then have "read_result M od a dt = read_event dt (encode_payload v)"
    by (auto simp: od_read_def read_result_def split: option.splits if_splits)
  then show ?thesis using sdo_read_session_bytes [OF assms(1) Inr assms(2)] by simp
qed

lemma write_session:
  assumes "wf_value v" and "5 < fuel"
  shows "\<exists>srv' cl'. sdo_write_session fuel M B od srv cl a v =
      Some (Done (fst (write_result M od a (encode_payload v)), srv', cl',
        snd (write_result M od a (encode_payload v)))) \<and> \<not> cl_is_busy cl' \<and>
    srv_last_write srv' = (if snd (write_result M od a (encode_payload v)) = Complete None
      then Some a else srv_last_write srv)"
proof (cases "1 \<le> value_size v \<and> value_size v \<le> 4")
  case True
  then show ?thesis using sdo_write_expedited [OF assms(1)] assms(2) by simp
next
  case False
  then show ?thesis by (rule sdo_write_segmented [OF assms(1) _ assms(2)])
qed

end

section \<open>Properties\<close>

definition example_od :: "(address \<times> entry) list" where
  "example_od = [(Address 0x1017 0, entry_rw (Unsigned16 1000)),
     (Address 0x1018 4, entry_constant (Unsigned64 0x1122334455667788))]"

lemma example_od_wf: "wf_od (assoc_ops 4) example_od"
  by (auto simp: wf_od_def example_od_def split: if_splits)

lemma example_read:
  "read_result (assoc_ops 4) example_od (Address 0x1018 4) DT_Unsigned64 =
     Complete (Some (Unsigned64 0x1122334455667788))"
  "srv_last_write (sdo_server_new n) = None"
  using decode_le_encode_payload [of "Unsigned64 0x1122334455667788"]
  by (simp_all add: read_result_def example_od_def read_event_def sdo_server_new_def)

lemma example_write:
  "write_result (assoc_ops 4) example_od (Address 0x1017 0) (encode_payload (Unsigned16 500)) =
     ([(Address 0x1017 0, entry_rw (Unsigned16 500)),
       (Address 0x1018 4, entry_constant (Unsigned64 0x1122334455667788))], Complete None)"
  using decode_le_encode_payload [of "Unsigned16 500"]
  by (simp add: write_result_def example_od_def assoc_put_def entry_rw_def)

text \<open>C1: Reading an object through the SDO client and server ends after at most six exchanges,
  never panics, leaves the dictionary unchanged and gives exactly the stored value's bytes decoded
  as the requested type, or the abort code of a missing or unreadable object - for every access
  right, every value of up to 32 bytes and either transfer, whatever transfer was in progress.\<close>

theorem sdo_read_correct:
  assumes "sdo_env M N B" and "wf_od M od" and "5 < fuel"
  shows "\<exists>srv' cl'. sdo_read_session fuel M B od srv cl a dt =
      Some (Done (od, srv', cl', read_result M od a dt)) \<and>
    \<not> cl_is_busy cl' \<and> srv_last_write srv' = srv_last_write srv"
  by (rule sdo_env.read_session [OF assms])

theorem sdo_read_correct_witness:
  "\<exists>srv' cl'. sdo_read_session 6 (assoc_ops 4) (list_ops 32) example_od
      (sdo_server_new (NodeId 0x10)) (sdo_client_new (NodeId 0x10)) (Address 0x1018 4) DT_Unsigned64 =
    Some (Done (example_od, srv', cl', Complete (Some (Unsigned64 0x1122334455667788)))) \<and>
    \<not> cl_is_busy cl' \<and> srv_last_write srv' = None"
  using sdo_read_correct [OF list_env.sdo_env_axioms [of 4] example_od_wf, of 6
      "sdo_server_new (NodeId 0x10)" "sdo_client_new (NodeId 0x10)" "Address 0x1018 4" DT_Unsigned64]
  by (simp add: example_read)

text \<open>C2: Writing a value through the SDO client and server ends after at most six exchanges and
  never panics. It stores the value's bytes, decoded as the object's type, exactly when the object
  exists, is writable and its type takes that many bytes; otherwise the dictionary is unchanged and
  the client gets the abort code of the reason. The written address is recorded exactly on success.\<close>

theorem sdo_write_correct:
  assumes "sdo_env M N B" and "wf_value v" and "5 < fuel"
  shows "\<exists>srv' cl'. sdo_write_session fuel M B od srv cl a v =
      Some (Done (fst (write_result M od a (encode_payload v)), srv', cl',
        snd (write_result M od a (encode_payload v)))) \<and> \<not> cl_is_busy cl' \<and>
    srv_last_write srv' = (if snd (write_result M od a (encode_payload v)) = Complete None
      then Some a else srv_last_write srv)"
  by (rule sdo_env.write_session [OF assms])

theorem sdo_write_correct_witness:
  "\<exists>srv' cl'. sdo_write_session 6 (assoc_ops 4) (list_ops 32) example_od
      (sdo_server_new (NodeId 0x10)) (sdo_client_new (NodeId 0x10)) (Address 0x1017 0) (Unsigned16 500) =
    Some (Done ([(Address 0x1017 0, entry_rw (Unsigned16 500)),
       (Address 0x1018 4, entry_constant (Unsigned64 0x1122334455667788))], srv', cl', Complete None)) \<and>
    \<not> cl_is_busy cl' \<and> srv_last_write srv' = Some (Address 0x1017 0)"
  using sdo_write_correct [OF list_env.sdo_env_axioms [of 4], of "Unsigned16 500" 6 example_od
      "sdo_server_new (NodeId 0x10)" "sdo_client_new (NodeId 0x10)" "Address 0x1017 0"]
  by (simp add: example_write del: encode_payload.simps)

text \<open>C3: A value written to a readable and writable object of its own type is what the next read
  of the object returns, through the same client and server; reads of other objects are unaffected.\<close>

theorem sdo_write_then_read:
  assumes "sdo_env M N B" and "wf_od M od" and "wf_value v" and "5 < fuel"
    and "lm_get M od a = Some e" and "e_access e = Rw" and "data_type_of (e_value e) = data_type_of v"
  shows "\<exists>od' srv' cl' srv'' cl''.
    sdo_write_session fuel M B od srv cl a v = Some (Done (od', srv', cl', Complete None)) \<and>
    sdo_read_session fuel M B od' srv' cl' a (data_type_of v) =
      Some (Done (od', srv'', cl'', Complete (Some v))) \<and>
    (\<forall>b dt. b \<noteq> a \<longrightarrow> read_result M od' b dt = read_result M od b dt)"
proof -
  have dec: "decode_le (data_type_of (e_value e)) (encode_payload v) = Inr v"
    using decode_le_encode_payload [OF assms(3)] assms(7) by simp
  let ?od = "lm_put M od a (e\<lparr>e_value := v\<rparr>)"
  have res: "write_result M od a (encode_payload v) = (?od, Complete None)"
    using assms(5,6) dec by (simp add: write_result_def)
  have map: "object_map M N" using assms(1) by (simp add: sdo_env_def)
  have wr: "od_write M od a v = Inr ?od" using assms(5-7) by (simp add: od_write_def)
  have wf: "wf_od M ?od" using object_map.od_write_wf [OF map wr assms(3,2)] .
  have get: "lm_get M ?od = (lm_get M od)(a \<mapsto> e\<lparr>e_value := v\<rparr>)"
    using linear_map.get_put_Some [OF object_map.axioms [OF map] assms(5)] .
  obtain srv' cl' where
    "sdo_write_session fuel M B od srv cl a v = Some (Done (?od, srv', cl', Complete None))"
    using sdo_env.write_session [OF assms(1,3,4), of od srv cl a] by (auto simp: res)
  moreover have "read_result M ?od a (data_type_of v) = Complete (Some v)"
    using assms(6) decode_le_encode_payload [OF assms(3)]
    by (simp add: read_result_def get read_event_def)
  then obtain srv'' cl'' where "sdo_read_session fuel M B ?od srv' cl' a (data_type_of v) =
      Some (Done (?od, srv'', cl'', Complete (Some v)))"
    using sdo_env.read_session [OF assms(1) wf assms(4), of srv' cl' a "data_type_of v"] by auto
  moreover have "\<forall>b dt. b \<noteq> a \<longrightarrow> read_result M ?od b dt = read_result M od b dt"
    by (simp add: read_result_def get)
  ultimately show ?thesis by blast
qed

theorem sdo_write_then_read_witness:
  "\<exists>od' srv' cl' srv'' cl''.
    sdo_write_session 6 (assoc_ops 4) (list_ops 32) example_od (sdo_server_new (NodeId 0x10))
      (sdo_client_new (NodeId 0x10)) (Address 0x1017 0) (Unsigned16 500) =
      Some (Done (od', srv', cl', Complete None)) \<and>
    sdo_read_session 6 (assoc_ops 4) (list_ops 32) od' srv' cl' (Address 0x1017 0) DT_Unsigned16 =
      Some (Done (od', srv'', cl'', Complete (Some (Unsigned16 500))))"
  using sdo_write_then_read [OF list_env.sdo_env_axioms [of 4] example_od_wf, of "Unsigned16 500" 6
      "Address 0x1017 0" "entry_rw (Unsigned16 1000)" "sdo_server_new (NodeId 0x10)"
      "sdo_client_new (NodeId 0x10)"]
  by (simp add: example_od_def) blast

end
