(* ===== verification/Nmt.thy ===== *)
theory Nmt
  imports Types
begin

text \<open>
  \<^verbatim>\<open>core/src/nmt.rs\<close>: node states and node-control commands with their frames, node guarding, and
  the node-side state machine. The theorems show that the codecs accept nothing but encodings and
  invert each other, and that the machine reaches Operational only by a start command after a boot.
\<close>

section \<open>Channels, states and commands\<close>

abbreviation (input) NMT_COMMAND_COB_ID :: u16 where "NMT_COMMAND_COB_ID \<equiv> 0"
abbreviation (input) HEARTBEAT_COB_BASE :: u16 where "HEARTBEAT_COB_BASE \<equiv> 0x700"

definition heartbeat_cob_id :: "node_id \<Rightarrow> u16" where
  "heartbeat_cob_id n = HEARTBEAT_COB_BASE + ucast (raw n)"

datatype nmt_state = Initialising | Stopped | Operational | PreOperational

fun state_byte :: "nmt_state \<Rightarrow> u8" where
  "state_byte Initialising = 0x00"
| "state_byte Stopped = 0x04"
| "state_byte Operational = 0x05"
| "state_byte PreOperational = 0x7F"

definition from_wire :: "u8 \<Rightarrow> core_error + nmt_state" where
  "from_wire byte =
     (let b = byte AND 0x7F in
      if b = 0x00 then Inr Initialising
      else if b = 0x04 then Inr Stopped
      else if b = 0x05 then Inr Operational
      else if b = 0x7F then Inr PreOperational
      else Inl UnknownState)"

datatype nmt_command =
  StartRemoteNode | StopRemoteNode | EnterPreOperational | ResetNode | ResetCommunication

fun command_byte :: "nmt_command \<Rightarrow> u8" where
  "command_byte StartRemoteNode = 0x01"
| "command_byte StopRemoteNode = 0x02"
| "command_byte EnterPreOperational = 0x80"
| "command_byte ResetNode = 0x81"
| "command_byte ResetCommunication = 0x82"

definition command_from_byte :: "u8 \<Rightarrow> core_error + nmt_command" where
  "command_from_byte byte =
     (if byte = 0x01 then Inr StartRemoteNode
      else if byte = 0x02 then Inr StopRemoteNode
      else if byte = 0x80 then Inr EnterPreOperational
      else if byte = 0x81 then Inr ResetNode
      else if byte = 0x82 then Inr ResetCommunication
      else Inl UnexpectedCommand)"

section \<open>Frames\<close>

definition BOOTUP_FRAME :: "u8 list" where
  "BOOTUP_FRAME = [0x00]"

definition encode_command :: "nmt_command \<Rightarrow> node_id \<Rightarrow> u8 list" where
  "encode_command c target = [command_byte c, raw target]"

definition decode_command :: "u8 list \<Rightarrow> core_error + nmt_command \<times> node_id" where
  "decode_command frame =
     (case command_from_byte (frame ! 0) of
        Inl e \<Rightarrow> Inl e
      | Inr c \<Rightarrow>
          if frame ! 1 = 0 then Inr (c, BROADCAST)
          else (case node_id_new (frame ! 1) of Inl e \<Rightarrow> Inl e | Inr t \<Rightarrow> Inr (c, t)))"

definition encode_heartbeat :: "nmt_state \<Rightarrow> u8 list" where
  "encode_heartbeat s = [state_byte s]"

definition decode_heartbeat :: "u8 list \<Rightarrow> core_error + nmt_state" where
  "decode_heartbeat frame = from_wire (frame ! 0)"

definition encode_node_guard :: "nmt_state \<Rightarrow> bool \<Rightarrow> u8" where
  "encode_node_guard s toggle = (if toggle then 0x80 else 0) OR state_byte s"

definition decode_node_guard :: "u8 \<Rightarrow> core_error + bool \<times> nmt_state" where
  "decode_node_guard byte =
     (case from_wire byte of Inl e \<Rightarrow> Inl e | Inr s \<Rightarrow> Inr (byte AND 0x80 \<noteq> 0, s))"

section \<open>The state machine\<close>

record nmt_state_machine =
  sm_state :: nmt_state

definition nmt_new :: nmt_state_machine where
  "nmt_new = \<lparr>sm_state = Initialising\<rparr>"

definition nmt_boot :: "nmt_state_machine \<Rightarrow> nmt_state_machine \<times> nmt_state" where
  "nmt_boot sm =
     (let sm' = (if sm_state sm = Initialising then sm\<lparr>sm_state := PreOperational\<rparr> else sm)
      in (sm', sm_state sm'))"

fun nmt_next :: "nmt_state \<Rightarrow> nmt_command \<Rightarrow> nmt_state" where
  "nmt_next s ResetNode = Initialising"
| "nmt_next s ResetCommunication = Initialising"
| "nmt_next s StartRemoteNode = (if s = Initialising then Initialising else Operational)"
| "nmt_next s StopRemoteNode = (if s = Initialising then Initialising else Stopped)"
| "nmt_next s EnterPreOperational = (if s = Initialising then Initialising else PreOperational)"

definition nmt_apply :: "nmt_state_machine \<Rightarrow> nmt_command \<Rightarrow> nmt_state_machine \<times> nmt_state" where
  "nmt_apply sm c =
     (let sm' = sm\<lparr>sm_state := nmt_next (sm_state sm) c\<rparr> in (sm', sm_state sm'))"

section \<open>Codecs\<close>

lemma from_wire_state_byte [simp]: "from_wire (state_byte s) = Inr s"
  by (cases s) (simp_all add: from_wire_def)

lemma from_wire_Inr_iff: "from_wire b = Inr s \<longleftrightarrow> b AND 0x7F = state_byte s"
  by (cases s) (auto simp: from_wire_def Let_def)

lemma command_from_byte_iff: "command_from_byte b = Inr c \<longleftrightarrow> b = command_byte c"
  by (cases c) (auto simp: command_from_byte_def)


lemma command_from_byte_command_byte [simp]: "command_from_byte (command_byte c) = Inr c"
  by (simp add: command_from_byte_iff)

lemma command_byte_inject [simp]: "command_byte c = command_byte d \<longleftrightarrow> c = d"
  by (cases c; cases d) simp_all

lemma u8_split: "(b :: u8) = (b AND 0x80) OR (b AND 0x7F)"
proof -
  have "0x80 OR 0x7F = (-1 :: u8)" by simp
  then have "b AND (0x80 OR 0x7F) = b" by (simp only: and.right_neutral)
  then show ?thesis by (simp only: bit.conj_disj_distrib)
qed

lemma and_80_cases: "(b :: u8) AND 0x80 \<noteq> 0 \<Longrightarrow> b AND 0x80 = 0x80"
proof -
  assume "b AND 0x80 \<noteq> 0"
  then have "bit b 7" using and_exp_eq_0_iff_not_bit [of b 7] by simp
  then have "b AND 2 ^ 7 = 2 ^ 7"
    by (intro bit_word_eqI) (simp only: bit_and_iff bit_exp_iff, auto)
  then show ?thesis by simp
qed

lemma state_byte_bounds: "state_byte s AND 0x7F = state_byte s" "state_byte s AND 0x80 = 0"
  by (cases s; simp)+

lemma decode_command_Inr_iff:
  assumes "length f = 2"
  shows "decode_command f = Inr (c, t) \<longleftrightarrow> wf_node_id t \<and> f = encode_command c t"
proof -
  obtain a b where f: "f = [a, b]" using assms by (auto simp: numeral_eq_Suc length_Suc_conv)
  show ?thesis
  proof (cases "b = 0")
    case True
    then show ?thesis
      by (auto simp: f decode_command_def encode_command_def command_from_byte_iff wf_node_id_def
          BROADCAST_def device_id_def split: sum.splits)
  next
    case False
    then show ?thesis
      by (cases t) (auto simp: f decode_command_def encode_command_def command_from_byte_iff
          wf_node_id_def BROADCAST_def node_id_new_def device_id_def split: sum.splits)
  qed
qed

interpretation nmt_frame: exact_codec "\<lambda>(c, t). encode_command c t" decode_command
  "\<lambda>(c, t). wf_node_id t" "\<lambda>f. length f = 2"
  by unfold_locales (auto simp: decode_command_Inr_iff encode_command_def)

interpretation node_guard: exact_codec "\<lambda>(t, s). encode_node_guard s t" decode_node_guard
  "\<lambda>_. True" "\<lambda>_. True"
proof unfold_locales
  fix x :: "bool \<times> nmt_state"
  obtain t s where x: "x = (t, s)" by (cases x)
  have "from_wire (encode_node_guard s t) = Inr s"
    by (auto simp: from_wire_Inr_iff encode_node_guard_def bit.conj_disj_distrib2 state_byte_bounds)
  then show "decode_node_guard (case x of (t, s) \<Rightarrow> encode_node_guard s t) = Inr x"
    by (auto simp: x decode_node_guard_def encode_node_guard_def bit.conj_disj_distrib2
        state_byte_bounds)
next
  fix b and x :: "bool \<times> nmt_state"
  assume dec: "decode_node_guard b = Inr x"
  obtain t s where x: "x = (t, s)" by (cases x)
  have "b AND 0x7F = state_byte s" and "t \<longleftrightarrow> b AND 0x80 \<noteq> 0"
    using dec by (auto simp: x decode_node_guard_def from_wire_Inr_iff split: sum.splits)
  then have "encode_node_guard s t = b"
    using u8_split [of b] and_80_cases [of b] by (auto simp: encode_node_guard_def)
  then show "True \<and> (case x of (t, s) \<Rightarrow> encode_node_guard s t) = b" by (simp add: x)
qed auto

interpretation heartbeat: frame_codec encode_heartbeat decode_heartbeat "\<lambda>_. True"
  by unfold_locales (simp add: encode_heartbeat_def decode_heartbeat_def)

text \<open>An NMT command frame decodes to a command and a target exactly when it is their encoding
  and the target is broadcast or a device id from 1 to 127: no other pair of bytes is accepted, and
  different pairs never share a frame.\<close>

theorem nmt_command_exact:
  assumes "length f = 2"
  shows "decode_command f = Inr (c, t) \<longleftrightarrow> wf_node_id t \<and> encode_command c t = f"
  using decode_command_Inr_iff [OF assms] by auto

text \<open>A node-guarding byte decodes to a toggle and a state exactly when it is their encoding, so
  lost or repeated replies show in the toggle and never change the reported state.\<close>

theorem node_guard_exact:
  "decode_node_guard b = Inr (t, s) \<longleftrightarrow> encode_node_guard s t = b"
  using node_guard.enc_dec [of b "(t, s)"] node_guard.dec_enc [of "(t, s)"] by auto

section \<open>Runs of the state machine\<close>

datatype nmt_event = Boot | Command nmt_command

fun nmt_event_step :: "nmt_state_machine \<Rightarrow> nmt_event \<Rightarrow> nmt_state_machine" where
  "nmt_event_step sm Boot = fst (nmt_boot sm)"
| "nmt_event_step sm (Command c) = fst (nmt_apply sm c)"

definition nmt_run :: "nmt_event list \<Rightarrow> nmt_state" where
  "nmt_run es = sm_state (foldl nmt_event_step nmt_new es)"

text \<open>
  What a history determines, read off without the machine: only the events after the last reset
  count; before the first boot among them the node is initialising, and after it the last of the
  three operational commands decides.
\<close>

fun is_reset :: "nmt_event \<Rightarrow> bool" where
  "is_reset (Command ResetNode) = True"
| "is_reset (Command ResetCommunication) = True"
| "is_reset _ = False"

fun target_state :: "nmt_event \<Rightarrow> nmt_state" where
  "target_state (Command StartRemoteNode) = Operational"
| "target_state (Command StopRemoteNode) = Stopped"
| "target_state _ = PreOperational"

definition since_reset :: "nmt_event list \<Rightarrow> nmt_event list" where
  "since_reset es = rev (takeWhile (\<lambda>e. \<not> is_reset e) (rev es))"

definition since_boot :: "nmt_event list \<Rightarrow> nmt_event list" where
  "since_boot es = dropWhile (\<lambda>e. e \<noteq> Boot) (since_reset es)"

definition nmt_history :: "nmt_event list \<Rightarrow> nmt_state" where
  "nmt_history es =
     (if since_boot es = [] then Initialising
      else let cs = filter (\<lambda>e. e \<noteq> Boot) (since_boot es)
           in if cs = [] then PreOperational else target_state (last cs))"

lemma since_reset_snoc:
  "since_reset (es @ [e]) = (if is_reset e then [] else since_reset es @ [e])"
  by (simp add: since_reset_def)

lemma since_boot_snoc:
  "since_boot (es @ [e]) =
     (if is_reset e then []
      else if since_boot es = [] then (if e = Boot then [Boot] else []) else since_boot es @ [e])"
  by (auto simp: since_boot_def since_reset_snoc dropWhile_append dropWhile_eq_Nil_conv)

lemma nmt_run_snoc:
  "nmt_run (es @ [Boot]) = (if nmt_run es = Initialising then PreOperational else nmt_run es)"
  "nmt_run (es @ [Command c]) = nmt_next (nmt_run es) c"
  by (simp_all add: nmt_run_def nmt_boot_def nmt_apply_def Let_def)

lemma target_state_not_initialising: "target_state e \<noteq> Initialising"
  by (cases e rule: target_state.cases) simp_all

lemma nmt_history_eq: "nmt_run es = nmt_history es"
proof (induction es rule: rev_induct)
  case Nil
  show ?case by (simp add: nmt_run_def nmt_new_def nmt_history_def since_boot_def since_reset_def)
next
  case (snoc e es)
  show ?case
  proof (cases e)
    case Boot
    then show ?thesis using snoc target_state_not_initialising
      by (auto simp: nmt_run_snoc nmt_history_def since_boot_snoc Let_def)
  next
    case (Command c)
    then show ?thesis using snoc target_state_not_initialising
      by (cases c) (auto simp: nmt_run_snoc nmt_history_def since_boot_snoc Let_def)
  qed
qed

text \<open>C25: The state machine computes exactly what the history of boots and commands says: the node is
  initialising until a boot follows the last reset, then pre-operational until one of the three
  operational commands, of which the last decides.\<close>

theorem nmt_run_history: "nmt_run es = nmt_history es"
  by (rule nmt_history_eq)

lemma nmt_run_booted:
  "nmt_run es \<noteq> Initialising \<Longrightarrow> \<exists>xs ys. es = xs @ [Boot] @ ys \<and> (\<forall>e \<in> set ys. \<not> is_reset e)"
proof (induction es rule: rev_induct)
  case Nil
  then show ?case by (simp add: nmt_run_def nmt_new_def)
next
  case (snoc e es)
  show ?case
  proof (cases "e = Boot")
    case True
    then have "es @ [e] = es @ [Boot] @ []" by simp
    then show ?thesis by (metis empty_iff empty_set)
  next
    case False
    then obtain c where e: "e = Command c" by (cases e) auto
    then have step: "nmt_next (nmt_run es) c \<noteq> Initialising"
      using snoc.prems by (simp add: nmt_run_snoc)
    then have "nmt_run es \<noteq> Initialising" by (cases c) auto
    moreover have "\<not> is_reset e" using step e by (cases c) auto
    ultimately have "nmt_run es \<noteq> Initialising" and "\<not> is_reset e" by simp_all
    with snoc.IH obtain xs ys where "es = xs @ [Boot] @ ys" "\<forall>e \<in> set ys. \<not> is_reset e" by blast
    then have "es @ [e] = xs @ [Boot] @ (ys @ [e])" "\<forall>e \<in> set (ys @ [e]). \<not> is_reset e"
      using \<open>\<not> is_reset e\<close> by auto
    then show ?thesis by blast
  qed
qed

lemma nmt_run_started:
  "nmt_run es = Operational \<Longrightarrow>
   \<exists>xs ys zs. es = xs @ [Boot] @ ys @ [Command StartRemoteNode] @ zs \<and>
    (\<forall>e \<in> set ys. \<not> is_reset e) \<and>
    (\<forall>e \<in> set zs. e = Boot \<or> e = Command StartRemoteNode)"
proof (induction es rule: rev_induct)
  case Nil
  then show ?case by (simp add: nmt_run_def nmt_new_def)
next
  case (snoc e es)
  show ?case
  proof (cases e)
    case Boot
    with snoc.prems have "nmt_run es = Operational" by (simp add: nmt_run_snoc split: if_splits)
    with snoc.IH obtain xs ys zs where "es = xs @ [Boot] @ ys @ [Command StartRemoteNode] @ zs"
      and "\<forall>e \<in> set ys. \<not> is_reset e" and "\<forall>e \<in> set zs. e = Boot \<or> e = Command StartRemoteNode"
      by blast
    then show ?thesis unfolding Boot
      by (intro exI [of _ xs] exI [of _ ys] exI [of _ "zs @ [Boot]"]) simp
  next
    case (Command c)
    then have run: "nmt_next (nmt_run es) c = Operational"
      using snoc.prems by (simp add: nmt_run_snoc)
    then have c: "c = StartRemoteNode" by (cases c) (auto split: if_splits)
    with run have "nmt_run es \<noteq> Initialising" by (auto split: if_splits)
    then obtain xs ys where "es = xs @ [Boot] @ ys" and "\<forall>e \<in> set ys. \<not> is_reset e"
      using nmt_run_booted [of es] by blast
    with Command c show ?thesis
      by (intro exI [of _ xs] exI [of _ ys] exI [of _ "[]"]) simp
  qed
qed

text \<open>A node is Operational only if it was started after a boot with no reset, stop or
  enter-pre-operational command since that start.\<close>

lemma nmt_operational_started:
  assumes "nmt_run es = Operational"
  shows "\<exists>xs ys zs. es = xs @ [Boot] @ ys @ [Command StartRemoteNode] @ zs \<and>
    (\<forall>e \<in> set ys. \<not> is_reset e) \<and>
    (\<forall>e \<in> set zs. e = Boot \<or> e = Command StartRemoteNode)"
  by (rule nmt_run_started [OF assms])

end
