(* ===== verification/Sync.thy ===== *)
theory Sync
  imports Types
begin

text \<open>
  \<^verbatim>\<open>core/src/sync.rs\<close>: the data field of a SYNC frame and the producer's counter. The theorems show
  that the counter runs through 1 to the overflow value and starts again, and that it exists only for
  the values object 0x1019 may hold.
\<close>

abbreviation (input) SYNC_COB_ID :: u16 where "SYNC_COB_ID \<equiv> 0x080"

definition is_valid_counter_overflow :: "u8 \<Rightarrow> bool" where
  "is_valid_counter_overflow overflow \<longleftrightarrow> overflow = 0 \<or> (2 \<le> overflow \<and> overflow \<le> 240)"

definition sync_decode :: "u8 list \<Rightarrow> core_error + u8 option" where
  "sync_decode data =
     (if length data = 0 then Inr None
      else if length data = 1 then Inr (Some (data ! 0))
      else Inl BadLength)"

definition encode_counter :: "u8 \<Rightarrow> u8 list" where
  "encode_counter count = [count]"

record sync_counter =
  sc_overflow :: u8
  sc_value :: u8

definition sync_counter_new :: "u8 \<Rightarrow> core_error + sync_counter" where
  "sync_counter_new overflow =
     (if \<not> is_valid_counter_overflow overflow then Inl InvalidSyncCounter
      else Inr \<lparr>sc_overflow = overflow, sc_value = 0\<rparr>)"

definition sc_is_counting :: "sync_counter \<Rightarrow> bool" where
  "sc_is_counting c \<longleftrightarrow> sc_overflow c \<ge> 2"

definition sc_advance :: "sync_counter \<Rightarrow> sync_counter \<times> u8 option" where
  "sc_advance c =
     (if \<not> sc_is_counting c then (c, None)
      else
        let v = (if sc_value c \<ge> sc_overflow c then 1 else sc_value c + 1)
        in (c\<lparr>sc_value := v\<rparr>, Some v))"

section \<open>Frames and counts\<close>

interpretation sync_frame: exact_codec
  "\<lambda>c. case c of None \<Rightarrow> [] | Some n \<Rightarrow> encode_counter n" sync_decode "\<lambda>_. True" "\<lambda>_. True"
  by unfold_locales
    (auto simp: sync_decode_def encode_counter_def length_Suc_conv split: option.splits if_splits)

fun sync_counts :: "nat \<Rightarrow> sync_counter \<Rightarrow> u8 option list" where
  "sync_counts 0 c = []"
| "sync_counts (Suc n) c = (let (c', out) = sc_advance c in out # sync_counts n c')"

lemma sync_counts_idle: "\<not> sc_is_counting c \<Longrightarrow> sync_counts n c = replicate n None"
  by (induction n) (simp_all add: sc_advance_def)

lemma sc_advance_cycle:
  assumes "2 \<le> ov" and "v = of_nat (if k = 0 then 0 else (k - 1) mod unat ov + 1)"
  shows "sc_advance \<lparr>sc_overflow = ov, sc_value = v\<rparr> =
    (\<lparr>sc_overflow = ov, sc_value = of_nat (k mod unat ov + 1)\<rparr>, Some (of_nat (k mod unat ov + 1)))"
proof -
  let ?m = "unat ov"
  have m: "2 \<le> ?m" "?m < 256"
    using assms(1) unsigned_less [of ov] by (simp_all add: word_le_nat_alt)
  show ?thesis
  proof (cases "k = 0")
    case True
    have "\<not> ov \<le> 0" using assms(1) by (simp add: word_le_nat_alt)
    with True assms show ?thesis by (simp add: sc_advance_def sc_is_counting_def)
  next
    case False
    then obtain j where k: "k = Suc j" by (cases k) auto
    have j: "j mod ?m < ?m" using m by simp
    have "v = of_nat (j mod ?m + 1)" using assms(2) by (simp add: k)
    moreover have "j mod ?m + 1 < 256" using j m by linarith
    ultimately have uv: "unat v = j mod ?m + 1"
      by (simp add: unat_of_nat del: of_nat_Suc of_nat_add)
    have "v \<ge> ov \<longleftrightarrow> j mod ?m + 1 = ?m"
      using j by (auto simp: word_le_nat_alt uv)
    then show ?thesis
      using assms m by (auto simp: sc_advance_def sc_is_counting_def k mod_Suc Let_def)
  qed
qed

lemma sync_counts_cycle:
  assumes "2 \<le> ov" and "v = of_nat (if k = 0 then 0 else (k - 1) mod unat ov + 1)"
  shows "sync_counts n \<lparr>sc_overflow = ov, sc_value = v\<rparr> =
    map (\<lambda>i. Some (of_nat (i mod unat ov + 1))) [k..<k + n]"
  using assms(2)
proof (induction n arbitrary: k v)
  case 0
  then show ?case by simp
next
  case (Suc n)
  have "sync_counts n \<lparr>sc_overflow = ov, sc_value = of_nat (k mod unat ov + 1)\<rparr> =
      map (\<lambda>i. Some (of_nat (i mod unat ov + 1))) [Suc k..<Suc k + n]"
    by (rule Suc.IH) simp
  moreover have "[k..<k + Suc n] = k # [Suc k..<Suc k + n]" by (simp add: upt_rec)
  ultimately show ?case
    using sc_advance_cycle [OF assms(1) Suc.prems] by (simp del: of_nat_Suc of_nat_add)
qed

text \<open>A SYNC producer exists for the overflow values 0 and 2 to 240 and no others. With 0 it never
  emits a count; otherwise its counts run 1, 2, up to the overflow value and then start again at 1.\<close>

theorem sync_counter_cycles:
  "case sync_counter_new ov of
     Inl e \<Rightarrow> e = InvalidSyncCounter \<and> (ov = 1 \<or> 240 < ov)
   | Inr c \<Rightarrow> (ov = 0 \<or> 2 \<le> ov \<and> ov \<le> 240) \<and>
       sync_counts n c =
         (if ov = 0 then replicate n None
          else map (\<lambda>k. Some (of_nat (k mod unat ov + 1))) [0..<n])"
proof (cases "is_valid_counter_overflow ov")
  case True
  have "2 \<le> ov \<Longrightarrow> sync_counts n \<lparr>sc_overflow = ov, sc_value = 0\<rparr> =
      map (\<lambda>k. Some (of_nat (k mod unat ov + 1))) [0..<n]"
    using sync_counts_cycle [of ov 0 0 n] by (simp del: of_nat_Suc of_nat_add)
  moreover have "ov = 0 \<Longrightarrow> sync_counts n \<lparr>sc_overflow = ov, sc_value = 0\<rparr> = replicate n None"
    by (rule sync_counts_idle) (simp add: sc_is_counting_def)
  ultimately show ?thesis
    using True by (auto simp: sync_counter_new_def is_valid_counter_overflow_def)
next
  case False
  have "240 < ov" if "2 \<le> ov" using False that by (auto simp: is_valid_counter_overflow_def)
  moreover have "ov \<noteq> 0" using False by (auto simp: is_valid_counter_overflow_def)
  moreover have "ov = 0 \<or> ov = 1 \<or> 2 \<le> ov"
    by (simp add: word_le_nat_alt word_unat_eq_iff) linarith
  ultimately show ?thesis using False by (auto simp: sync_counter_new_def)
qed

end
