(* ===== verification/Emcy.thy ===== *)
theory Emcy
  imports Types
begin

text \<open>
  \<^verbatim>\<open>core/src/emcy.rs\<close>: the error register and the emergency message with its frame. The codec is
  exact: a data field decodes exactly when it is the encoding of a message.
\<close>

abbreviation (input) EMCY_COB_BASE :: u16 where "EMCY_COB_BASE \<equiv> 0x080"

definition emcy_cob_id :: "node_id \<Rightarrow> u16" where
  "emcy_cob_id n = EMCY_COB_BASE + ucast (raw n)"

abbreviation (input) ERROR_RESET :: u16 where "ERROR_RESET \<equiv> 0x0000"

datatype error_register = ErrorRegister (reg_bits: u8)

definition REGISTER_NONE :: error_register where
  "REGISTER_NONE = ErrorRegister 0"

definition reg_contains :: "error_register \<Rightarrow> u8 \<Rightarrow> bool" where
  "reg_contains r bits \<longleftrightarrow> reg_bits r AND bits = bits"

definition has_error :: "error_register \<Rightarrow> bool" where
  "has_error r \<longleftrightarrow> reg_bits r \<noteq> 0"

record emergency_message =
  em_error_code :: u16
  em_error_register :: error_register
  em_vendor_specific :: "u8 list"

definition emergency_new :: "u16 \<Rightarrow> error_register \<Rightarrow> u8 list \<Rightarrow> emergency_message" where
  "emergency_new code reg vendor =
     \<lparr>em_error_code = code, em_error_register = reg, em_vendor_specific = vendor\<rparr>"

definition error_reset :: emergency_message where
  "error_reset =
     \<lparr>em_error_code = ERROR_RESET, em_error_register = REGISTER_NONE, em_vendor_specific = zeros 5\<rparr>"

definition is_error_reset :: "emergency_message \<Rightarrow> bool" where
  "is_error_reset m \<longleftrightarrow> em_error_code m = ERROR_RESET"

definition emcy_encode :: "emergency_message \<Rightarrow> u8 list" where
  "emcy_encode m =
     (let p = copy_at 0 (le_bytes 2 (em_error_code m)) (zeros 8);
          p = p[2 := reg_bits (em_error_register m)]
      in copy_at 3 (em_vendor_specific m) p)"

definition emcy_decode :: "u8 list \<Rightarrow> core_error + emergency_message" where
  "emcy_decode data =
     (if length data \<noteq> 8 then Inl BadLength
      else Inr \<lparr>em_error_code = from_le [data ! 0, data ! 1],
                em_error_register = ErrorRegister (data ! 2),
                em_vendor_specific = take 5 (drop 3 data)\<rparr>)"

text \<open>The manufacturer field is an array of five bytes.\<close>

definition wf_emergency :: "emergency_message \<Rightarrow> bool" where
  "wf_emergency m \<longleftrightarrow> length (em_vendor_specific m) = 5"

lemma length_5_cases:
  assumes "length xs = 5"
  obtains a0 a1 a2 a3 a4 where "xs = [a0, a1, a2, a3, a4]"
  using assms by (auto simp: numeral_eq_Suc length_Suc_conv)

lemma emcy_encode_frame:
  assumes "em_vendor_specific m = [v0, v1, v2, v3, v4]"
  shows "emcy_encode m = [ucast (em_error_code m), ucast (drop_bit 8 (em_error_code m)),
    reg_bits (em_error_register m), v0, v1, v2, v3, v4]"
  using assms by (simp add: emcy_encode_def copy_at_def frame_simps Let_def)

lemma emcy_decode_encode: "wf_emergency m \<Longrightarrow> emcy_decode (emcy_encode m) = Inr m"
  unfolding wf_emergency_def
  by (elim length_5_cases) (auto simp: emcy_decode_def emcy_encode_frame)

lemma length_emcy_encode: "wf_emergency m \<Longrightarrow> length (emcy_encode m) = 8"
  unfolding wf_emergency_def by (elim length_5_cases) (simp add: emcy_encode_frame)

lemma emcy_encode_decode:
  assumes "emcy_decode f = Inr m"
  shows "wf_emergency m" and "emcy_encode m = f"
proof -
  obtain a0 a1 a2 a3 a4 a5 a6 a7 where f: "f = [a0, a1, a2, a3, a4, a5, a6, a7]"
    using assms length_8_cases by (auto simp: emcy_decode_def split: if_splits)
  have m: "m = \<lparr>em_error_code = from_le [a0, a1], em_error_register = ErrorRegister a2,
      em_vendor_specific = [a3, a4, a5, a6, a7]\<rparr>"
    using assms by (simp add: f emcy_decode_def numeral_eq_Suc)
  show "wf_emergency m" by (simp add: m wf_emergency_def)
  have "le_bytes 2 (from_le [a0, a1] :: u16) = [a0, a1]" by (rule le_bytes_from_le) simp_all
  then show "emcy_encode m = f"
    by (simp add: m f emcy_encode_frame frame_simps del: from_le.simps)
qed

interpretation emcy_frame: exact_codec emcy_encode emcy_decode wf_emergency "\<lambda>_. True"
  by unfold_locales (use emcy_decode_encode emcy_encode_decode in auto)

text \<open>An EMCY data field decodes to a message exactly when it is the message's encoding, so every
  emergency arrives as sent and every other length is refused.\<close>

theorem emcy_exact:
  "emcy_decode f = Inr m \<longleftrightarrow> wf_emergency m \<and> emcy_encode m = f"
  using emcy_frame.enc_dec [of f m] emcy_frame.dec_enc [of m] by auto

end
