(* ===== verification/Pdo.thy ===== *)
theory Pdo
  imports Object_Dictionary
begin

text \<open>
  \<^verbatim>\<open>core/src/pdo.rs\<close>: PDO COB-IDs, transmission types, mappings and the packing of mapped objects
  into a frame and out of one. The theorems show that packing and unpacking never panic, what they
  leave in the buffer and in the dictionary, and that a PDO carries the mapped values of one
  dictionary into another.
\<close>

section \<open>COB-IDs and transmission types\<close>

datatype pdo_kind = Transmit | Receive

abbreviation (input) PDO_COB_ID_INVALID :: u32 where "PDO_COB_ID_INVALID \<equiv> 0x80000000"

definition pdo_is_valid :: "u32 \<Rightarrow> bool" where
  "pdo_is_valid comm_cob_id \<longleftrightarrow> comm_cob_id AND PDO_COB_ID_INVALID = 0"

definition pdo_can_id :: "u32 \<Rightarrow> u16" where
  "pdo_can_id comm_cob_id = ucast (comm_cob_id AND 0x7FF)"

definition default_cob_id :: "pdo_kind \<Rightarrow> u8 \<Rightarrow> node_id \<Rightarrow> u16 option" where
  "default_cob_id kind number n =
     (if number < 1 \<or> number > 4 then None
      else
        let base = (case kind of
              Transmit \<Rightarrow> 0x80 + ucast number * 0x100
            | Receive \<Rightarrow> 0x100 + ucast number * 0x100)
        in Some (base + ucast (raw n)))"

datatype transmission_type =
    SynchronousAcyclic | SynchronousCyclic u8 | SynchronousRtrOnly | EventDrivenRtrOnly
  | EventDrivenManufacturer | EventDrivenProfile

definition transmission_from_byte :: "u8 \<Rightarrow> core_error + transmission_type" where
  "transmission_from_byte byte =
     (if byte = 0 then Inr SynchronousAcyclic
      else if 1 \<le> byte \<and> byte \<le> 240 then Inr (SynchronousCyclic byte)
      else if byte = 252 then Inr SynchronousRtrOnly
      else if byte = 253 then Inr EventDrivenRtrOnly
      else if byte = 254 then Inr EventDrivenManufacturer
      else if byte = 255 then Inr EventDrivenProfile
      else Inl UnsupportedTransfer)"

fun transmission_to_byte :: "transmission_type \<Rightarrow> u8" where
  "transmission_to_byte SynchronousAcyclic = 0"
| "transmission_to_byte (SynchronousCyclic n) = n"
| "transmission_to_byte SynchronousRtrOnly = 252"
| "transmission_to_byte EventDrivenRtrOnly = 253"
| "transmission_to_byte EventDrivenManufacturer = 254"
| "transmission_to_byte EventDrivenProfile = 255"

section \<open>Mappings\<close>

record mapping_entry =
  me_address :: address
  me_bit_length :: u8

definition mapping_entry_new :: "u16 \<Rightarrow> u8 \<Rightarrow> u8 \<Rightarrow> mapping_entry" where
  "mapping_entry_new idx sub bits = \<lparr>me_address = Address idx sub, me_bit_length = bits\<rparr>"

definition mapping_to_u32 :: "mapping_entry \<Rightarrow> u32" where
  "mapping_to_u32 e =
     (push_bit 16 (ucast (index (me_address e))) OR push_bit 8 (ucast (subindex (me_address e))))
       OR ucast (me_bit_length e)"

definition mapping_from_u32 :: "u32 \<Rightarrow> mapping_entry" where
  "mapping_from_u32 w =
     \<lparr>me_address = Address (ucast (drop_bit 16 w)) (ucast (drop_bit 8 w)),
      me_bit_length = ucast w\<rparr>"

record 'p pdo_mapping =
  pm_entries :: 'p

definition pdo_mapping_new :: "('p, mapping_entry) vec_ops \<Rightarrow> 'p pdo_mapping" where
  "pdo_mapping_new P = \<lparr>pm_entries = v_new P\<rparr>"

definition entries :: "('p, mapping_entry) vec_ops \<Rightarrow> 'p pdo_mapping \<Rightarrow> mapping_entry list" where
  "entries P m = v_slice P (pm_entries m)"

definition mapping_len :: "('p, mapping_entry) vec_ops \<Rightarrow> 'p pdo_mapping \<Rightarrow> nat" where
  "mapping_len P m = v_len P (pm_entries m)"

definition mapping_is_empty :: "('p, mapping_entry) vec_ops \<Rightarrow> 'p pdo_mapping \<Rightarrow> bool" where
  "mapping_is_empty P m \<longleftrightarrow> v_slice P (pm_entries m) = []"

text \<open>
  The sum of the widths is a \<open>u32\<close> in the source. Entries enter only through \<open>push\<close>, which keeps
  the sum at 64 or less (\<open>mapping_push_bound\<close>), so it never wraps.
\<close>

abbreviation (input) bits_of :: "mapping_entry list \<Rightarrow> nat" where
  "bits_of es \<equiv> sum_list (map (\<lambda>e. unat (me_bit_length e)) es)"

definition total_bits :: "('p, mapping_entry) vec_ops \<Rightarrow> 'p pdo_mapping \<Rightarrow> nat" where
  "total_bits P m = bits_of (entries P m)"

definition total_bytes :: "('p, mapping_entry) vec_ops \<Rightarrow> 'p pdo_mapping \<Rightarrow> nat" where
  "total_bytes P m = (total_bits P m + 7) div 8"

definition mapping_push ::
  "('p, mapping_entry) vec_ops \<Rightarrow> 'p pdo_mapping \<Rightarrow> mapping_entry \<Rightarrow> core_error + 'p pdo_mapping" where
  "mapping_push P m e =
     (if total_bits P m + unat (me_bit_length e) > 64 then Inl PdoTooLong
      else case v_push P (pm_entries m) e of
             None \<Rightarrow> Inl MappingFull
           | Some es \<Rightarrow> Inr (m\<lparr>pm_entries := es\<rparr>))"

section \<open>Packing and unpacking\<close>

definition byte_width :: "u8 \<Rightarrow> core_error + nat" where
  "byte_width bits =
     (if bits = 0 \<or> bits mod 8 \<noteq> 0 then Inl UnsupportedTransfer else Inr (unat (bits div 8)))"

text \<open>The buffer of \<open>pack\<close> and the dictionary of \<open>unpack\<close> are borrowed mutably, so both are part of
  the result also when the operation fails on the way.\<close>

fun pack_entries :: "'m od_ops \<Rightarrow> 'm \<Rightarrow> mapping_entry list \<Rightarrow> nat \<Rightarrow> u8 list \<Rightarrow>
    (u8 list \<times> (core_error + nat)) run" where
  "pack_entries M od [] offset buf = Done (buf, Inr offset)"
| "pack_entries M od (e # es) offset buf =
     (case byte_width (me_bit_length e) of
        Inl err \<Rightarrow> Done (buf, Inl err)
      | Inr width \<Rightarrow>
          (case od_read M od (me_address e) of
             Inl err \<Rightarrow> Done (buf, Inl err)
           | Inr v \<Rightarrow>
               if is_variable (data_type_of v) \<or> value_size v \<noteq> width
               then Done (buf, Inl TypeMismatch)
               else run_bind (subslice buf offset (offset + width)) (\<lambda>field.
                 case encode_le v field of
                   Inl err \<Rightarrow> Done (buf, Inl err)
                 | Inr (_, field') \<Rightarrow>
                     pack_entries M od es (offset + width) (copy_at offset field' buf))))"

definition pack :: "('p, mapping_entry) vec_ops \<Rightarrow> 'm od_ops \<Rightarrow> 'p pdo_mapping \<Rightarrow> 'm \<Rightarrow> u8 list \<Rightarrow>
    (u8 list \<times> (core_error + nat)) run" where
  "pack P M m od buf =
     (if length buf < total_bytes P m then Done (buf, Inl BadLength)
      else pack_entries M od (entries P m) 0 buf)"

fun unpack_entries :: "'m od_ops \<Rightarrow> mapping_entry list \<Rightarrow> nat \<Rightarrow> u8 list \<Rightarrow> 'm \<Rightarrow>
    ('m \<times> (core_error + unit)) run" where
  "unpack_entries M [] offset data od = Done (od, Inr ())"
| "unpack_entries M (e # es) offset data od =
     (case byte_width (me_bit_length e) of
        Inl err \<Rightarrow> Done (od, Inl err)
      | Inr width \<Rightarrow>
          (case od_entry M od (me_address e) of
             None \<Rightarrow> Done (od, Inl ObjectNotFound)
           | Some x \<Rightarrow>
               let dt = data_type_of (e_value x) in
               if type_size dt \<noteq> width then Done (od, Inl TypeMismatch)
               else run_bind (subslice data offset (offset + width)) (\<lambda>field.
                 case decode_le dt field of
                   Inl err \<Rightarrow> Done (od, Inl err)
                 | Inr v \<Rightarrow>
                     (case od_write M od (me_address e) v of
                        Inl err \<Rightarrow> Done (od, Inl err)
                      | Inr od' \<Rightarrow> unpack_entries M es (offset + width) data od'))))"

definition unpack :: "('p, mapping_entry) vec_ops \<Rightarrow> 'm od_ops \<Rightarrow> 'p pdo_mapping \<Rightarrow> 'm \<Rightarrow> u8 list \<Rightarrow>
    ('m \<times> (core_error + unit)) run" where
  "unpack P M m od data =
     (if length data < total_bytes P m then Done (od, Inl BadLength)
      else unpack_entries M (entries P m) 0 data od)"

section \<open>Codecs and bounds\<close>

interpretation mapping_word: exact_codec mapping_to_u32
  "\<lambda>w. Inr (mapping_from_u32 w) :: core_error + mapping_entry" "\<lambda>_. True" "\<lambda>_. True"
proof unfold_locales
  fix x :: mapping_entry
  have "ucast (drop_bit 16 (mapping_to_u32 x)) = index (me_address x)"
    "ucast (drop_bit 8 (mapping_to_u32 x)) = subindex (me_address x)"
    "ucast (mapping_to_u32 x) = me_bit_length x"
    by (rule bit_word_eqI;
        auto simp: mapping_to_u32_def bit_or_iff bit_push_bit_iff bit_unsigned_iff bit_drop_bit_eq
          dest: bit_imp_le_length)+
  then show "Inr (mapping_from_u32 (mapping_to_u32 x)) = Inr x"
    by (cases x; cases "me_address x") (simp add: mapping_from_u32_def)
next
  fix f :: u32 and x
  assume "Inr (mapping_from_u32 f) = (Inr x :: core_error + mapping_entry)"
  then have x: "x = mapping_from_u32 f" by simp
  have "mapping_to_u32 x = f"
  proof (rule bit_word_eqI)
    fix n :: nat
    assume "n < LENGTH(32)"
    then show "bit (mapping_to_u32 x) n = bit f n"
      by (cases "n < 16")
        (auto simp: x mapping_to_u32_def mapping_from_u32_def bit_or_iff bit_push_bit_iff
          bit_unsigned_iff bit_drop_bit_eq)
  qed
  then show "True \<and> mapping_to_u32 x = f" by simp
qed simp

fun wf_transmission :: "transmission_type \<Rightarrow> bool" where
  "wf_transmission (SynchronousCyclic n) \<longleftrightarrow> 1 \<le> n \<and> n \<le> 240"
| "wf_transmission _ \<longleftrightarrow> True"

interpretation transmission_byte: exact_codec transmission_to_byte transmission_from_byte
  wf_transmission "\<lambda>_. True"
proof unfold_locales
  show "transmission_from_byte (transmission_to_byte x) = Inr x" if "wf_transmission x" for x
    using that by (cases x) (auto simp: transmission_from_byte_def)
  show "wf_transmission x \<and> transmission_to_byte x = f" if "transmission_from_byte f = Inr x" for f x
    using that by (auto simp: transmission_from_byte_def split: if_splits)
qed simp

lemma byte_width_Inr_iff:
  "byte_width b = Inr n \<longleftrightarrow> 0 < n \<and> unat b = 8 * n"
proof -
  have "b = 0 \<longleftrightarrow> unat b = 0" and "b mod 8 \<noteq> 0 \<longleftrightarrow> unat b mod 8 \<noteq> 0"
    and "unat (b div 8) = unat b div 8"
    by (simp_all add: word_unat_eq_iff unat_mod_distrib unat_div_distrib)
  then show ?thesis by (auto simp: byte_width_def)
qed


locale mapping_vec = bounded_vec V N
  for V :: "('p, mapping_entry) vec_ops" and N :: nat
begin

lemma mapping_push_bound:
  assumes "mapping_push V m e = Inr m'"
  shows "total_bits V m' = total_bits V m + unat (me_bit_length e)" and "total_bits V m' \<le> 64"
    and "entries V m' = entries V m @ [e]"
  using assms by (auto simp: mapping_push_def total_bits_def entries_def split: if_splits option.splits
      dest: slice_push)

lemma mapping_push_error:
  "mapping_push V m e = Inl err \<longleftrightarrow>
   (if total_bits V m + unat (me_bit_length e) > 64 then err = PdoTooLong
    else err = MappingFull \<and> N \<le> mapping_len V m)"
  using push_full [of "pm_entries m" e]
  by (cases "v_push V (pm_entries m) e") (auto simp: mapping_push_def mapping_len_def)

end

interpretation mappings: mapping_vec "list_ops N" N for N
  by unfold_locales

section \<open>Packing\<close>

text \<open>What an entry must meet to be packed from a dictionary, and the bytes it contributes.\<close>

definition packable :: "'m od_ops \<Rightarrow> 'm \<Rightarrow> mapping_entry \<Rightarrow> bool" where
  "packable M od e \<longleftrightarrow>
     (case (byte_width (me_bit_length e), od_read M od (me_address e)) of
        (Inr width, Inr v) \<Rightarrow> \<not> is_variable (data_type_of v) \<and> value_size v = width
      | _ \<Rightarrow> False)"

definition packed_value :: "'m od_ops \<Rightarrow> 'm \<Rightarrow> address \<Rightarrow> od_value" where
  "packed_value M od a = projr (od_read M od a)"

definition pack_payload :: "'m od_ops \<Rightarrow> 'm \<Rightarrow> mapping_entry list \<Rightarrow> u8 list" where
  "pack_payload M od es = concat (map (\<lambda>e. encode_payload (packed_value M od (me_address e))) es)"

lemma packable_iff:
  "packable M od e \<longleftrightarrow>
   (\<exists>v. od_read M od (me_address e) = Inr v \<and> \<not> is_variable (data_type_of v) \<and>
      0 < value_size v \<and> unat (me_bit_length e) = 8 * value_size v)"
proof (cases "byte_width (me_bit_length e)")
  case (Inl err)
  then have "\<not> (0 < n \<and> unat (me_bit_length e) = 8 * n)" for n
    using byte_width_Inr_iff [of "me_bit_length e" n] by simp
  with Inl show ?thesis by (auto simp: packable_def)
next
  case (Inr w)
  then have "0 < w" and "unat (me_bit_length e) = 8 * w" by (simp_all add: byte_width_Inr_iff)
  with Inr show ?thesis by (cases "od_read M od (me_address e)") (auto simp: packable_def)
qed

lemma od_read_wf_value: "wf_od M od \<Longrightarrow> od_read M od a = Inr v \<Longrightarrow> wf_value v"
  by (auto simp: od_read_def wf_od_def split: option.splits if_splits)

lemma length_pack_payload:
  "wf_od M od \<Longrightarrow> \<forall>e \<in> set es. packable M od e \<Longrightarrow> 8 * length (pack_payload M od es) = bits_of es"
  by (induction es)
    (auto simp: pack_payload_def packable_iff packed_value_def length_encode_payload od_read_wf_value)

lemma pack_entries_result:
  assumes "wf_od M od" and "8 * offset + bits_of es \<le> 8 * length buf"
  shows "\<exists>buf' r. pack_entries M od es offset buf = Done (buf', r) \<and> length buf' = length buf \<and>
    (case r of
       Inl err \<Rightarrow> \<not> (\<forall>e \<in> set es. packable M od e)
     | Inr n \<Rightarrow> (\<forall>e \<in> set es. packable M od e) \<and> n = offset + length (pack_payload M od es) \<and>
         buf' = take offset buf @ pack_payload M od es @ drop n buf)"
  using assms(2)
proof (induction es arbitrary: offset buf)
  case Nil
  then show ?case by (simp add: pack_payload_def)
next
  case (Cons e es)
  show ?case
  proof (cases "packable M od e")
    case False
    then show ?thesis using Cons.prems
      by (auto simp: packable_def split: sum.splits)
  next
    case True
    then obtain v where v: "od_read M od (me_address e) = Inr v" "\<not> is_variable (data_type_of v)"
      and w: "0 < value_size v" "unat (me_bit_length e) = 8 * value_size v"
      by (auto simp: packable_iff)
    define n where "n = value_size v"
    have bw: "byte_width (me_bit_length e) = Inr n" using w by (simp add: byte_width_Inr_iff n_def)
    have wf: "wf_value v" using od_read_wf_value [OF assms(1) v(1)] .
    have len: "length (encode_payload v) = n" using length_encode_payload [OF wf] by (simp add: n_def)
    have room: "offset + n \<le> length buf" using Cons.prems w by (simp add: n_def)
    have field: "subslice buf offset (offset + n) = Done (take n (drop offset buf))"
      using room by (simp add: subslice_def)
    have enc: "encode_le v (take n (drop offset buf)) = Inr (n, encode_payload v)"
      using encode_le_fits [OF wf, of "take n (drop offset buf)"] room by (simp add: n_def)
    let ?buf = "copy_at offset (encode_payload v) buf"
    have step: "pack_entries M od (e # es) offset buf = pack_entries M od es (offset + n) ?buf"
      using v bw field enc by (simp add: n_def)
    have "8 * (offset + n) + bits_of es \<le> 8 * length ?buf"
      using Cons.prems w room len by (simp add: n_def)
    from Cons.IH [OF this] obtain buf' r where
      r: "pack_entries M od es (offset + n) ?buf = Done (buf', r)" "length buf' = length ?buf"
      "case r of
         Inl err \<Rightarrow> \<not> (\<forall>e \<in> set es. packable M od e)
       | Inr k \<Rightarrow> (\<forall>e \<in> set es. packable M od e) \<and> k = offset + n + length (pack_payload M od es) \<and>
           buf' = take (offset + n) ?buf @ pack_payload M od es @ drop k ?buf" by blast
    have pay: "pack_payload M od (e # es) = encode_payload v @ pack_payload M od es"
      by (simp add: pack_payload_def packed_value_def v)
    have "take (offset + n) ?buf = take offset buf @ encode_payload v"
      and "drop (offset + n + k) ?buf = drop (offset + n + k) buf" for k
      using room len by (simp_all add: copy_at_def add.commute)
    with r True pay len room show ?thesis
      unfolding step by (intro exI [of _ buf'] exI [of _ r]) (cases r, auto)
  qed
qed

lemma total_bits_le: "total_bits P m \<le> 8 * total_bytes P m"
  by (simp add: total_bytes_def)

text \<open>Packing into an empty frame, as the node does it.\<close>

lemma pack_frame:
  assumes "wf_od M od" and "total_bits P m \<le> 64"
  shows "\<forall>e \<in> set (entries P m). packable M od e \<Longrightarrow>
      pack P M m od (zeros 8) =
        Done (pack_payload M od (entries P m) @ drop (total_bytes P m) (zeros 8), Inr (total_bytes P m)) \<and>
      length (pack_payload M od (entries P m)) = total_bytes P m"
    and "\<not> (\<forall>e \<in> set (entries P m). packable M od e) \<Longrightarrow>
      \<exists>buf err. pack P M m od (zeros 8) = Done (buf, Inl err)"
    and "total_bytes P m \<le> 8"
proof -
  let ?es = "entries P m"
  show le: "total_bytes P m \<le> 8" using assms(2) by (simp add: total_bytes_def)
  have "8 * 0 + bits_of ?es \<le> 8 * length (zeros 8)" using assms(2) by (simp add: total_bits_def)
  from pack_entries_result [OF assms(1) this] obtain buf r where
    r: "pack_entries M od ?es 0 (zeros 8) = Done (buf, r)"
      "case r of Inl err \<Rightarrow> \<not> (\<forall>e \<in> set ?es. packable M od e)
       | Inr n \<Rightarrow> (\<forall>e \<in> set ?es. packable M od e) \<and> n = 0 + length (pack_payload M od ?es) \<and>
           buf = take 0 (zeros 8) @ pack_payload M od ?es @ drop n (zeros 8)" by blast
  have pack: "pack P M m od (zeros 8) = Done (buf, r)" using r(1) le by (simp add: pack_def)
  show "pack P M m od (zeros 8) =
        Done (pack_payload M od ?es @ drop (total_bytes P m) (zeros 8), Inr (total_bytes P m)) \<and>
      length (pack_payload M od ?es) = total_bytes P m"
    if ok: "\<forall>e \<in> set ?es. packable M od e"
  proof -
    have "length (pack_payload M od ?es) = total_bytes P m"
      using length_pack_payload [OF assms(1) ok] by (simp add: total_bytes_def total_bits_def)
    then show ?thesis using pack r(2) ok by (cases r) auto
  qed
  show "\<exists>buf err. pack P M m od (zeros 8) = Done (buf, Inl err)"
    if "\<not> (\<forall>e \<in> set ?es. packable M od e)"
    using pack r(2) that by (cases r) auto
qed

text \<open>Packing never panics for any mapping, dictionary and buffer. It succeeds exactly when the
  buffer is long enough and every mapped object is readable and of a fixed-size type whose width is
  the entry's; then the frame is the little-endian bytes of the mapped values in mapping order, and
  the rest of the buffer is untouched.\<close>

lemma pack_correct:
  assumes "wf_od M od"
  shows "\<exists>buf' r. pack P M m od buf = Done (buf', r) \<and> length buf' = length buf \<and>
    (case r of
       Inl err \<Rightarrow> length buf < total_bytes P m \<or> \<not> (\<forall>e \<in> set (entries P m). packable M od e)
     | Inr n \<Rightarrow> total_bytes P m \<le> length buf \<and> (\<forall>e \<in> set (entries P m). packable M od e) \<and>
         n = total_bytes P m \<and> buf' = pack_payload M od (entries P m) @ drop n buf)"
proof (cases "length buf < total_bytes P m")
  case True
  then show ?thesis by (simp add: pack_def)
next
  case False
  then have "8 * 0 + bits_of (entries P m) \<le> 8 * length buf"
    using total_bits_le [of P m] by (simp add: total_bits_def)
  from pack_entries_result [OF assms this] obtain buf' r where
    r: "pack_entries M od (entries P m) 0 buf = Done (buf', r)" "length buf' = length buf"
    "case r of Inl err \<Rightarrow> \<not> (\<forall>e \<in> set (entries P m). packable M od e)
     | Inr n \<Rightarrow> (\<forall>e \<in> set (entries P m). packable M od e) \<and>
         n = 0 + length (pack_payload M od (entries P m)) \<and>
         buf' = take 0 buf @ pack_payload M od (entries P m) @ drop n buf" by blast
  have "length (pack_payload M od (entries P m)) = total_bytes P m"
    if "\<forall>e \<in> set (entries P m). packable M od e"
    using length_pack_payload [OF assms that] by (simp add: total_bytes_def total_bits_def)
  with r False show ?thesis by (cases r) (auto simp: pack_def)
qed

section \<open>Unpacking\<close>

text \<open>
  Which entries a dictionary accepts, and what a sequence of accepted writes leaves behind: the
  last value written to an address.
\<close>

definition accepts :: "'m od_ops \<Rightarrow> 'm \<Rightarrow> mapping_entry \<Rightarrow> od_value \<Rightarrow> bool" where
  "accepts M od e v \<longleftrightarrow>
     wf_value v \<and> \<not> is_variable (data_type_of v) \<and> unat (me_bit_length e) = 8 * value_size v \<and>
     (case lm_get M od (me_address e) of
        Some x \<Rightarrow> is_writable (e_access x) \<and> data_type_of (e_value x) = data_type_of v
      | None \<Rightarrow> False)"

fun overlay :: "(address \<rightharpoonup> entry) \<Rightarrow> (address \<times> od_value) list \<Rightarrow> address \<rightharpoonup> entry" where
  "overlay f [] = f"
| "overlay f ((a, v) # ws) = overlay (f(a := map_option (\<lambda>x. x\<lparr>e_value := v\<rparr>) (f a))) ws"

lemma value_size_pos: "\<not> is_variable (data_type_of v) \<Longrightarrow> 0 < value_size v"
  by (cases v) (auto simp: is_variable_def value_size_def type_size_def)

lemma type_size_value: "\<not> is_variable (data_type_of v) \<Longrightarrow> type_size (data_type_of v) = value_size v"
  by (cases v) (auto simp: is_variable_def value_size_def type_size_def)

context object_map
begin

lemma unpack_entries_safe:
  assumes "8 * offset + bits_of es \<le> 8 * length data" and "wf_od M od"
  shows "\<exists>od' r. unpack_entries M es offset data od = Done (od', r) \<and>
    wf_od M od' \<and> od_schema M od' = od_schema M od \<and>
    (\<forall>a. a \<notin> me_address ` set es \<or> (\<forall>x. lm_get M od a = Some x \<longrightarrow> \<not> is_writable (e_access x)) \<longrightarrow>
      lm_get M od' a = lm_get M od a)"
  using assms
proof (induction es arbitrary: offset od)
  case Nil
  then show ?case by simp
next
  case (Cons e es)
  show ?case
  proof (cases "\<exists>w x v od'. byte_width (me_bit_length e) = Inr w \<and>
      lm_get M od (me_address e) = Some x \<and> type_size (data_type_of (e_value x)) = w \<and>
      decode_le (data_type_of (e_value x)) (take w (drop offset data)) = Inr v \<and>
      od_write M od (me_address e) v = Inr od'")
    case True
    then obtain w x v od1 where w: "byte_width (me_bit_length e) = Inr w"
      and x: "lm_get M od (me_address e) = Some x" "type_size (data_type_of (e_value x)) = w"
      and v: "decode_le (data_type_of (e_value x)) (take w (drop offset data)) = Inr v"
      and od1: "od_write M od (me_address e) v = Inr od1" by blast
    have bits: "unat (me_bit_length e) = 8 * w" using w by (simp add: byte_width_Inr_iff)
    then have room: "offset + w \<le> length data" using Cons.prems(1) by simp
    have step: "unpack_entries M (e # es) offset data od = unpack_entries M es (offset + w) data od1"
      using w x v od1 room by (simp add: od_entry_def subslice_def)
    have wf1: "wf_od M od1"
      using od_write_wf [OF od1] decode_le_sound [OF v] Cons.prems(2) by blast
    have "8 * (offset + w) + bits_of es \<le> 8 * length data" using Cons.prems(1) bits by simp
    from Cons.IH [OF this wf1] obtain od' r where
      IH: "unpack_entries M es (offset + w) data od1 = Done (od', r)" "wf_od M od'"
      "od_schema M od' = od_schema M od1"
      "\<And>a. a \<notin> me_address ` set es \<or> (\<forall>x. lm_get M od1 a = Some x \<longrightarrow> \<not> is_writable (e_access x)) \<Longrightarrow>
        lm_get M od' a = lm_get M od1 a" by blast
    obtain y where y: "lm_get M od (me_address e) = Some y" "is_writable (e_access y)"
      "lm_get M od1 = (lm_get M od)(me_address e \<mapsto> y\<lparr>e_value := v\<rparr>)"
      using od_get_write [OF od1] by blast
    have keep: "lm_get M od' a = lm_get M od a"
      if "a \<notin> me_address ` set (e # es) \<or> (\<forall>x. lm_get M od a = Some x \<longrightarrow> \<not> is_writable (e_access x))"
      for a
    proof -
      have "a \<noteq> me_address e" using that y by auto
      then show ?thesis using that IH(4) [of a] y(3) by auto
    qed
    show ?thesis
      unfolding step using IH(1,2,3) keep od_write_schema [OF od1] by auto
  next
    case False
    have room: "offset + w \<le> length data" if "byte_width (me_bit_length e) = Inr w" for w
      using that Cons.prems(1) by (simp add: byte_width_Inr_iff)
    have "\<exists>r. unpack_entries M (e # es) offset data od = Done (od, r)"
      using False room
      by (auto simp: od_entry_def Let_def subslice_def split: sum.splits option.splits)
    with Cons.prems(2) show ?thesis by auto
  qed
qed

lemma unpack_entries_accepted:
  assumes "list_all2 (accepts M od) es vs" and "8 * offset + bits_of es \<le> 8 * length data"
    and "take (length (concat (map encode_payload vs))) (drop offset data) =
      concat (map encode_payload vs)"
  shows "\<exists>od'. unpack_entries M es offset data od = Done (od', Inr ()) \<and>
    lm_get M od' = overlay (lm_get M od) (zip (map me_address es) vs)"
  using assms
proof (induction es arbitrary: vs offset od)
  case Nil
  then show ?case by simp
next
  case (Cons e es)
  then obtain v vs' where vs: "vs = v # vs'" and acc: "accepts M od e v"
    and rest: "list_all2 (accepts M od) es vs'" by (auto simp: list_all2_Cons1)
  from acc obtain x where wf: "wf_value v" "\<not> is_variable (data_type_of v)"
    and bits: "unat (me_bit_length e) = 8 * value_size v"
    and x: "lm_get M od (me_address e) = Some x" "is_writable (e_access x)"
      "data_type_of (e_value x) = data_type_of v"
    by (auto simp: accepts_def split: option.splits)
  define n where "n = value_size v"
  have bw: "byte_width (me_bit_length e) = Inr n"
    using bits value_size_pos [OF wf(2)] by (simp add: byte_width_Inr_iff n_def)
  have len: "length (encode_payload v) = n" by (simp add: length_encode_payload wf n_def)
  have room: "offset + n \<le> length data" using Cons.prems(2) bits by (simp add: n_def)
  have split: "take n (drop offset data) = encode_payload v \<and>
      take (length (concat (map encode_payload vs'))) (drop (offset + n) data) =
        concat (map encode_payload vs')"
    using Cons.prems(3) len room
    by (auto simp: vs take_add append_eq_append_conv add.commute)
  have dec: "decode_le (data_type_of v) (encode_payload v) = Inr v"
    by (rule decode_le_encode_payload [OF wf(1)])
  obtain od1 where od1: "od_write M od (me_address e) v = Inr od1"
    using x by (auto simp: od_write_def)
  have get1: "lm_get M od1 = (lm_get M od)(me_address e \<mapsto> x\<lparr>e_value := v\<rparr>)"
    using od_get_write [OF od1] x(1) by auto
  have step: "unpack_entries M (e # es) offset data od = unpack_entries M es (offset + n) data od1"
    using bw x room split dec od1 type_size_value [OF wf(2)]
    by (simp add: od_entry_def subslice_def n_def)
  have "list_all2 (accepts M od1) es vs'"
    using rest by (rule list_all2_mono)
      (use x in \<open>auto simp: accepts_def get1 split: option.splits if_splits\<close>)
  moreover have "8 * (offset + n) + bits_of es \<le> 8 * length data"
    using Cons.prems(2) bits by (simp add: n_def)
  ultimately obtain od' where "unpack_entries M es (offset + n) data od1 = Done (od', Inr ())"
    "lm_get M od' = overlay (lm_get M od1) (zip (map me_address es) vs')"
    using Cons.IH [of od1 vs' "offset + n"] split by blast
  then show ?case using x(1) unfolding step by (simp add: vs get1)
qed

end

lemma overlay_functional:
  assumes "\<forall>(a, v) \<in> set ws. v = g a"
  shows "overlay f ws a =
    (if a \<in> fst ` set ws then map_option (\<lambda>x. x\<lparr>e_value := g a\<rparr>) (f a) else f a)"
  using assms
proof (induction ws arbitrary: f)
  case Nil
  then show ?case by simp
next
  case (Cons w ws)
  then show ?case by (cases w) (auto simp: option.map_comp comp_def split: if_splits)
qed


context object_map
begin

lemma unpack_safe:
  assumes "wf_od M od"
  shows "\<exists>od' r. unpack P M m od data = Done (od', r) \<and> wf_od M od' \<and>
    od_schema M od' = od_schema M od \<and>
    (\<forall>a. a \<notin> me_address ` set (entries P m) \<or>
         (\<forall>x. lm_get M od a = Some x \<longrightarrow> \<not> is_writable (e_access x)) \<longrightarrow>
      lm_get M od' a = lm_get M od a)"
proof (cases "length data < total_bytes P m")
  case True
  with assms show ?thesis by (auto simp: unpack_def)
next
  case False
  then have "8 * 0 + bits_of (entries P m) \<le> 8 * length data"
    using total_bits_le [of P m] by (simp add: total_bits_def)
  from unpack_entries_safe [OF this assms] show ?thesis using False by (simp add: unpack_def)
qed

text \<open>A PDO carries the mapped values from one device to another: when producer and consumer use
  the same mapping, every mapped object is packable on one side and writable with the same type on
  the other, then packing gives a frame of the mapping's length that the consumer unpacks, after
  which each mapped object holds the producer's value and no other object has changed.\<close>

lemma pdo_transfer_into:
  assumes "wf_od MA odA" and "total_bits P m \<le> 64"
    and "\<forall>e \<in> set (entries P m). packable MA odA e \<and>
      (\<exists>x. lm_get M od (me_address e) = Some x \<and> is_writable (e_access x) \<and>
        data_type_of (e_value x) = data_type_of (packed_value MA odA (me_address e)))"
  shows "\<exists>buf n od'. pack P MA m odA (zeros 8) = Done (buf, Inr n) \<and> n = total_bytes P m \<and>
    unpack P M m od (take n buf) = Done (od', Inr ()) \<and>
    (\<forall>a. lm_get M od' a =
      (if a \<in> me_address ` set (entries P m)
       then map_option (\<lambda>x. x\<lparr>e_value := packed_value MA odA a\<rparr>) (lm_get M od a)
       else lm_get M od a))"
proof -
  let ?es = "entries P m" and ?val = "packed_value MA odA"
  let ?vs = "map (\<lambda>e. ?val (me_address e)) ?es"
  have ok: "\<forall>e \<in> set ?es. packable MA odA e" using assms(3) by blast
  have pay: "pack_payload MA odA ?es = concat (map encode_payload ?vs)"
    by (simp add: pack_payload_def comp_def)
  have bits: "8 * length (pack_payload MA odA ?es) = total_bits P m"
    using length_pack_payload [OF assms(1) ok] by (simp add: total_bits_def)
  then have len: "length (pack_payload MA odA ?es) = total_bytes P m"
    by (simp add: total_bytes_def)
  have packed: "pack P MA m odA (zeros 8) =
      Done (pack_payload MA odA ?es @ drop (total_bytes P m) (zeros 8), Inr (total_bytes P m))"
    using pack_frame(1) [OF assms(1,2) ok] by blast
  have acc: "accepts M od e (?val (me_address e))" if e: "e \<in> set ?es" for e
  proof -
    from ok e obtain v where v: "od_read MA odA (me_address e) = Inr v"
      "\<not> is_variable (data_type_of v)" "unat (me_bit_length e) = 8 * value_size v"
      by (auto simp: packable_iff)
    then have "?val (me_address e) = v" by (simp add: packed_value_def)
    with v assms(3) e od_read_wf_value [OF assms(1) v(1)] show ?thesis
      by (fastforce simp: accepts_def)
  qed
  then have "list_all2 (accepts M od) ?es ?vs"
    by (simp add: list_all2_conv_all_nth)
  moreover have "8 * 0 + bits_of ?es \<le> 8 * length (pack_payload MA odA ?es)"
    using bits by (simp add: total_bits_def)
  ultimately obtain od' where
    od': "unpack_entries M ?es 0 (pack_payload MA odA ?es) od = Done (od', Inr ())"
    "lm_get M od' = overlay (lm_get M od) (zip (map me_address ?es) ?vs)"
    using unpack_entries_accepted [of od ?es ?vs 0 "pack_payload MA odA ?es"] pay by auto
  have zip: "zip (map me_address ?es) ?vs = map (\<lambda>e. (me_address e, ?val (me_address e))) ?es"
    by (simp add: zip_map_map zip_same_conv_map)
  have "lm_get M od' a = (if a \<in> me_address ` set ?es
      then map_option (\<lambda>x. x\<lparr>e_value := ?val a\<rparr>) (lm_get M od a) else lm_get M od a)" for a
    using overlay_functional [of "zip (map me_address ?es) ?vs" ?val "lm_get M od" a]
    unfolding zip by (auto simp: od'(2) zip image_image)
  with packed od'(1) len show ?thesis by (auto simp: unpack_def)
qed

end

text \<open>Unpacking a received frame never panics, whatever the mapping, the dictionary and the
  frame. Whether it succeeds or stops at a bad entry, it keeps every data type and access right and
  changes no object that is unmapped or not writable.\<close>

lemma unpack_preserves:
  assumes "object_map M N" and "wf_od M od"
  shows "\<exists>od' r. unpack P M m od data = Done (od', r) \<and> wf_od M od' \<and>
    od_schema M od' = od_schema M od \<and>
    (\<forall>a. a \<notin> me_address ` set (entries P m) \<or>
         (\<forall>x. lm_get M od a = Some x \<longrightarrow> \<not> is_writable (e_access x)) \<longrightarrow>
      lm_get M od' a = lm_get M od a)"
  by (rule object_map.unpack_safe [OF assms])

text \<open>A mapping built by \<open>push\<close> never exceeds the 64 bits of a frame: an entry is appended at the
  end exactly when it fits in both the frame and the capacity, and refused with the right error
  otherwise.\<close>

theorem mapping_push_result:
  assumes "mapping_vec P N"
  shows "case mapping_push P m e of
     Inl err \<Rightarrow> (if total_bits P m + unat (me_bit_length e) > 64 then err = PdoTooLong
                 else err = MappingFull \<and> N \<le> mapping_len P m)
   | Inr m' \<Rightarrow> entries P m' = entries P m @ [e] \<and> total_bits P m' \<le> 64"
proof (cases "mapping_push P m e")
  case (Inl err)
  then have "if total_bits P m + unat (me_bit_length e) > 64 then err = PdoTooLong
      else err = MappingFull \<and> N \<le> mapping_len P m"
    using mapping_vec.mapping_push_error [OF assms, of m e err] by blast
  then show ?thesis by (simp add: Inl)
next
  case (Inr m')
  then show ?thesis
    unfolding Inr using mapping_vec.mapping_push_bound [OF assms Inr] by simp
qed

end
