(* ===== verification/Lss.thy ===== *)
theory Lss
  imports Types
begin

text \<open>
  \<^verbatim>\<open>core/src/lss.rs\<close>: the LSS frames, the node-side state machine and the Fastscan master. The
  theorems show that a selective switch reaches exactly the addressed node, when a node-id is
  accepted, and that a Fastscan finds the address of an unconfigured node in 133 requests.
\<close>

section \<open>Frames\<close>

abbreviation (input) LSS_MASTER_COB_ID :: u16 where "LSS_MASTER_COB_ID \<equiv> 0x7E5"
abbreviation (input) LSS_SLAVE_COB_ID :: u16 where "LSS_SLAVE_COB_ID \<equiv> 0x7E4"
abbreviation (input) UNCONFIGURED_NODE_ID :: u8 where "UNCONFIGURED_NODE_ID \<equiv> 0xFF"
abbreviation (input) CS_SWITCH_GLOBAL :: u8 where "CS_SWITCH_GLOBAL \<equiv> 0x04"
abbreviation (input) CS_CONFIGURE_NODE_ID :: u8 where "CS_CONFIGURE_NODE_ID \<equiv> 0x11"
abbreviation (input) CS_STORE_CONFIGURATION :: u8 where "CS_STORE_CONFIGURATION \<equiv> 0x17"
abbreviation (input) CS_SWITCH_SELECTIVE_VENDOR :: u8 where "CS_SWITCH_SELECTIVE_VENDOR \<equiv> 0x40"
abbreviation (input) CS_SWITCH_SELECTIVE_PRODUCT :: u8 where "CS_SWITCH_SELECTIVE_PRODUCT \<equiv> 0x41"
abbreviation (input) CS_SWITCH_SELECTIVE_REVISION :: u8 where "CS_SWITCH_SELECTIVE_REVISION \<equiv> 0x42"
abbreviation (input) CS_SWITCH_SELECTIVE_SERIAL :: u8 where "CS_SWITCH_SELECTIVE_SERIAL \<equiv> 0x43"
abbreviation (input) CS_SWITCH_SELECTIVE_RESPONSE :: u8 where "CS_SWITCH_SELECTIVE_RESPONSE \<equiv> 0x44"
abbreviation (input) CS_INQUIRE_VENDOR :: u8 where "CS_INQUIRE_VENDOR \<equiv> 0x5A"
abbreviation (input) CS_INQUIRE_PRODUCT :: u8 where "CS_INQUIRE_PRODUCT \<equiv> 0x5B"
abbreviation (input) CS_INQUIRE_REVISION :: u8 where "CS_INQUIRE_REVISION \<equiv> 0x5C"
abbreviation (input) CS_INQUIRE_SERIAL :: u8 where "CS_INQUIRE_SERIAL \<equiv> 0x5D"
abbreviation (input) CS_INQUIRE_NODE_ID :: u8 where "CS_INQUIRE_NODE_ID \<equiv> 0x5E"
abbreviation (input) CS_IDENTIFY_SLAVE :: u8 where "CS_IDENTIFY_SLAVE \<equiv> 0x4F"
abbreviation (input) CS_FASTSCAN :: u8 where "CS_FASTSCAN \<equiv> 0x51"
abbreviation (input) MODE_WAITING :: u8 where "MODE_WAITING \<equiv> 0"
abbreviation (input) MODE_CONFIGURATION :: u8 where "MODE_CONFIGURATION \<equiv> 1"
abbreviation (input) FASTSCAN_INIT :: u8 where "FASTSCAN_INIT \<equiv> 32"

type_synonym lss_frame = "u8 list"

record lss_address =
  vendor_id :: u32
  product_code :: u32
  revision_number :: u32
  serial_number :: u32

datatype lss_state = Waiting | Configuration

definition lss_frame_cs :: "u8 \<Rightarrow> lss_frame" where
  "lss_frame_cs cs = (zeros 8)[0 := cs]"

definition frame_u32 :: "u8 \<Rightarrow> u32 \<Rightarrow> lss_frame" where
  "frame_u32 cs v = copy_at 1 (le_bytes 4 v) (lss_frame_cs cs)"

definition u32_at :: "lss_frame \<Rightarrow> u32" where
  "u32_at f = from_le [f ! 1, f ! 2, f ! 3, f ! 4]"

definition encode_switch_global :: "bool \<Rightarrow> lss_frame" where
  "encode_switch_global configuration =
     (lss_frame_cs CS_SWITCH_GLOBAL)[1 := if configuration then MODE_CONFIGURATION else MODE_WAITING]"

definition encode_switch_selective :: "lss_address \<Rightarrow> lss_frame list" where
  "encode_switch_selective a =
     [frame_u32 CS_SWITCH_SELECTIVE_VENDOR (vendor_id a),
      frame_u32 CS_SWITCH_SELECTIVE_PRODUCT (product_code a),
      frame_u32 CS_SWITCH_SELECTIVE_REVISION (revision_number a),
      frame_u32 CS_SWITCH_SELECTIVE_SERIAL (serial_number a)]"

definition encode_configure_node_id :: "u8 \<Rightarrow> lss_frame" where
  "encode_configure_node_id n = (lss_frame_cs CS_CONFIGURE_NODE_ID)[1 := n]"

definition encode_store :: lss_frame where
  "encode_store = lss_frame_cs CS_STORE_CONFIGURATION"

definition encode_inquire_node_id :: lss_frame where
  "encode_inquire_node_id = lss_frame_cs CS_INQUIRE_NODE_ID"

definition is_switch_selective_response :: "lss_frame \<Rightarrow> bool" where
  "is_switch_selective_response r \<longleftrightarrow> r ! 0 = CS_SWITCH_SELECTIVE_RESPONSE"

definition decode_configure_node_id_response :: "lss_frame \<Rightarrow> (u8 + unit) option" where
  "decode_configure_node_id_response r =
     (if r ! 0 \<noteq> CS_CONFIGURE_NODE_ID then None
      else Some (if r ! 1 = 0 then Inr () else Inl (r ! 1)))"

definition decode_inquire_node_id_response :: "lss_frame \<Rightarrow> u8 option" where
  "decode_inquire_node_id_response r =
     (if r ! 0 = CS_INQUIRE_NODE_ID then Some (r ! 1) else None)"

definition encode_fastscan :: "u32 \<Rightarrow> u8 \<Rightarrow> u8 \<Rightarrow> u8 \<Rightarrow> lss_frame" where
  "encode_fastscan id_number bit_check lss_sub lss_next =
     (frame_u32 CS_FASTSCAN id_number)[5 := bit_check, 6 := lss_sub, 7 := lss_next]"

definition is_identify_slave_response :: "lss_frame \<Rightarrow> bool" where
  "is_identify_slave_response r \<longleftrightarrow> r ! 0 = CS_IDENTIFY_SLAVE"

section \<open>FastscanMaster\<close>

record fastscan_master =
  fm_id :: "u32 list"
  fm_sub :: u8
  fm_bit :: int
  fm_found :: bool

definition fastscan_new :: fastscan_master where
  "fastscan_new = \<lparr>fm_id = [0, 0, 0, 0], fm_sub = 0, fm_bit = -2, fm_found = False\<rparr>"

definition fm_next_request :: "fastscan_master \<Rightarrow> lss_frame option" where
  "fm_next_request m =
     (if fm_sub m > 3 then None
      else
        let sub = fm_sub m; idx = unat sub in
        Some (if fm_bit m = -2 then encode_fastscan 0 FASTSCAN_INIT 0 0
              else if fm_bit m = -1
                then encode_fastscan (fm_id m ! idx) 0 sub ((sub + 1) AND 3)
              else encode_fastscan (fm_id m ! idx) (word_of_int (fm_bit m)) sub sub))"

text \<open>Indexing \<open>id\<close> panics when \<open>sub\<close> is 4, that is, when the scan is over, and \<open>sub\<close> overflows at 255.\<close>

definition fm_on_response :: "fastscan_master \<Rightarrow> bool \<Rightarrow> fastscan_master run" where
  "fm_on_response m responded =
     (if fm_bit m = -2 then
        Done (if responded then m\<lparr>fm_found := True, fm_bit := 31\<rparr> else m\<lparr>fm_sub := 4\<rparr>)
      else if fm_bit m = -1 then
        (if fm_sub m = 255 then Panic else Done (m\<lparr>fm_sub := fm_sub m + 1, fm_bit := 31\<rparr>))
      else
        let idx = unat (fm_sub m);
            b = nat (fm_bit m)
        in if \<not> responded then
             (if idx < length (fm_id m)
              then Done (m\<lparr>fm_id := (fm_id m)[idx := fm_id m ! idx OR push_bit b 1],
                           fm_bit := fm_bit m - 1\<rparr>)
              else Panic)
           else Done (m\<lparr>fm_bit := fm_bit m - 1\<rparr>))"

definition fm_is_complete :: "fastscan_master \<Rightarrow> bool" where
  "fm_is_complete m \<longleftrightarrow> fm_sub m > 3"

definition fm_address :: "fastscan_master \<Rightarrow> lss_address" where
  "fm_address m = \<lparr>vendor_id = fm_id m ! 0, product_code = fm_id m ! 1,
                   revision_number = fm_id m ! 2, serial_number = fm_id m ! 3\<rparr>"

section \<open>LssSlave\<close>

record lss_slave =
  ls_address :: lss_address
  ls_node_id :: u8
  ls_pending_node_id :: u8
  ls_state :: lss_state
  ls_selective :: u8
  ls_fs_sub :: u8

definition lss_slave_new :: "lss_address \<Rightarrow> u8 \<Rightarrow> lss_slave" where
  "lss_slave_new a n =
     \<lparr>ls_address = a, ls_node_id = n, ls_pending_node_id = n, ls_state = Waiting,
      ls_selective = 0, ls_fs_sub = 0\<rparr>"

definition identity :: "lss_slave \<Rightarrow> u8 \<Rightarrow> u32" where
  "identity s sub =
     (if sub = 0 then vendor_id (ls_address s)
      else if sub = 1 then product_code (ls_address s)
      else if sub = 2 then revision_number (ls_address s)
      else serial_number (ls_address s))"

definition handle_fastscan :: "lss_slave \<Rightarrow> lss_frame \<Rightarrow> lss_slave \<times> lss_frame option" where
  "handle_fastscan s req =
     (if ls_node_id s \<noteq> UNCONFIGURED_NODE_ID \<or> ls_state s \<noteq> Waiting then (s, None)
      else
        let id_number = u32_at req; bit_check = req ! 5; lss_sub = req ! 6; lss_next = req ! 7 in
        if bit_check \<ge> FASTSCAN_INIT
        then (s\<lparr>ls_fs_sub := 0\<rparr>, Some (lss_frame_cs CS_IDENTIFY_SLAVE))
        else if lss_sub \<noteq> ls_fs_sub s then (s, None)
        else
          let mask = push_bit (unat bit_check) 0xFFFFFFFF in
          if (id_number XOR identity s lss_sub) AND mask \<noteq> 0 then (s, None)
          else
            ((if bit_check = 0 \<and> lss_next \<noteq> lss_sub
              then (if lss_sub \<ge> 3 then s\<lparr>ls_state := Configuration\<rparr>
                    else s\<lparr>ls_fs_sub := lss_next\<rparr>)
              else s),
             Some (lss_frame_cs CS_IDENTIFY_SLAVE)))"

definition adopt_pending :: "lss_slave \<Rightarrow> lss_slave" where
  "adopt_pending s = s\<lparr>ls_node_id := ls_pending_node_id s\<rparr>"

definition lss_handle :: "lss_slave \<Rightarrow> lss_frame \<Rightarrow> lss_slave \<times> lss_frame option" where
  "lss_handle s req =
     (let configuring = (ls_state s = Configuration); cs = req ! 0 in
      if cs = CS_SWITCH_GLOBAL then
        (s\<lparr>ls_selective := 0,
           ls_state := if req ! 1 = MODE_CONFIGURATION then Configuration else Waiting\<rparr>, None)
      else if cs = CS_SWITCH_SELECTIVE_VENDOR then
        (s\<lparr>ls_selective := if u32_at req = vendor_id (ls_address s) then 1 else 0\<rparr>, None)
      else if cs = CS_SWITCH_SELECTIVE_PRODUCT then
        (s\<lparr>ls_selective :=
             if ls_selective s = 1 \<and> u32_at req = product_code (ls_address s) then 2 else 0\<rparr>, None)
      else if cs = CS_SWITCH_SELECTIVE_REVISION then
        (s\<lparr>ls_selective :=
             if ls_selective s = 2 \<and> u32_at req = revision_number (ls_address s) then 3 else 0\<rparr>, None)
      else if cs = CS_SWITCH_SELECTIVE_SERIAL then
        (if ls_selective s = 3 \<and> u32_at req = serial_number (ls_address s)
         then (s\<lparr>ls_selective := 0, ls_state := Configuration\<rparr>,
               Some (lss_frame_cs CS_SWITCH_SELECTIVE_RESPONSE))
         else (s\<lparr>ls_selective := 0\<rparr>, None))
      else if cs = CS_CONFIGURE_NODE_ID \<and> configuring then
        (let i = req ! 1;
             ok = (1 \<le> i \<and> i \<le> 127) \<or> i = UNCONFIGURED_NODE_ID
         in (if ok then s\<lparr>ls_pending_node_id := i\<rparr> else s,
             Some ((lss_frame_cs CS_CONFIGURE_NODE_ID)[1 := if ok then 0 else 1])))
      else if cs = CS_STORE_CONFIGURATION \<and> configuring then
        (s, Some (lss_frame_cs CS_STORE_CONFIGURATION))
      else if cs = CS_INQUIRE_NODE_ID \<and> configuring then
        (s, Some ((lss_frame_cs CS_INQUIRE_NODE_ID)[1 := ls_node_id s]))
      else if cs = CS_INQUIRE_VENDOR \<and> configuring then
        (s, Some (frame_u32 CS_INQUIRE_VENDOR (vendor_id (ls_address s))))
      else if cs = CS_INQUIRE_PRODUCT \<and> configuring then
        (s, Some (frame_u32 CS_INQUIRE_PRODUCT (product_code (ls_address s))))
      else if cs = CS_INQUIRE_REVISION \<and> configuring then
        (s, Some (frame_u32 CS_INQUIRE_REVISION (revision_number (ls_address s))))
      else if cs = CS_INQUIRE_SERIAL \<and> configuring then
        (s, Some (frame_u32 CS_INQUIRE_SERIAL (serial_number (ls_address s))))
      else if cs = CS_FASTSCAN then handle_fastscan s req
      else (s, None))"

section \<open>The shape of the frames\<close>

lemma lss_frame_cs_frame [frame_simps]: "lss_frame_cs cs = [cs, 0, 0, 0, 0, 0, 0, 0]"
  by (simp add: lss_frame_cs_def frame_simps)

lemma frame_u32_frame [frame_simps]:
  "frame_u32 cs v = [cs, ucast v, ucast (drop_bit 8 v), ucast (drop_bit 16 v),
     ucast (drop_bit 24 v), 0, 0, 0]"
  by (simp add: frame_u32_def copy_at_def frame_simps)

lemma u32_at_frame [frame_simps]:
  "u32_at (cs # ucast v # ucast (drop_bit 8 v) # ucast (drop_bit 16 v) # ucast (drop_bit 24 v) # rest) = v"
  by (simp add: u32_at_def)

lemma encode_fastscan_frame [frame_simps]:
  "encode_fastscan v b s n = [0x51, ucast v, ucast (drop_bit 8 v), ucast (drop_bit 16 v),
     ucast (drop_bit 24 v), b, s, n]"
  by (simp add: encode_fastscan_def frame_simps)


section \<open>Selective switching and node-id assignment\<close>

fun lss_run :: "lss_slave \<Rightarrow> lss_frame list \<Rightarrow> lss_slave \<times> lss_frame option list" where
  "lss_run s [] = (s, [])"
| "lss_run s (f # fs) =
     (let (s1, r) = lss_handle s f; (s2, rs) = lss_run s1 fs in (s2, r # rs))"

lemma lss_handle_selective:
  "lss_handle s (frame_u32 CS_SWITCH_SELECTIVE_VENDOR v) =
     (s\<lparr>ls_selective := if v = vendor_id (ls_address s) then 1 else 0\<rparr>, None)"
  "lss_handle s (frame_u32 CS_SWITCH_SELECTIVE_PRODUCT v) =
     (s\<lparr>ls_selective :=
          if ls_selective s = 1 \<and> v = product_code (ls_address s) then 2 else 0\<rparr>, None)"
  "lss_handle s (frame_u32 CS_SWITCH_SELECTIVE_REVISION v) =
     (s\<lparr>ls_selective :=
          if ls_selective s = 2 \<and> v = revision_number (ls_address s) then 3 else 0\<rparr>, None)"
  "lss_handle s (frame_u32 CS_SWITCH_SELECTIVE_SERIAL v) =
     (if ls_selective s = 3 \<and> v = serial_number (ls_address s)
      then (s\<lparr>ls_selective := 0, ls_state := Configuration\<rparr>,
            Some (lss_frame_cs CS_SWITCH_SELECTIVE_RESPONSE))
      else (s\<lparr>ls_selective := 0\<rparr>, None))"
  by (simp_all add: lss_handle_def frame_u32_frame u32_at_frame Let_def)

text \<open>C23: The four selective-switch frames put a node into the configuration state and draw the
  confirmation exactly when all four identity values are the node's own; every other node stays in
  its state and is silent.\<close>

theorem lss_selective_exact:
  "lss_run s (encode_switch_selective a) =
     (s\<lparr>ls_selective := 0, ls_state := if a = ls_address s then Configuration else ls_state s\<rparr>,
      [None, None, None,
       if a = ls_address s then Some (lss_frame_cs CS_SWITCH_SELECTIVE_RESPONSE) else None])"
proof -
  have a: "a = ls_address s \<longleftrightarrow> vendor_id a = vendor_id (ls_address s) \<and>
      product_code a = product_code (ls_address s) \<and>
      revision_number a = revision_number (ls_address s) \<and>
      serial_number a = serial_number (ls_address s)"
    by (cases a; cases "ls_address s") simp
  show ?thesis
    unfolding a
    by (cases "vendor_id a = vendor_id (ls_address s)";
        cases "product_code a = product_code (ls_address s)";
        cases "revision_number a = revision_number (ls_address s)";
        cases "serial_number a = serial_number (ls_address s)")
      (simp_all add: encode_switch_selective_def lss_handle_selective)
qed

lemma lss_handle_frame:
  assumes "lss_handle s req = (s', r)"
  shows "ls_address s' = ls_address s \<and> ls_node_id s' = ls_node_id s \<and>
    (ls_pending_node_id s' = ls_pending_node_id s \<or>
     ls_state s = Configuration \<and>
     (1 \<le> ls_pending_node_id s' \<and> ls_pending_node_id s' \<le> 127 \<or>
      ls_pending_node_id s' = UNCONFIGURED_NODE_ID))"
  using assms
  by (auto simp: lss_handle_def handle_fastscan_def Let_def split: if_splits)

text \<open>A node accepts a node-id only in the configuration state and only from 1 to 127 or the
  unconfigured value; it answers with the right status, and the active node-id does not change
  before \<open>adopt_pending\<close>, which makes the assigned id the active one.\<close>

theorem lss_configure_node_id:
  "lss_handle s (encode_configure_node_id n) =
     (if ls_state s \<noteq> Configuration then (s, None)
      else if (1 \<le> n \<and> n \<le> 127) \<or> n = UNCONFIGURED_NODE_ID
        then (s\<lparr>ls_pending_node_id := n\<rparr>, Some [CS_CONFIGURE_NODE_ID, 0, 0, 0, 0, 0, 0, 0])
        else (s, Some [CS_CONFIGURE_NODE_ID, 1, 0, 0, 0, 0, 0, 0])) \<and>
   decode_configure_node_id_response [CS_CONFIGURE_NODE_ID, 0, 0, 0, 0, 0, 0, 0] = Some (Inr ()) \<and>
   decode_configure_node_id_response [CS_CONFIGURE_NODE_ID, 1, 0, 0, 0, 0, 0, 0] = Some (Inl 1) \<and>
   ls_node_id (adopt_pending (s\<lparr>ls_pending_node_id := n\<rparr>)) = n"
  by (simp add: lss_handle_def encode_configure_node_id_def frame_simps Let_def
      decode_configure_node_id_response_def adopt_pending_def)

text \<open>Whatever frame an LSS slave receives, its identity and its active node-id stay, and its
  pending node-id changes only in the configuration state and only to a value the protocol allows.\<close>

theorem lss_handle_invariant:
  "ls_address (fst (lss_handle s req)) = ls_address s \<and>
   ls_node_id (fst (lss_handle s req)) = ls_node_id s \<and>
   (ls_pending_node_id (fst (lss_handle s req)) \<noteq> ls_pending_node_id s \<longrightarrow>
     ls_state s = Configuration \<and>
     (let p = ls_pending_node_id (fst (lss_handle s req))
      in (1 \<le> p \<and> p \<le> 127) \<or> p = UNCONFIGURED_NODE_ID))"
  using lss_handle_frame [of s req] by (cases "lss_handle s req") auto

section \<open>Fastscan\<close>

text \<open>The bits of \<open>w\<close> from bit \<open>b\<close> upwards: what the master knows once it has tested them.\<close>

definition from_bit :: "nat \<Rightarrow> u32 \<Rightarrow> u32" where
  "from_bit b w = push_bit b (drop_bit b w)"

lemma from_bit_bounds [simp]: "from_bit 0 w = w" "from_bit 32 w = 0"
proof -
  show "from_bit 0 w = w" by (simp add: from_bit_def)
  have "drop_bit 32 w = 0" by (rule bit_word_eqI) (auto simp: bit_drop_bit_eq dest: bit_imp_le_length)
  then show "from_bit 32 w = 0" by (simp add: from_bit_def)
qed

lemma bit_from_bit: "bit (from_bit b w) n \<longleftrightarrow> b \<le> n \<and> bit w n"
  by (auto simp: from_bit_def bit_push_bit_iff bit_drop_bit_eq dest: bit_imp_le_length)

lemma from_bit_step:
  "b < 32 \<Longrightarrow> (if bit w b then from_bit (Suc b) w OR push_bit b 1 else from_bit (Suc b) w) = from_bit b w"
  by (rule bit_word_eqI)
    (auto simp: bit_from_bit bit_or_iff bit_push_bit_iff bit_1_iff bit_exp_iff Suc_le_eq
      le_eq_less_or_eq split: if_splits)

lemma fastscan_match:
  assumes "b < 32"
  shows "(from_bit (Suc b) w XOR w) AND push_bit b 0xFFFFFFFF = 0 \<longleftrightarrow> \<not> bit w b"
proof -
  have ones: "(0xFFFFFFFF :: u32) = - 1" by simp
  have "bit ((from_bit (Suc b) w XOR w) AND push_bit b (- 1)) n \<longleftrightarrow> n = b \<and> bit w b" if "n < 32" for n
    using that assms
    by (auto simp: bit_from_bit bit_and_iff bit_xor_iff bit_push_bit_iff bit_minus_1_iff bit_not_iff bit_mask_iff
        Suc_le_eq)
  then show ?thesis unfolding ones using assms
    by (auto simp: bit_eq_iff)
qed

text \<open>
  The scan as the module documents it: send the next request to the slave and report whether it
  answered, until the master has no request left. Of the fuel, 1 step is the probe, 33 are each of
  the four values (32 bits and the confirmation), and 1 notices the end.
\<close>

fun fastscan_loop :: "nat \<Rightarrow> fastscan_master \<Rightarrow> lss_slave \<Rightarrow> (fastscan_master \<times> lss_slave) run" where
  "fastscan_loop 0 m s = Panic"
| "fastscan_loop (Suc fuel) m s =
     (case fm_next_request m of
        None \<Rightarrow> Done (m, s)
      | Some req \<Rightarrow>
          let (s', r) = lss_handle s req
          in run_bind (fm_on_response m (r \<noteq> None)) (\<lambda>m'. fastscan_loop fuel m' s'))"

definition scanning :: "lss_slave \<Rightarrow> bool" where
  "scanning s \<longleftrightarrow> ls_node_id s = UNCONFIGURED_NODE_ID \<and> ls_state s = Waiting"

lemma handle_probe:
  "scanning s \<Longrightarrow> lss_handle s (encode_fastscan 0 FASTSCAN_INIT 0 0) =
     (s\<lparr>ls_fs_sub := 0\<rparr>, Some (lss_frame_cs CS_IDENTIFY_SLAVE))"
  by (simp add: lss_handle_def handle_fastscan_def scanning_def encode_fastscan_frame Let_def)

lemma handle_test:
  assumes "scanning s" and "ls_fs_sub s = sub" and "unat b < 32"
  shows "lss_handle s (encode_fastscan v b sub sub) =
     (s, if (v XOR identity s sub) AND push_bit (unat b) 0xFFFFFFFF = 0
         then Some (lss_frame_cs CS_IDENTIFY_SLAVE) else None)"
proof -
  have "\<not> 32 \<le> b" using assms(3) by (simp add: word_le_nat_alt)
  then show ?thesis
    using assms(1,2)
    by (simp add: lss_handle_def handle_fastscan_def scanning_def encode_fastscan_frame u32_at_frame
        Let_def)
qed

lemma handle_confirm:
  assumes "scanning s" and "ls_fs_sub s = sub" and "nxt \<noteq> sub"
  shows "lss_handle s (encode_fastscan (identity s sub) 0 sub nxt) =
     ((if sub \<ge> 3 then s\<lparr>ls_state := Configuration\<rparr> else s\<lparr>ls_fs_sub := nxt\<rparr>),
      Some (lss_frame_cs CS_IDENTIFY_SLAVE))"
  using assms
  by (simp add: lss_handle_def handle_fastscan_def scanning_def encode_fastscan_frame u32_at_frame
      Let_def)

lemma sub_no_overflow: "unat (sub :: u8) < 4 \<Longrightarrow> sub \<noteq> 255"
  by auto

lemma fm_on_response_bit:
  assumes "k < 32" and "unat sub < 4" and "length ids = 4" and "ids ! unat sub = from_bit (Suc k) w"
  shows "fm_on_response \<lparr>fm_id = ids, fm_sub = sub, fm_bit = int k, fm_found = fnd\<rparr> (\<not> bit w k) =
    Done \<lparr>fm_id = ids[unat sub := from_bit k w], fm_sub = sub, fm_bit = int k - 1, fm_found = fnd\<rparr>"
proof (cases "bit w k")
  case True
  then have "ids ! unat sub OR push_bit k 1 = from_bit k w"
    using from_bit_step [OF assms(1), of w] assms(4) by simp
  with True show ?thesis using assms(2,3) by (simp add: fm_on_response_def Let_def)
next
  case False
  then have "ids[unat sub := from_bit k w] = ids"
    using from_bit_step [OF assms(1), of w] assms(4) by (metis list_update_id)
  with False show ?thesis by (simp add: fm_on_response_def Let_def)
qed

lemma fm_next_request_bit:
  assumes "k < 32" and "unat sub < 4"
  shows "fm_next_request \<lparr>fm_id = ids, fm_sub = sub, fm_bit = int k, fm_found = fnd\<rparr> =
    Some (encode_fastscan (ids ! unat sub) (of_nat k) sub sub)"
proof -
  have "\<not> 3 < sub" using assms(2) by (simp add: word_less_nat_alt)
  then show ?thesis by (simp add: fm_next_request_def Let_def)
qed

lemma fastscan_loop_bit:
  assumes "scanning s" and "ls_fs_sub s = sub" and "unat sub < 4"
    and "k < 32" and "length ids = 4" and "ids ! unat sub = from_bit (Suc k) (identity s sub)"
  shows "fastscan_loop (Suc n) \<lparr>fm_id = ids, fm_sub = sub, fm_bit = int k, fm_found = True\<rparr> s =
    fastscan_loop n \<lparr>fm_id = ids[unat sub := from_bit k (identity s sub)], fm_sub = sub,
      fm_bit = int k - 1, fm_found = True\<rparr> s"
proof -
  have k: "unat (of_nat k :: u8) = k" using assms(4) by (simp add: unat_of_nat)
  then have "unat (of_nat k :: u8) < 32" using assms(4) by simp
  from handle_test [OF assms(1,2) this, of "ids ! unat sub"]
  have "lss_handle s (encode_fastscan (ids ! unat sub) (of_nat k) sub sub) =
      (s, if bit (identity s sub) k then None else Some (lss_frame_cs CS_IDENTIFY_SLAVE))"
    using fastscan_match [OF assms(4), of "identity s sub"] assms(6) k by simp
  then show ?thesis
    using fm_next_request_bit [OF assms(4,3), of ids True]
      fm_on_response_bit [OF assms(4,3,5,6), of True]
    by (cases "bit (identity s sub) k") simp_all
qed

lemma fastscan_bits:
  assumes "scanning s" and "ls_fs_sub s = sub" and "unat sub < 4"
    and "k < 32" and "length ids = 4" and "ids ! unat sub = from_bit (Suc k) (identity s sub)"
  shows "fastscan_loop (Suc k + fuel) \<lparr>fm_id = ids, fm_sub = sub, fm_bit = int k, fm_found = True\<rparr> s =
    fastscan_loop fuel
      \<lparr>fm_id = ids[unat sub := identity s sub], fm_sub = sub, fm_bit = - 1, fm_found = True\<rparr> s"
  using assms(4-)
proof (induction k arbitrary: ids)
  case (0 ids)
  show ?case using fastscan_loop_bit [OF assms(1-3) 0, of fuel] by simp
next
  case (Suc k ids)
  let ?ids = "ids[unat sub := from_bit (Suc k) (identity s sub)]"
  have "fastscan_loop (Suc k + fuel) \<lparr>fm_id = ?ids, fm_sub = sub, fm_bit = int k, fm_found = True\<rparr> s =
      fastscan_loop fuel
        \<lparr>fm_id = ?ids[unat sub := identity s sub], fm_sub = sub, fm_bit = - 1, fm_found = True\<rparr> s"
    using Suc.prems assms(3) by (intro Suc.IH) simp_all
  then show ?case
    using fastscan_loop_bit [OF assms(1-3) Suc.prems, of "Suc k + fuel"]
    by (simp del: fastscan_loop.simps)
qed

lemma u8_cases_lt_4:
  assumes "unat (x :: u8) < 4"
  obtains "x = 0" | "x = 1" | "x = 2" | "x = 3"
proof -
  have "unat x = 0 \<or> unat x = 1 \<or> unat x = 2 \<or> unat x = 3" using assms by auto
  then have "x = 0 \<or> x = 1 \<or> x = 2 \<or> x = 3" by (simp add: word_unat_eq_iff)
  then show thesis using that by blast
qed

lemma fastscan_sub:
  assumes "scanning s" and "ls_fs_sub s = sub" and "unat sub < 4" and "length ids = 4"
    and "ids ! unat sub = 0"
  shows "fastscan_loop (33 + fuel) \<lparr>fm_id = ids, fm_sub = sub, fm_bit = 31, fm_found = True\<rparr> s =
    fastscan_loop fuel
      \<lparr>fm_id = ids[unat sub := identity s sub], fm_sub = sub + 1, fm_bit = 31, fm_found = True\<rparr>
      (if sub \<ge> 3 then s\<lparr>ls_state := Configuration\<rparr> else s\<lparr>ls_fs_sub := (sub + 1) AND 3\<rparr>)"
proof -
  have nxt: "(sub + 1) AND 3 \<noteq> sub" and le: "\<not> 3 < sub"
    by (rule u8_cases_lt_4 [OF assms(3)]; simp)+
  have "fastscan_loop (33 + fuel) \<lparr>fm_id = ids, fm_sub = sub, fm_bit = 31, fm_found = True\<rparr> s =
      fastscan_loop (Suc fuel)
        \<lparr>fm_id = ids[unat sub := identity s sub], fm_sub = sub, fm_bit = - 1, fm_found = True\<rparr> s"
    using fastscan_bits [OF assms(1-3), of 31 ids "Suc fuel"] assms(4,5) by simp
  also have "\<dots> = fastscan_loop fuel
      \<lparr>fm_id = ids[unat sub := identity s sub], fm_sub = sub + 1, fm_bit = 31, fm_found = True\<rparr>
      (if sub \<ge> 3 then s\<lparr>ls_state := Configuration\<rparr> else s\<lparr>ls_fs_sub := (sub + 1) AND 3\<rparr>)"
    using handle_confirm [OF assms(1,2) nxt] le assms(3,4) sub_no_overflow [OF assms(3)]
    by (simp add: fm_next_request_def fm_on_response_def Let_def)
  finally show ?thesis .
qed

lemma fastscan_loop_finds:
  assumes "ls_node_id s = UNCONFIGURED_NODE_ID" and "ls_state s = Waiting"
  shows "fastscan_loop 134 fastscan_new s =
    Done (\<lparr>fm_id = [vendor_id (ls_address s), product_code (ls_address s),
              revision_number (ls_address s), serial_number (ls_address s)],
            fm_sub = 4, fm_bit = 31, fm_found = True\<rparr>,
          s\<lparr>ls_fs_sub := 3, ls_state := Configuration\<rparr>)"
proof -
  define sn where "sn n = s\<lparr>ls_fs_sub := n\<rparr>" for n
  have scan: "scanning (sn n)" for n using assms by (simp add: scanning_def sn_def)
  have id: "identity (sn n) = identity s" for n by (simp add: identity_def sn_def fun_eq_iff)
  let ?i = "identity s"
  let ?m = "\<lambda>ids sub. \<lparr>fm_id = ids, fm_sub = sub, fm_bit = 31, fm_found = True\<rparr>"
  have "fastscan_loop 134 fastscan_new s = fastscan_loop 133 (?m [0, 0, 0, 0] 0) (sn 0)"
    using handle_probe [of s] assms
    by (subst fastscan_loop.simps(2) [of 133, simplified])
      (simp add: fastscan_new_def fm_next_request_def fm_on_response_def scanning_def sn_def)
  also have "\<dots> = fastscan_loop 100 (?m [?i 0, 0, 0, 0] 1) (sn 1)"
    using fastscan_sub [OF scan [of 0], of 0 "[0, 0, 0, 0]" 100] by (simp add: id word_le_nat_alt) (simp add: sn_def)
  also have "\<dots> = fastscan_loop 67 (?m [?i 0, ?i 1, 0, 0] 2) (sn 2)"
    using fastscan_sub [OF scan [of 1], of 1 "[?i 0, 0, 0, 0]" 67] by (simp add: id word_le_nat_alt) (simp add: sn_def)
  also have "\<dots> = fastscan_loop 34 (?m [?i 0, ?i 1, ?i 2, 0] 3) (sn 3)"
    using fastscan_sub [OF scan [of 2], of 2 "[?i 0, ?i 1, 0, 0]" 34] by (simp add: id word_le_nat_alt) (simp add: sn_def)
  also have "\<dots> = fastscan_loop 1 (?m [?i 0, ?i 1, ?i 2, ?i 3] 4) ((sn 3)\<lparr>ls_state := Configuration\<rparr>)"
    using fastscan_sub [OF scan [of 3], of 3 "[?i 0, ?i 1, ?i 2, 0]" 1] by (simp add: id word_le_nat_alt) (simp add: sn_def)
  also have "\<dots> = Done (?m [?i 0, ?i 1, ?i 2, ?i 3] 4, s\<lparr>ls_fs_sub := 3, ls_state := Configuration\<rparr>)"
    by (simp add: fm_next_request_def sn_def)
  finally show ?thesis
    by (simp add: identity_def)
qed

text \<open>Against an unconfigured node in the waiting state, Fastscan never panics and ends after 133
  requests; the master has then found exactly the node's 128-bit address, and the node is in the
  configuration state, ready for its node-id.\<close>

lemma fastscan_discovers:
  assumes "ls_node_id s = UNCONFIGURED_NODE_ID" and "ls_state s = Waiting"
  shows "\<exists>m. fastscan_loop 134 fastscan_new s = Done (m, s\<lparr>ls_fs_sub := 3, ls_state := Configuration\<rparr>) \<and>
    fm_is_complete m \<and> fm_found m \<and> fm_address m = ls_address s"
  using fastscan_loop_finds [OF assms] by (simp add: fm_is_complete_def fm_address_def)

definition example_address :: lss_address where
  "example_address =
     \<lparr>vendor_id = 0x1F, product_code = 0x2A, revision_number = 1, serial_number = 0x1234\<rparr>"

text \<open>A configured node, or one already in the configuration state, takes no part in a Fastscan:
  the first probe is not answered, the node is untouched and the master reports nothing found.\<close>

theorem fastscan_skips_configured:
  assumes "ls_node_id s \<noteq> UNCONFIGURED_NODE_ID \<or> ls_state s = Configuration"
  shows "\<exists>m. fastscan_loop 2 fastscan_new s = Done (m, s) \<and> fm_is_complete m \<and> \<not> fm_found m"
proof -
  have "lss_handle s (encode_fastscan 0 FASTSCAN_INIT 0 0) = (s, None)"
    using assms by (auto simp: lss_handle_def handle_fastscan_def encode_fastscan_frame)
  moreover have "fastscan_loop 2 = fastscan_loop (Suc (Suc 0))" by (simp add: numeral_2_eq_2)
  ultimately show ?thesis
    by (simp add: fastscan_new_def fm_next_request_def fm_on_response_def
        fm_is_complete_def)
qed

section \<open>A node that falls silent during the scan\<close>

fun fm_run :: "fastscan_master \<Rightarrow> bool list \<Rightarrow> fastscan_master run" where
  "fm_run m [] = Done m"
| "fm_run m (r # rs) = run_bind (fm_on_response m r) (\<lambda>m'. fm_run m' rs)"

lemma fm_run_append: "fm_run m (rs @ qs) = run_bind (fm_run m rs) (\<lambda>m'. fm_run m' qs)"
  by (induction rs arbitrary: m) (auto simp: run_bind_def split: run.splits)

lemma fm_run_silent_bits:
  assumes "k < 32" and "unat sub < 4" and "length ids = 4" and "ids ! unat sub = from_bit (Suc k) (- 1)"
  shows "fm_run \<lparr>fm_id = ids, fm_sub = sub, fm_bit = int k, fm_found = True\<rparr> (replicate (Suc k) False) =
    Done \<lparr>fm_id = ids[unat sub := - 1], fm_sub = sub, fm_bit = - 1, fm_found = True\<rparr>"
  using assms(1,3,4)
proof (induction k arbitrary: ids)
  case (0 ids)
  show ?case using fm_on_response_bit [OF 0(1) assms(2) 0(2,3), of True] by simp
next
  case (Suc k ids)
  have "bit (- 1 :: u32) (Suc k)" using Suc.prems(1) by simp
  moreover have "int (Suc k) - 1 = int k" by simp
  ultimately show ?case
    using fm_on_response_bit [OF Suc.prems(1) assms(2) Suc.prems(2,3), of True]
      Suc.IH [of "ids[unat sub := from_bit (Suc k) (- 1)]"] Suc.prems assms(2)
    by simp
qed

lemma fm_run_silent_sub:
  assumes "unat sub < 4" and "length ids = 4" and "ids ! unat sub = 0"
  shows "fm_run \<lparr>fm_id = ids, fm_sub = sub, fm_bit = 31, fm_found = True\<rparr> (replicate 33 False) =
    Done \<lparr>fm_id = ids[unat sub := - 1], fm_sub = sub + 1, fm_bit = 31, fm_found = True\<rparr>"
proof -
  have "replicate 33 False = replicate (Suc 31) False @ [False]"
    using replicate_add [of 32 1 False] by simp
  then show ?thesis
    using fm_run_silent_bits [of 31 sub ids] assms sub_no_overflow [OF assms(1)]
    by (simp add: fm_run_append fm_on_response_def del: replicate_Suc)
qed

text \<open>The master does not check the confirmation of a value: when a node answers only the first
  probe and then falls silent, the scan still ends with \<open>found\<close> and the address of all ones, which
  no node confirmed.\<close>

lemma fastscan_silent_node_found:
  "\<exists>m. fm_run fastscan_new (True # replicate 132 False) = Done m \<and>
    fm_is_complete m \<and> fm_found m \<and>
    fm_address m = \<lparr>vendor_id = - 1, product_code = - 1, revision_number = - 1, serial_number = - 1\<rparr>"
proof -
  let ?m = "\<lambda>ids sub. \<lparr>fm_id = ids, fm_sub = sub, fm_bit = 31, fm_found = True\<rparr>"
  have "replicate 132 False =
      replicate 33 False @ replicate 33 False @ replicate 33 False @ replicate 33 False"
    by (simp flip: replicate_add)
  then have "fm_run fastscan_new (True # replicate 132 False) =
      fm_run (?m [0, 0, 0, 0] 0)
        (replicate 33 False @ replicate 33 False @ replicate 33 False @ replicate 33 False)"
    by (simp add: fastscan_new_def fm_on_response_def)
  also have "\<dots> = Done (?m [- 1, - 1, - 1, - 1] 4)"
    using fm_run_silent_sub [of 0 "[0, 0, 0, 0]"] fm_run_silent_sub [of 1 "[- 1, 0, 0, 0]"]
      fm_run_silent_sub [of 2 "[- 1, - 1, 0, 0]"] fm_run_silent_sub [of 3 "[- 1, - 1, - 1, 0]"]
    by (simp add: fm_run_append)
  finally show ?thesis by (simp add: fm_is_complete_def fm_address_def)
qed

text \<open>Reporting a missing answer to a master whose scan is over panics: the index of the value
  under test is out of bounds.\<close>

theorem fastscan_response_after_end_panics:
  assumes "ls_node_id s = UNCONFIGURED_NODE_ID" and "ls_state s = Waiting"
  shows "\<exists>m s'. fastscan_loop 134 fastscan_new s = Done (m, s') \<and> fm_next_request m = None \<and>
    fm_on_response m False = Panic"
  using fastscan_loop_finds [OF assms] by (simp add: fm_next_request_def fm_on_response_def)

end
