(* ===== verification/Node.thy ===== *)
theory Node
  imports Sdo_Session Nmt Sync Emcy Pdo Lss
begin

text \<open>
  \<^verbatim>\<open>core/src/node.rs\<close>: a device node, which owns a dictionary, an SDO server, the NMT state, PDO slots,
  an LSS slave, the error history and a SYNC counter, and dispatches every received frame to them by
  its COB-ID. The locale \<open>node_env\<close> collects what its containers promise; the theorems show that a frame
  cannot panic it, which service may change what, and how it takes a node-id from the bus.
\<close>

section \<open>Frames and state\<close>

abbreviation (input) MAX_PDOS :: nat where "MAX_PDOS \<equiv> 4"
abbreviation (input) MAX_PDO_MAPPING :: nat where "MAX_PDO_MAPPING \<equiv> 8"
abbreviation (input) MAX_ERROR_HISTORY :: nat where "MAX_ERROR_HISTORY \<equiv> 8"
abbreviation (input) GENERIC :: u8 where "GENERIC \<equiv> 0x01"

record tx_frame =
  tx_cob_id :: u16
  tx_buf :: "u8 list"
  tx_len :: u8

definition tx_new :: "u16 \<Rightarrow> u8 list \<Rightarrow> tx_frame" where
  "tx_new cob_id bytes =
     (let len = min (length bytes) 8
      in \<lparr>tx_cob_id = cob_id, tx_buf = copy_at 0 (take len bytes) (zeros 8), tx_len = of_nat len\<rparr>)"

definition tx_data :: "tx_frame \<Rightarrow> u8 list" where
  "tx_data f = take (unat (tx_len f)) (tx_buf f)"

record 'p rpdo_slot =
  rp_cob_id :: u16
  rp_mapping :: "'p pdo_mapping"

record 'p tpdo_slot =
  tp_cob_id :: u16
  tp_mapping :: "'p pdo_mapping"
  tp_transmission :: transmission_type

text \<open>The container operations a node uses: its dictionary and the vectors of its fields.\<close>

record ('m, 'b, 'p, 'r, 't, 'h, 'f) node_ops =
  no_od :: "'m od_ops"
  no_bytes :: "('b, u8) vec_ops"
  no_map :: "('p, mapping_entry) vec_ops"
  no_rpdos :: "('r, 'p rpdo_slot) vec_ops"
  no_tpdos :: "('t, 'p tpdo_slot) vec_ops"
  no_history :: "('h, u32) vec_ops"
  no_frames :: "('f, tx_frame) vec_ops"

record ('m, 'b, 'r, 't, 'h) node =
  nd_id :: node_id
  nd_od :: 'm
  nd_sdo :: "'b sdo_server"
  nd_nmt :: nmt_state_machine
  nd_rpdos :: 'r
  nd_tpdos :: 't
  nd_lss :: "lss_slave option"
  nd_guard_toggle :: bool
  nd_error_register :: u8
  nd_error_history :: 'h
  nd_sync_producer :: "sync_counter option"

definition node_new ::
  "('m, 'b, 'p, 'r, 't, 'h, 'f) node_ops \<Rightarrow> node_id \<Rightarrow> 'm \<Rightarrow> ('m, 'b, 'r, 't, 'h) node" where
  "node_new E n od =
     \<lparr>nd_id = n, nd_od = od, nd_sdo = sdo_server_new n, nd_nmt = nmt_new,
      nd_rpdos = v_new (no_rpdos E), nd_tpdos = v_new (no_tpdos E), nd_lss = None,
      nd_guard_toggle = False, nd_error_register = 0, nd_error_history = v_new (no_history E),
      nd_sync_producer = None\<rparr>"

definition node_state :: "('m, 'b, 'r, 't, 'h) node \<Rightarrow> nmt_state" where
  "node_state nd = sm_state (nd_nmt nd)"

section \<open>LSS and the node-id\<close>

definition enable_lss :: "lss_address \<Rightarrow> ('m, 'b, 'r, 't, 'h) node \<Rightarrow> ('m, 'b, 'r, 't, 'h) node" where
  "enable_lss a nd = nd\<lparr>nd_lss := Some (lss_slave_new a (raw (nd_id nd)))\<rparr>"

definition enable_lss_unconfigured ::
  "lss_address \<Rightarrow> ('m, 'b, 'r, 't, 'h) node \<Rightarrow> ('m, 'b, 'r, 't, 'h) node" where
  "enable_lss_unconfigured a nd = nd\<lparr>nd_lss := Some (lss_slave_new a UNCONFIGURED_NODE_ID)\<rparr>"

definition lss_unconfigured :: "('m, 'b, 'r, 't, 'h) node \<Rightarrow> bool" where
  "lss_unconfigured nd \<longleftrightarrow>
     (case nd_lss nd of Some l \<Rightarrow> ls_node_id l = UNCONFIGURED_NODE_ID | None \<Rightarrow> False)"

definition set_node_id :: "node_id \<Rightarrow> ('m, 'b, 'r, 't, 'h) node \<Rightarrow> ('m, 'b, 'r, 't, 'h) node" where
  "set_node_id n nd = nd\<lparr>nd_id := n, nd_sdo := sdo_server_new n\<rparr>"

definition apply_lss_node_id ::
  "('m, 'b, 'r, 't, 'h) node \<Rightarrow> ('m, 'b, 'r, 't, 'h) node \<times> node_id option" where
  "apply_lss_node_id nd =
     (case nd_lss nd of
        None \<Rightarrow> (nd, None)
      | Some l \<Rightarrow>
          (case node_id_new (ls_pending_node_id l) of
             Inl _ \<Rightarrow> (nd, None)
           | Inr n \<Rightarrow>
               let nd = set_node_id n nd
               in (nd\<lparr>nd_lss := map_option adopt_pending (nd_lss nd)\<rparr>, Some n)))"

section \<open>PDO configuration\<close>

definition add_rpdo ::
  "('m, 'b, 'p, 'r, 't, 'h, 'f) node_ops \<Rightarrow> u16 \<Rightarrow> 'p pdo_mapping \<Rightarrow> ('m, 'b, 'r, 't, 'h) node \<Rightarrow>
    core_error + ('m, 'b, 'r, 't, 'h) node" where
  "add_rpdo E cob_id m nd =
     (case v_push (no_rpdos E) (nd_rpdos nd) \<lparr>rp_cob_id = cob_id, rp_mapping = m\<rparr> of
        None \<Rightarrow> Inl MappingFull
      | Some r \<Rightarrow> Inr (nd\<lparr>nd_rpdos := r\<rparr>))"

definition add_tpdo ::
  "('m, 'b, 'p, 'r, 't, 'h, 'f) node_ops \<Rightarrow> u16 \<Rightarrow> 'p pdo_mapping \<Rightarrow> transmission_type \<Rightarrow>
    ('m, 'b, 'r, 't, 'h) node \<Rightarrow> core_error + ('m, 'b, 'r, 't, 'h) node" where
  "add_tpdo E cob_id m tt nd =
     (case v_push (no_tpdos E) (nd_tpdos nd)
             \<lparr>tp_cob_id = cob_id, tp_mapping = m, tp_transmission = tt\<rparr> of
        None \<Rightarrow> Inl MappingFull
      | Some t \<Rightarrow> Inr (nd\<lparr>nd_tpdos := t\<rparr>))"

definition is_synchronous :: "transmission_type \<Rightarrow> bool" where
  "is_synchronous tt \<longleftrightarrow>
     (case tt of SynchronousAcyclic \<Rightarrow> True | SynchronousCyclic _ \<Rightarrow> True | _ \<Rightarrow> False)"

definition od_u32 :: "'m od_ops \<Rightarrow> 'm \<Rightarrow> u16 \<Rightarrow> u8 \<Rightarrow> u32 option" where
  "od_u32 M od idx sub =
     (case od_read M od (Address idx sub) of Inr (Unsigned32 v) \<Rightarrow> Some v | _ \<Rightarrow> None)"

definition od_u8 :: "'m od_ops \<Rightarrow> 'm \<Rightarrow> u16 \<Rightarrow> u8 \<Rightarrow> u8 option" where
  "od_u8 M od idx sub =
     (case od_read M od (Address idx sub) of Inr (Unsigned8 v) \<Rightarrow> Some v | _ \<Rightarrow> None)"

text \<open>The loop over the subindices \<open>sub..=count\<close>, as long as every entry reads and fits.\<close>

fun push_mapped :: "('p, mapping_entry) vec_ops \<Rightarrow> 'm od_ops \<Rightarrow> 'm \<Rightarrow> u16 \<Rightarrow> nat list \<Rightarrow>
    'p pdo_mapping \<Rightarrow> 'p pdo_mapping option" where
  "push_mapped P M od idx [] m = Some m"
| "push_mapped P M od idx (sub # subs) m =
     (case od_u32 M od idx (of_nat sub) of
        None \<Rightarrow> None
      | Some w \<Rightarrow>
          (case mapping_push P m (mapping_from_u32 w) of
             Inl _ \<Rightarrow> None
           | Inr m' \<Rightarrow> push_mapped P M od idx subs m'))"

definition read_pdo_mapping :: "('p, mapping_entry) vec_ops \<Rightarrow> 'm od_ops \<Rightarrow> 'm \<Rightarrow> u16 \<Rightarrow>
    'p pdo_mapping option" where
  "read_pdo_mapping P M od idx =
     (case od_u8 M od idx 0 of
        None \<Rightarrow> None
      | Some count \<Rightarrow> push_mapped P M od idx [1..<Suc (unat count)] (pdo_mapping_new P))"

definition build_rpdo :: "('p, mapping_entry) vec_ops \<Rightarrow> 'm od_ops \<Rightarrow> 'm \<Rightarrow> u16 \<Rightarrow>
    'p rpdo_slot option" where
  "build_rpdo P M od n =
     (case od_u32 M od (0x1400 + n) 1 of
        None \<Rightarrow> None
      | Some cob_id \<Rightarrow>
          if \<not> pdo_is_valid cob_id then None
          else (case read_pdo_mapping P M od (0x1600 + n) of
                  None \<Rightarrow> None
                | Some m \<Rightarrow> Some \<lparr>rp_cob_id = pdo_can_id cob_id, rp_mapping = m\<rparr>))"

definition build_tpdo :: "('p, mapping_entry) vec_ops \<Rightarrow> 'm od_ops \<Rightarrow> 'm \<Rightarrow> u16 \<Rightarrow>
    'p tpdo_slot option" where
  "build_tpdo P M od n =
     (case od_u32 M od (0x1800 + n) 1 of
        None \<Rightarrow> None
      | Some cob_id \<Rightarrow>
          if \<not> pdo_is_valid cob_id then None
          else
            let transmission =
              (case od_u8 M od (0x1800 + n) 2 of
                 None \<Rightarrow> EventDrivenProfile
               | Some b \<Rightarrow> (case transmission_from_byte b of
                               Inr tt \<Rightarrow> tt | Inl _ \<Rightarrow> EventDrivenProfile))
            in (case read_pdo_mapping P M od (0x1A00 + n) of
                  None \<Rightarrow> None
                | Some m \<Rightarrow> Some \<lparr>tp_cob_id = pdo_can_id cob_id, tp_mapping = m,
                                   tp_transmission = transmission\<rparr>))"

definition push_slot :: "('v, 'a) vec_ops \<Rightarrow> 'a option \<Rightarrow> 'v \<Rightarrow> 'v" where
  "push_slot V slot v =
     (case slot of None \<Rightarrow> v | Some x \<Rightarrow> (case v_push V v x of None \<Rightarrow> v | Some v' \<Rightarrow> v'))"

definition configure_pdos_from_od ::
  "('m, 'b, 'p, 'r, 't, 'h, 'f) node_ops \<Rightarrow> ('m, 'b, 'r, 't, 'h) node \<Rightarrow>
    ('m, 'b, 'r, 't, 'h) node" where
  "configure_pdos_from_od E nd =
     fold (\<lambda>n nd. nd\<lparr>
         nd_rpdos := push_slot (no_rpdos E) (build_rpdo (no_map E) (no_od E) (nd_od nd) n) (nd_rpdos nd),
         nd_tpdos := push_slot (no_tpdos E) (build_tpdo (no_map E) (no_od E) (nd_od nd) n) (nd_tpdos nd)\<rparr>)
       (map of_nat [0..<MAX_PDOS])
       (nd\<lparr>nd_rpdos := v_clear (no_rpdos E) (nd_rpdos nd),
           nd_tpdos := v_clear (no_tpdos E) (nd_tpdos nd)\<rparr>)"

definition take_written_object ::
  "('m, 'b, 'r, 't, 'h) node \<Rightarrow> address option \<times> ('m, 'b, 'r, 't, 'h) node" where
  "take_written_object nd =
     (case take_write (nd_sdo nd) of (a, srv) \<Rightarrow> (a, nd\<lparr>nd_sdo := srv\<rparr>))"

section \<open>Boot-up, heartbeat and node guarding\<close>

definition node_boot :: "('m, 'b, 'r, 't, 'h) node \<Rightarrow> ('m, 'b, 'r, 't, 'h) node \<times> tx_frame" where
  "node_boot nd =
     (nd\<lparr>nd_nmt := fst (nmt_boot (nd_nmt nd)), nd_guard_toggle := False\<rparr>,
      tx_new (heartbeat_cob_id (nd_id nd)) BOOTUP_FRAME)"

definition node_guard_response ::
  "('m, 'b, 'r, 't, 'h) node \<Rightarrow> ('m, 'b, 'r, 't, 'h) node \<times> tx_frame" where
  "node_guard_response nd =
     (let byte = encode_node_guard (sm_state (nd_nmt nd)) (nd_guard_toggle nd)
      in (nd\<lparr>nd_guard_toggle := \<not> nd_guard_toggle nd\<rparr>,
          tx_new (heartbeat_cob_id (nd_id nd)) [byte]))"

definition node_heartbeat :: "('m, 'b, 'r, 't, 'h) node \<Rightarrow> tx_frame" where
  "node_heartbeat nd =
     tx_new (heartbeat_cob_id (nd_id nd)) (encode_heartbeat (sm_state (nd_nmt nd)))"

section \<open>Emergencies\<close>

text \<open>Indexing a vector outside its length panics, for a read and for a write.\<close>

definition vec_get :: "('v, 'a) vec_ops \<Rightarrow> 'v \<Rightarrow> nat \<Rightarrow> 'a run" where
  "vec_get V v i = (if i < v_len V v then Done (v_slice V v ! i) else Panic)"

definition vec_put :: "('v, 'a) vec_ops \<Rightarrow> 'v \<Rightarrow> nat \<Rightarrow> 'a \<Rightarrow> 'v run" where
  "vec_put V v i x = (if i < v_len V v then Done (v_set V v i x) else Panic)"

text \<open>\<open>shift_up H n h\<close> is the loop \<open>for i in (0..n).rev()\<close> over the history.\<close>

fun shift_up :: "('h, u32) vec_ops \<Rightarrow> nat \<Rightarrow> 'h \<Rightarrow> 'h run" where
  "shift_up H 0 h = Done h"
| "shift_up H (Suc i) h =
     run_bind (vec_get H h i) (\<lambda>x. run_bind (vec_put H h (Suc i) x) (shift_up H i))"

definition od_try_set :: "'m od_ops \<Rightarrow> address \<Rightarrow> od_value \<Rightarrow> 'm \<Rightarrow> 'm" where
  "od_try_set M a v od = (case od_set M od a v of Inl _ \<Rightarrow> od | Inr od' \<Rightarrow> od')"

text \<open>The loop over the history: entry \<open>i\<close> goes to subindex \<open>i + 1\<close>.\<close>

definition mirror_codes :: "'m od_ops \<Rightarrow> (nat \<times> u32) list \<Rightarrow> 'm \<Rightarrow> 'm" where
  "mirror_codes M =
     fold (\<lambda>(i, entry). od_try_set M (Address 0x1003 (of_nat (i + 1))) (Unsigned32 entry))"

definition mirror_error_objects ::
  "('m, 'b, 'p, 'r, 't, 'h, 'f) node_ops \<Rightarrow> ('m, 'b, 'r, 't, 'h) node \<Rightarrow>
    ('m, 'b, 'r, 't, 'h) node" where
  "mirror_error_objects E nd =
     (let h = v_slice (no_history E) (nd_error_history nd);
          od = od_try_set (no_od E) (Address 0x1001 0) (Unsigned8 (nd_error_register nd)) (nd_od nd);
          od = od_try_set (no_od E) (Address 0x1003 0) (Unsigned8 (of_nat (length h))) od;
          od = mirror_codes (no_od E) (enumerate 0 h) od
      in nd\<lparr>nd_od := od\<rparr>)"

definition raise_emergency ::
  "('m, 'b, 'p, 'r, 't, 'h, 'f) node_ops \<Rightarrow> u16 \<Rightarrow> error_register \<Rightarrow> u8 list \<Rightarrow>
    ('m, 'b, 'r, 't, 'h) node \<Rightarrow> (('m, 'b, 'r, 't, 'h) node \<times> tx_frame) run" where
  "raise_emergency E code reg info nd =
     (let H = no_history E;
          register = nd_error_register nd OR (reg_bits reg OR GENERIC);
          h = nd_error_history nd;
          h = (if v_is_full H h then v_pop H h else h);
          len = v_len H h;
          h = (case v_push H h 0 of None \<Rightarrow> h | Some h' \<Rightarrow> h')
      in run_bind (shift_up H len h) (\<lambda>h.
         run_bind (vec_put H h 0 (ucast code)) (\<lambda>h.
         let nd = mirror_error_objects E (nd\<lparr>nd_error_register := register, nd_error_history := h\<rparr>);
             msg = emergency_new code (ErrorRegister (nd_error_register nd)) info
         in Done (nd, tx_new (emcy_cob_id (nd_id nd)) (emcy_encode msg)))))"

definition clear_errors ::
  "('m, 'b, 'p, 'r, 't, 'h, 'f) node_ops \<Rightarrow> ('m, 'b, 'r, 't, 'h) node \<Rightarrow>
    ('m, 'b, 'r, 't, 'h) node \<times> tx_frame" where
  "clear_errors E nd =
     (let nd = mirror_error_objects E
            (nd\<lparr>nd_error_register := 0,
                nd_error_history := v_clear (no_history E) (nd_error_history nd)\<rparr>)
      in (nd, tx_new (emcy_cob_id (nd_id nd)) (emcy_encode error_reset)))"

section \<open>SYNC production\<close>

definition enable_sync_producer ::
  "u8 \<Rightarrow> ('m, 'b, 'r, 't, 'h) node \<Rightarrow> core_error + ('m, 'b, 'r, 't, 'h) node" where
  "enable_sync_producer overflow nd =
     (case sync_counter_new overflow of
        Inl e \<Rightarrow> Inl e
      | Inr c \<Rightarrow> Inr (nd\<lparr>nd_sync_producer := Some c\<rparr>))"

definition produce_sync ::
  "('m, 'b, 'r, 't, 'h) node \<Rightarrow> ('m, 'b, 'r, 't, 'h) node \<times> tx_frame option" where
  "produce_sync nd =
     (case nd_sync_producer nd of
        None \<Rightarrow> (nd, None)
      | Some c \<Rightarrow>
          (case sc_advance c of
             (c', out) \<Rightarrow>
               (nd\<lparr>nd_sync_producer := Some c'\<rparr>,
                Some (case out of
                        Some count \<Rightarrow> tx_new SYNC_COB_ID (encode_counter count)
                      | None \<Rightarrow> tx_new SYNC_COB_ID []))))"

section \<open>Received frames\<close>

definition on_lss :: "u8 list \<Rightarrow> ('m, 'b, 'r, 't, 'h) node \<Rightarrow>
    ('m, 'b, 'r, 't, 'h) node \<times> tx_frame option" where
  "on_lss data nd =
     (case nd_lss nd of
        None \<Rightarrow> (nd, None)
      | Some l \<Rightarrow>
          if length data > 8 then (nd, None)
          else
            (case lss_handle l (copy_at 0 data (zeros 8)) of
               (l', resp) \<Rightarrow>
                 (nd\<lparr>nd_lss := Some l'\<rparr>, map_option (tx_new LSS_SLAVE_COB_ID) resp)))"

definition on_nmt :: "u8 list \<Rightarrow> ('m, 'b, 'r, 't, 'h) node \<Rightarrow> ('m, 'b, 'r, 't, 'h) node" where
  "on_nmt data nd =
     (if length data < 2 then nd
      else
        (case decode_command [data ! 0, data ! 1] of
           Inl _ \<Rightarrow> nd
         | Inr (c, target) \<Rightarrow>
             if target = BROADCAST \<or> target = nd_id nd
             then nd\<lparr>nd_nmt := fst (nmt_apply (nd_nmt nd) c)\<rparr>
             else nd))"

definition on_sdo ::
  "('m, 'b, 'p, 'r, 't, 'h, 'f) node_ops \<Rightarrow> u8 list \<Rightarrow> ('m, 'b, 'r, 't, 'h) node \<Rightarrow>
    (('m, 'b, 'r, 't, 'h) node \<times> tx_frame option) run" where
  "on_sdo E data nd =
     (if \<not> (sm_state (nd_nmt nd) = PreOperational \<or> sm_state (nd_nmt nd) = Operational)
      then Done (nd, None)
      else if length data > 8 then Done (nd, None)
      else
        run_bind (srv_handle (no_od E) (no_bytes E) (nd_od nd) (nd_sdo nd) (copy_at 0 data (zeros 8)))
          (\<lambda>(od, srv, response).
            Done (nd\<lparr>nd_od := od, nd_sdo := srv\<rparr>,
                  map_option (tx_new (srv_response_cob_id srv)) response)))"

definition on_rpdo ::
  "('m, 'b, 'p, 'r, 't, 'h, 'f) node_ops \<Rightarrow> u16 \<Rightarrow> u8 list \<Rightarrow> ('m, 'b, 'r, 't, 'h) node \<Rightarrow>
    ('m, 'b, 'r, 't, 'h) node run" where
  "on_rpdo E cob_id data nd =
     (if sm_state (nd_nmt nd) \<noteq> Operational then Done nd
      else
        (case find (\<lambda>r. rp_cob_id r = cob_id) (v_slice (no_rpdos E) (nd_rpdos nd)) of
           None \<Rightarrow> Done nd
         | Some slot \<Rightarrow>
             run_map (\<lambda>(od, _). nd\<lparr>nd_od := od\<rparr>)
               (unpack (no_map E) (no_od E) (rp_mapping slot) (nd_od nd) data)))"

definition on_frame ::
  "('m, 'b, 'p, 'r, 't, 'h, 'f) node_ops \<Rightarrow> u16 \<Rightarrow> u8 list \<Rightarrow> ('m, 'b, 'r, 't, 'h) node \<Rightarrow>
    (('m, 'b, 'r, 't, 'h) node \<times> tx_frame option) run" where
  "on_frame E cob_id data nd =
     (if cob_id = LSS_MASTER_COB_ID then Done (on_lss data nd)
      else if lss_unconfigured nd then Done (nd, None)
      else if cob_id = NMT_COMMAND_COB_ID then Done (on_nmt data nd, None)
      else if cob_id = srv_request_cob_id (nd_sdo nd) then on_sdo E data nd
      else run_map (\<lambda>nd'. (nd', None)) (on_rpdo E cob_id data nd))"

section \<open>Transmit PDOs\<close>

definition node_build_tpdo ::
  "('m, 'b, 'p, 'r, 't, 'h, 'f) node_ops \<Rightarrow> ('m, 'b, 'r, 't, 'h) node \<Rightarrow> 'p tpdo_slot \<Rightarrow>
    tx_frame option run" where
  "node_build_tpdo E nd slot =
     (if mapping_is_empty (no_map E) (tp_mapping slot) then Done None
      else
        run_bind (pack (no_map E) (no_od E) (tp_mapping slot) (nd_od nd) (zeros 8)) (\<lambda>(buf, r).
          case r of
            Inl _ \<Rightarrow> Done None
          | Inr len \<Rightarrow>
              run_bind (subslice buf 0 len) (\<lambda>bytes. Done (Some (tx_new (tp_cob_id slot) bytes)))))"

fun sync_tpdo_loop ::
  "('m, 'b, 'p, 'r, 't, 'h, 'f) node_ops \<Rightarrow> ('m, 'b, 'r, 't, 'h) node \<Rightarrow> 'p tpdo_slot list \<Rightarrow>
    'f \<Rightarrow> 'f run" where
  "sync_tpdo_loop E nd [] frames = Done frames"
| "sync_tpdo_loop E nd (slot # slots) frames =
     (if is_synchronous (tp_transmission slot)
      then run_bind (node_build_tpdo E nd slot) (\<lambda>frame.
             sync_tpdo_loop E nd slots (push_slot (no_frames E) frame frames))
      else sync_tpdo_loop E nd slots frames)"

definition sync_tpdos ::
  "('m, 'b, 'p, 'r, 't, 'h, 'f) node_ops \<Rightarrow> ('m, 'b, 'r, 't, 'h) node \<Rightarrow> 'f run" where
  "sync_tpdos E nd =
     (if sm_state (nd_nmt nd) \<noteq> Operational then Done (v_new (no_frames E))
      else sync_tpdo_loop E nd (v_slice (no_tpdos E) (nd_tpdos nd)) (v_new (no_frames E)))"

definition node_tpdo ::
  "('m, 'b, 'p, 'r, 't, 'h, 'f) node_ops \<Rightarrow> nat \<Rightarrow> ('m, 'b, 'r, 't, 'h) node \<Rightarrow>
    tx_frame option run" where
  "node_tpdo E i nd =
     (if sm_state (nd_nmt nd) \<noteq> Operational then Done None
      else
        (let slots = v_slice (no_tpdos E) (nd_tpdos nd)
         in if i < length slots then node_build_tpdo E nd (slots ! i) else Done None))"

section \<open>Environment and invariant\<close>

lemma tx_data_new [simp]: "length bytes \<le> 8 \<Longrightarrow> tx_data (tx_new c bytes) = bytes"
  by (simp add: tx_data_def tx_new_def Let_def copy_at_def unat_of_nat)

lemma tx_cob_id_new [simp]: "tx_cob_id (tx_new c bytes) = c"
  by (simp add: tx_new_def Let_def)

text \<open>What the containers promise, with the capacities of the node's fields.\<close>

locale node_env = sdo_env "no_od E" N "no_bytes E" +
  maps: mapping_vec "no_map E" MAX_PDO_MAPPING +
  rpdos: bounded_vec "no_rpdos E" MAX_PDOS +
  tpdos: bounded_vec "no_tpdos E" MAX_PDOS +
  history: bounded_vec "no_history E" MAX_ERROR_HISTORY +
  frames: bounded_vec "no_frames E" MAX_PDOS
  for E :: "('m, 'b, 'p, 'r, 't, 'h, 'f) node_ops" and N :: nat

definition list_node_ops ::
  "nat \<Rightarrow> ((address \<times> entry) list, u8 list, mapping_entry list, mapping_entry list rpdo_slot list,
    mapping_entry list tpdo_slot list, u32 list, tx_frame list) node_ops" where
  "list_node_ops N =
     \<lparr>no_od = assoc_ops N, no_bytes = list_ops MAX_STRING_LEN, no_map = list_ops MAX_PDO_MAPPING,
      no_rpdos = list_ops MAX_PDOS, no_tpdos = list_ops MAX_PDOS,
      no_history = list_ops MAX_ERROR_HISTORY, no_frames = list_ops MAX_PDOS\<rparr>"

lemma list_node_ops_sel [simp]:
  "no_od (list_node_ops N) = assoc_ops N"
  "no_bytes (list_node_ops N) = list_ops MAX_STRING_LEN"
  "no_map (list_node_ops N) = list_ops MAX_PDO_MAPPING"
  "no_rpdos (list_node_ops N) = list_ops MAX_PDOS"
  "no_tpdos (list_node_ops N) = list_ops MAX_PDOS"
  "no_history (list_node_ops N) = list_ops MAX_ERROR_HISTORY"
  "no_frames (list_node_ops N) = list_ops MAX_PDOS"
  by (simp_all add: list_node_ops_def)

interpretation list_node: node_env "list_node_ops N" N for N
  unfolding node_env_def list_node_ops_sel
  by (intro conjI list_env.sdo_env_axioms mappings.mapping_vec_axioms blist.bounded_vec_axioms)

definition wf_node ::
  "('m, 'b, 'p, 'r, 't, 'h, 'f) node_ops \<Rightarrow> ('m, 'b, 'r, 't, 'h) node \<Rightarrow> bool" where
  "wf_node E nd \<longleftrightarrow>
     wf_od (no_od E) (nd_od nd) \<and> wf_srv (no_bytes E) (nd_sdo nd) \<and>
     srv_node (nd_sdo nd) = nd_id nd \<and>
     (\<forall>r \<in> set (v_slice (no_rpdos E) (nd_rpdos nd)). total_bits (no_map E) (rp_mapping r) \<le> 64) \<and>
     (\<forall>t \<in> set (v_slice (no_tpdos E) (nd_tpdos nd)). total_bits (no_map E) (tp_mapping t) \<le> 64) \<and>
     v_len (no_rpdos E) (nd_rpdos nd) \<le> MAX_PDOS \<and>
     v_len (no_tpdos E) (nd_tpdos nd) \<le> MAX_PDOS \<and>
     v_len (no_history E) (nd_error_history nd) \<le> MAX_ERROR_HISTORY"

lemma wf_node_od:
  assumes "wf_node E nd"
  shows "wf_node E (nd\<lparr>nd_od := od\<rparr>) \<longleftrightarrow> wf_od (no_od E) od"
    and "wf_node E (nd\<lparr>nd_nmt := sm\<rparr>)" and "wf_node E (nd\<lparr>nd_lss := l\<rparr>)"
    and "wf_node E (nd\<lparr>nd_od := od, nd_sdo := srv\<rparr>) \<longleftrightarrow>
      wf_od (no_od E) od \<and> wf_srv (no_bytes E) srv \<and> srv_node srv = nd_id nd"
  using assms by (auto simp: wf_node_def)

lemma lss_handle_length: "lss_handle l req = (l', Some p) \<Longrightarrow> length p = 8"
  by (auto simp: lss_handle_def handle_fastscan_def Let_def frame_simps split: if_splits)

text \<open>One received frame: what the node may do with it.\<close>

definition frame_post ::
  "('m, 'b, 'p, 'r, 't, 'h, 'f) node_ops \<Rightarrow> ('m, 'b, 'r, 't, 'h) node \<Rightarrow>
    (('m, 'b, 'r, 't, 'h) node \<times> tx_frame option) run \<Rightarrow> bool" where
  "frame_post E nd r \<longleftrightarrow>
     (\<exists>nd' out. r = Done (nd', out) \<and> wf_node E nd' \<and>
        od_schema (no_od E) (nd_od nd') = od_schema (no_od E) (nd_od nd) \<and> nd_id nd' = nd_id nd \<and>
        (\<forall>f. out = Some f \<longrightarrow> length (tx_data f) = 8 \<and>
          (tx_cob_id f = LSS_SLAVE_COB_ID \<or> tx_cob_id f = response_cob_id (nd_id nd))))"

context node_env
begin

lemma wf_node_new: "wf_od (no_od E) od \<Longrightarrow> wf_node E (node_new E n od)"
  by (simp add: wf_node_def node_new_def sdo_server_new_def wf_srv_def rpdos.slice_new
      tpdos.slice_new history.slice_new)

lemma on_sdo_post:
  assumes "wf_node E nd"
  shows "frame_post E nd (on_sdo E data nd)"
proof (cases "(sm_state (nd_nmt nd) = PreOperational \<or> sm_state (nd_nmt nd) = Operational) \<and> length data \<le> 8")
  case False
  with assms show ?thesis by (auto simp: on_sdo_def frame_post_def)
next
  case True
  then have len: "length (copy_at 0 data (zeros 8)) = 8" by simp
  have wf: "wf_od (no_od E) (nd_od nd)" "wf_srv (no_bytes E) (nd_sdo nd)"
    using assms by (simp_all add: wf_node_def)
  obtain od' srv' out where
    h: "srv_handle (no_od E) (no_bytes E) (nd_od nd) (nd_sdo nd) (copy_at 0 data (zeros 8)) =
      Done (od', srv', out)"
    "wf_od (no_od E) od'" "wf_srv (no_bytes E) srv'"
    "od_schema (no_od E) od' = od_schema (no_od E) (nd_od nd)" "srv_node srv' = srv_node (nd_sdo nd)"
    "\<forall>p. out = Some p \<longrightarrow> length p = 8"
    using srv_handle_safe [OF wf len] by blast
  moreover have "srv_node (nd_sdo nd) = nd_id nd" using assms by (simp add: wf_node_def)
  ultimately show ?thesis
    using True wf_node_od(4) [OF assms]
    by (auto simp: on_sdo_def frame_post_def srv_response_cob_id_def)
qed

lemma on_rpdo_post:
  assumes "wf_node E nd"
  shows "\<exists>nd'. on_rpdo E cob_id data nd = Done nd' \<and> wf_node E nd' \<and> nd_id nd' = nd_id nd \<and>
    od_schema (no_od E) (nd_od nd') = od_schema (no_od E) (nd_od nd)"
proof (cases "find (\<lambda>r. rp_cob_id r = cob_id) (v_slice (no_rpdos E) (nd_rpdos nd))")
  case None
  with assms show ?thesis by (simp add: on_rpdo_def)
next
  case (Some slot)
  have "wf_od (no_od E) (nd_od nd)" using assms by (simp add: wf_node_def)
  from unpack_safe [OF this] obtain od' r where
    "unpack (no_map E) (no_od E) (rp_mapping slot) (nd_od nd) data = Done (od', r)"
    "wf_od (no_od E) od'" "od_schema (no_od E) od' = od_schema (no_od E) (nd_od nd)" by blast
  with Some assms wf_node_od(1) [OF assms] show ?thesis by (simp add: on_rpdo_def)
qed

lemma on_lss_post:
  assumes "wf_node E nd"
  shows "frame_post E nd (Done (on_lss data nd))"
  using assms wf_node_od(3) [OF assms]
  by (auto simp: on_lss_def frame_post_def split: option.splits prod.splits dest: lss_handle_length)

lemma on_frame_post:
  assumes "wf_node E nd"
  shows "frame_post E nd (on_frame E cob_id data nd)"
proof -
  have idle: "frame_post E nd (Done (nd, None))" using assms by (simp add: frame_post_def)
  have nmt: "frame_post E nd (Done (on_nmt data nd, None))"
    using assms wf_node_od(2) [OF assms]
    by (auto simp: on_nmt_def frame_post_def split: sum.splits prod.splits)
  have rpdo: "frame_post E nd (run_map (\<lambda>nd'. (nd', None)) (on_rpdo E cob_id data nd))"
  proof -
    obtain nd' where "on_rpdo E cob_id data nd = Done nd'" "wf_node E nd'" "nd_id nd' = nd_id nd"
      "od_schema (no_od E) (nd_od nd') = od_schema (no_od E) (nd_od nd)"
      using on_rpdo_post [OF assms] by blast
    then show ?thesis by (simp add: frame_post_def)
  qed
  show ?thesis
    using idle nmt rpdo on_lss_post [OF assms] on_sdo_post [OF assms] by (simp add: on_frame_def)
qed

end

section \<open>Gating by NMT state and by configuration\<close>

lemma on_rpdo_shape:
  "on_rpdo E cob_id data nd = Done nd' \<Longrightarrow>
   \<exists>od'. nd' = nd\<lparr>nd_od := od'\<rparr> \<and> (sm_state (nd_nmt nd) \<noteq> Operational \<longrightarrow> od' = nd_od nd)"
  by (auto simp: on_rpdo_def run_map_eq_Done_iff split: if_splits option.splits prod.splits)
    (metis node.surjective node.update_convs(2))

lemma on_sdo_shape:
  "on_sdo E data nd = Done (nd', out) \<Longrightarrow>
   (\<exists>od' srv'. nd' = nd\<lparr>nd_od := od', nd_sdo := srv'\<rparr>) \<and>
   (\<not> (sm_state (nd_nmt nd) = PreOperational \<or> sm_state (nd_nmt nd) = Operational) \<longrightarrow>
     nd' = nd \<and> out = None)"
  by (auto simp: on_sdo_def run_bind_eq_Done_iff split: if_splits prod.splits)
    (metis node.surjective node.update_convs(2,3))+

text \<open>
  The effects a frame may have, by its COB-ID: a node-control command alone changes the NMT state, an
  SDO request or a mapped RPDO alone changes the dictionary, an LSS request alone the LSS state, and
  each only where the NMT state and the configuration admit the service.
\<close>

lemma on_frame_effects:
  assumes "on_frame E cob_id data nd = Done (nd', out)"
  shows "nd_od nd' \<noteq> nd_od nd \<longrightarrow> \<not> lss_unconfigured nd \<and>
      (cob_id = srv_request_cob_id (nd_sdo nd) \<and> node_state nd = PreOperational \<or>
       node_state nd = Operational)"
    and "nd_nmt nd' \<noteq> nd_nmt nd \<longrightarrow> \<not> lss_unconfigured nd \<and> cob_id = NMT_COMMAND_COB_ID"
    and "nd_lss nd' \<noteq> nd_lss nd \<longrightarrow> cob_id = LSS_MASTER_COB_ID"
    and "out \<noteq> None \<longrightarrow> cob_id = LSS_MASTER_COB_ID \<or> \<not> lss_unconfigured nd \<and>
      cob_id = srv_request_cob_id (nd_sdo nd) \<and>
      (node_state nd = PreOperational \<or> node_state nd = Operational)"
proof -
  consider (lss) "cob_id = LSS_MASTER_COB_ID" "(nd', out) = on_lss data nd"
    | (idle) "nd' = nd" "out = None"
    | (nmt) "cob_id \<noteq> LSS_MASTER_COB_ID" "\<not> lss_unconfigured nd" "cob_id = NMT_COMMAND_COB_ID"
        "nd' = on_nmt data nd" "out = None"
    | (sdo) "cob_id \<noteq> LSS_MASTER_COB_ID" "\<not> lss_unconfigured nd"
        "cob_id = srv_request_cob_id (nd_sdo nd)" "on_sdo E data nd = Done (nd', out)"
    | (pdo) "cob_id \<noteq> LSS_MASTER_COB_ID" "\<not> lss_unconfigured nd"
        "on_rpdo E cob_id data nd = Done nd'" "out = None"
    using assms by (auto simp: on_frame_def run_map_eq_Done_iff split: if_splits)
  then have "(nd_od nd' \<noteq> nd_od nd \<longrightarrow> \<not> lss_unconfigured nd \<and>
      (cob_id = srv_request_cob_id (nd_sdo nd) \<and> node_state nd = PreOperational \<or>
       node_state nd = Operational)) \<and>
    (nd_nmt nd' \<noteq> nd_nmt nd \<longrightarrow> \<not> lss_unconfigured nd \<and> cob_id = NMT_COMMAND_COB_ID) \<and>
    (nd_lss nd' \<noteq> nd_lss nd \<longrightarrow> cob_id = LSS_MASTER_COB_ID) \<and>
    (out \<noteq> None \<longrightarrow> cob_id = LSS_MASTER_COB_ID \<or> \<not> lss_unconfigured nd \<and>
      cob_id = srv_request_cob_id (nd_sdo nd) \<and>
      (node_state nd = PreOperational \<or> node_state nd = Operational))"
  proof cases
    case lss
    then show ?thesis by (auto simp: on_lss_def split: option.splits if_splits prod.splits)
  next
    case idle
    then show ?thesis by simp
  next
    case nmt
    then show ?thesis by (auto simp: on_nmt_def split: sum.splits prod.splits)
  next
    case sdo
    then show ?thesis using on_sdo_shape [OF sdo(4)] by (auto simp: node_state_def)
  next
    case pdo
    then show ?thesis using on_rpdo_shape [OF pdo(3)] by (auto simp: node_state_def)
  qed
  then show "nd_od nd' \<noteq> nd_od nd \<longrightarrow> \<not> lss_unconfigured nd \<and>
      (cob_id = srv_request_cob_id (nd_sdo nd) \<and> node_state nd = PreOperational \<or>
       node_state nd = Operational)"
    and "nd_nmt nd' \<noteq> nd_nmt nd \<longrightarrow> \<not> lss_unconfigured nd \<and> cob_id = NMT_COMMAND_COB_ID"
    and "nd_lss nd' \<noteq> nd_lss nd \<longrightarrow> cob_id = LSS_MASTER_COB_ID"
    and "out \<noteq> None \<longrightarrow> cob_id = LSS_MASTER_COB_ID \<or> \<not> lss_unconfigured nd \<and>
      cob_id = srv_request_cob_id (nd_sdo nd) \<and>
      (node_state nd = PreOperational \<or> node_state nd = Operational)"
    by blast+
qed

text \<open>No received frame, whatever its COB-ID and data, can panic a node or break its invariant: it
  keeps its node-id and the schema of its dictionary, and any response is eight bytes on the LSS or
  the node's own SDO response channel.\<close>

lemma on_frame_safe:
  assumes "node_env E N" and "wf_node E nd"
  shows "\<exists>nd' out. on_frame E cob_id data nd = Done (nd', out) \<and> wf_node E nd' \<and>
    od_schema (no_od E) (nd_od nd') = od_schema (no_od E) (nd_od nd) \<and> nd_id nd' = nd_id nd \<and>
    (\<forall>f. out = Some f \<longrightarrow> length (tx_data f) = 8 \<and>
      (tx_cob_id f = LSS_SLAVE_COB_ID \<or> tx_cob_id f = response_cob_id (nd_id nd)))"
  using node_env.on_frame_post [OF assms] by (simp add: frame_post_def)

definition example_node ::
  "((address \<times> entry) list, u8 list, mapping_entry list rpdo_slot list,
    mapping_entry list tpdo_slot list, u32 list) node" where
  "example_node = node_new (list_node_ops 4) (NodeId 0x10)
     [(Address 0x1001 0, entry_ro (Unsigned8 0)), (Address 0x1003 0, entry_rw (Unsigned8 0)),
      (Address 0x1003 1, entry_ro (Unsigned32 0))]"

lemma wf_example_node: "wf_node (list_node_ops 4) example_node"
  unfolding example_node_def by (rule list_node.wf_node_new) (simp add: wf_od_def)

text \<open>C13: The services are gated as CiA 301 asks. A frame changes the dictionary only on a configured
  node that is operational, or pre-operational for an SDO request; it changes the NMT state only as a
  node-control command to a configured node, and the LSS state only as an LSS request; and a response
  goes out only to an LSS request or, in the two states that serve SDO, to an SDO request.\<close>

theorem on_frame_gating:
  assumes "on_frame E cob_id data nd = Done (nd', out)"
  shows "(nd_od nd' \<noteq> nd_od nd \<longrightarrow> \<not> lss_unconfigured nd \<and>
      (cob_id = srv_request_cob_id (nd_sdo nd) \<and> node_state nd = PreOperational \<or>
       node_state nd = Operational)) \<and>
    (nd_nmt nd' \<noteq> nd_nmt nd \<longrightarrow> \<not> lss_unconfigured nd \<and> cob_id = NMT_COMMAND_COB_ID) \<and>
    (nd_lss nd' \<noteq> nd_lss nd \<longrightarrow> cob_id = LSS_MASTER_COB_ID) \<and>
    (out \<noteq> None \<longrightarrow> cob_id = LSS_MASTER_COB_ID \<or> \<not> lss_unconfigured nd \<and>
      cob_id = srv_request_cob_id (nd_sdo nd) \<and>
      (node_state nd = PreOperational \<or> node_state nd = Operational))"
  using on_frame_effects [OF assms] by blast

theorem on_frame_gating_witness:
  "\<exists>nd'. on_frame (list_node_ops 4) 0 [1, 0x10] (fst (node_boot example_node)) = Done (nd', None) \<and>
    node_state nd' = Operational \<and> \<not> lss_unconfigured (fst (node_boot example_node))"
proof -
  define nd where "nd = fst (node_boot example_node)"
  have run: "on_frame (list_node_ops 4) 0 [1, 0x10] nd = Done (on_nmt [1, 0x10] nd, None)"
    "node_state nd = PreOperational" "node_state (on_nmt [1, 0x10] nd) = Operational"
    unfolding nd_def by code_simp+
  then have "nd_nmt (on_nmt [1, 0x10] nd) \<noteq> nd_nmt nd" by (auto simp: node_state_def)
  then have "\<not> lss_unconfigured nd" using on_frame_gating [OF run(1)] by blast
  then show ?thesis using run unfolding nd_def by blast
qed

section \<open>LSS assignment of a node-id\<close>

text \<open>A node that comes up unconfigured takes a node-id from the bus: after the global switch to
  configuration and an assignment of an id from 1 to 127, applying it gives the node that id for all
  its channels, and the node is configured from then on.\<close>

lemma node_lss_assignment:
  assumes "1 \<le> n" and "n \<le> 127"
  shows "\<exists>nd1 nd2 nd3 out.
    on_frame E LSS_MASTER_COB_ID (encode_switch_global True) (enable_lss_unconfigured a nd) =
      Done (nd1, None) \<and> lss_unconfigured nd1 \<and>
    on_frame E LSS_MASTER_COB_ID (encode_configure_node_id n) nd1 = Done (nd2, Some out) \<and>
    decode_configure_node_id_response (tx_data out) = Some (Inr ()) \<and>
    apply_lss_node_id nd2 = (nd3, Some (NodeId n)) \<and>
    nd_id nd3 = NodeId n \<and> srv_node (nd_sdo nd3) = NodeId n \<and> \<not> lss_unconfigured nd3 \<and>
    nd_od nd3 = nd_od nd"
proof -
  have n: "n \<noteq> 0xFF" using assms(2) by auto
  have dev: "device_id (NodeId n)" using assms by (simp add: device_id_def)
  have switch: "copy_at 0 (encode_switch_global True) (zeros 8) = encode_switch_global True"
    and configure: "copy_at 0 (encode_configure_node_id n) (zeros 8) = encode_configure_node_id n"
    and len: "length (encode_switch_global True) = 8" "length (encode_configure_node_id n) = 8"
    by (simp_all add: copy_at_def encode_switch_global_def encode_configure_node_id_def frame_simps)
  define l where "l = lss_slave_new a 0xFF"
  define nd1 where "nd1 = (enable_lss_unconfigured a nd)\<lparr>nd_lss := Some (l\<lparr>ls_state := Configuration\<rparr>)\<rparr>"
  define nd2 where "nd2 = nd1\<lparr>nd_lss := Some (l\<lparr>ls_state := Configuration, ls_pending_node_id := n\<rparr>)\<rparr>"
  define nd3 where "nd3 = (set_node_id (NodeId n) nd2)\<lparr>nd_lss :=
    Some (l\<lparr>ls_state := Configuration, ls_pending_node_id := n, ls_node_id := n\<rparr>)\<rparr>"
  have h1: "lss_handle l (encode_switch_global True) = (l\<lparr>ls_state := Configuration\<rparr>, None)"
    by (simp add: lss_handle_def encode_switch_global_def frame_simps l_def lss_slave_new_def)
  have h2: "lss_handle (l\<lparr>ls_state := Configuration\<rparr>) (encode_configure_node_id n) =
      (l\<lparr>ls_state := Configuration, ls_pending_node_id := n\<rparr>, Some [0x11, 0, 0, 0, 0, 0, 0, 0])"
    using assms
    by (simp add: lss_handle_def encode_configure_node_id_def frame_simps Let_def)
  have "on_frame E LSS_MASTER_COB_ID (encode_switch_global True) (enable_lss_unconfigured a nd) =
      Done (nd1, None)"
    using h1 by (simp add: on_frame_def on_lss_def enable_lss_unconfigured_def nd1_def len switch
        flip: l_def)
  moreover have "lss_unconfigured nd1"
    by (simp add: lss_unconfigured_def nd1_def l_def lss_slave_new_def)
  moreover have "on_frame E LSS_MASTER_COB_ID (encode_configure_node_id n) nd1 =
      Done (nd2, Some (tx_new LSS_SLAVE_COB_ID [0x11, 0, 0, 0, 0, 0, 0, 0]))"
    using h2 by (simp add: on_frame_def on_lss_def nd1_def nd2_def len configure)
  moreover have "decode_configure_node_id_response
      (tx_data (tx_new LSS_SLAVE_COB_ID [0x11, 0, 0, 0, 0, 0, 0, 0])) = Some (Inr ())"
    by (simp add: decode_configure_node_id_response_def)
  moreover have "apply_lss_node_id nd2 = (nd3, Some (NodeId n))"
    using node_id_new_raw [OF dev]
    by (simp add: apply_lss_node_id_def nd2_def nd3_def adopt_pending_def set_node_id_def)
  moreover have "nd_id nd3 = NodeId n" "srv_node (nd_sdo nd3) = NodeId n" "nd_od nd3 = nd_od nd"
    by (simp_all add: nd3_def nd2_def nd1_def set_node_id_def sdo_server_new_def
        enable_lss_unconfigured_def)
  moreover have "\<not> lss_unconfigured nd3" using n by (simp add: lss_unconfigured_def nd3_def)
  ultimately show ?thesis by blast
qed

end
