(* ===== verification/Node_Errors.thy ===== *)
theory Node_Errors
  imports Node
begin

text \<open>
  Emergencies of a node (\<open>raise_emergency\<close>, \<open>clear_errors\<close>, \<open>mirror_error_objects\<close> of
  \<^verbatim>\<open>core/src/node.rs\<close>): the history, the register and their mirror in the dictionary.
\<close>

section \<open>The error objects in the dictionary\<close>

text \<open>
  \<open>mirrored f r h\<close> is the dictionary \<open>f\<close> after mirroring the register \<open>r\<close> and the history \<open>h\<close>: the
  objects that exist with the right type take the new values, everything else is as before.
\<close>

definition set_value :: "od_value \<Rightarrow> entry \<Rightarrow> entry" where
  "set_value v x = (if data_type_of (e_value x) = data_type_of v then x\<lparr>e_value := v\<rparr> else x)"

definition mirrored :: "(address \<rightharpoonup> entry) \<Rightarrow> u8 \<Rightarrow> u32 list \<Rightarrow> address \<rightharpoonup> entry" where
  "mirrored f r h a =
     (if a = Address 0x1001 0 then map_option (set_value (Unsigned8 r)) (f a)
      else if a = Address 0x1003 0 then map_option (set_value (Unsigned8 (of_nat (length h)))) (f a)
      else if index a = 0x1003 \<and> 0 < unat (subindex a) \<and> unat (subindex a) \<le> length h
        then map_option (set_value (Unsigned32 (h ! (unat (subindex a) - 1)))) (f a)
      else f a)"

context object_map
begin

lemma od_get_try_set:
  "lm_get M (od_try_set M a v od) = (lm_get M od)(a := map_option (set_value v) (lm_get M od a))"
proof (cases "lm_get M od a")
  case None
  then show ?thesis by (auto simp: od_try_set_def od_set_def)
next
  case (Some x)
  then show ?thesis
    by (auto simp: od_try_set_def od_set_def set_value_def get_put_Some)
qed

lemma od_try_set_keeps:
  "wf_value v \<Longrightarrow> wf_od M od \<Longrightarrow> wf_od M (od_try_set M a v od)"
  "od_schema M (od_try_set M a v od) = od_schema M od"
  by (auto simp: od_try_set_def dest: od_set_wf od_set_schema split: sum.splits)

lemma od_get_mirror_codes:
  assumes "k + length h < 256"
  shows "lm_get M (mirror_codes M (enumerate k h) od) a =
    (if index a = 0x1003 \<and> k < unat (subindex a) \<and> unat (subindex a) \<le> k + length h
     then map_option (set_value (Unsigned32 (h ! (unat (subindex a) - 1 - k)))) (lm_get M od a)
     else lm_get M od a)"
  using assms
proof (induction h arbitrary: k od)
  case Nil
  then show ?case by (auto simp: mirror_codes_def)
next
  case (Cons w h)
  define od1 where "od1 = od_try_set M (Address 0x1003 (of_nat (k + 1))) (Unsigned32 w) od"
  have "unat (of_nat (Suc k) :: u8) = Suc k"
    using Cons.prems by (simp add: unat_of_nat del: of_nat_Suc of_nat_add)
  then have sub: "a = Address 0x1003 (of_nat (k + 1)) \<longleftrightarrow> index a = 0x1003 \<and> unat (subindex a) = Suc k"
    by (cases a) (auto simp: word_unat_eq_iff simp del: of_nat_Suc of_nat_add)
  have get: "lm_get M od1 a = (if index a = 0x1003 \<and> unat (subindex a) = Suc k
      then map_option (set_value (Unsigned32 w)) (lm_get M od a) else lm_get M od a)"
    unfolding od1_def od_get_try_set using sub by (auto simp del: of_nat_Suc of_nat_add)
  have "lm_get M (mirror_codes M (enumerate (Suc k) h) od1) a =
    (if index a = 0x1003 \<and> Suc k < unat (subindex a) \<and> unat (subindex a) \<le> Suc k + length h
     then map_option (set_value (Unsigned32 (h ! (unat (subindex a) - 1 - Suc k)))) (lm_get M od1 a)
     else lm_get M od1 a)"
    using Cons.prems by (intro Cons.IH) simp
  moreover have "mirror_codes M (enumerate k (w # h)) od = mirror_codes M (enumerate (Suc k) h) od1"
    by (simp add: mirror_codes_def od1_def)
  ultimately show ?case by (auto simp: get nth_Cons')
qed

lemma mirror_codes_keeps:
  "wf_od M od \<Longrightarrow> wf_od M (mirror_codes M xs od)"
  "od_schema M (mirror_codes M xs od) = od_schema M od"
  unfolding mirror_codes_def by (induction xs arbitrary: od) (auto simp: od_try_set_keeps)

end

lemma mirror_error_objects_sel:
  "nd_id (mirror_error_objects E nd) = nd_id nd"
  "nd_sdo (mirror_error_objects E nd) = nd_sdo nd"
  "nd_nmt (mirror_error_objects E nd) = nd_nmt nd"
  "nd_rpdos (mirror_error_objects E nd) = nd_rpdos nd"
  "nd_tpdos (mirror_error_objects E nd) = nd_tpdos nd"
  "nd_lss (mirror_error_objects E nd) = nd_lss nd"
  "nd_error_register (mirror_error_objects E nd) = nd_error_register nd"
  "nd_error_history (mirror_error_objects E nd) = nd_error_history nd"
  by (simp_all add: mirror_error_objects_def Let_def)

context node_env
begin

lemma mirror_error_objects_od:
  assumes "v_len (no_history E) (nd_error_history nd) \<le> 8"
  shows "lm_get (no_od E) (nd_od (mirror_error_objects E nd)) =
    mirrored (lm_get (no_od E) (nd_od nd)) (nd_error_register nd)
      (v_slice (no_history E) (nd_error_history nd))"
proof (rule ext)
  fix a
  show "lm_get (no_od E) (nd_od (mirror_error_objects E nd)) a =
    mirrored (lm_get (no_od E) (nd_od nd)) (nd_error_register nd)
      (v_slice (no_history E) (nd_error_history nd)) a"
    using assms
    by (cases a)
      (auto simp: mirror_error_objects_def Let_def od_get_mirror_codes od_get_try_set mirrored_def
        unat_gt_0)
qed

lemma mirror_error_objects_wf:
  "wf_od (no_od E) (nd_od nd) \<Longrightarrow> wf_od (no_od E) (nd_od (mirror_error_objects E nd))"
  "od_schema (no_od E) (nd_od (mirror_error_objects E nd)) = od_schema (no_od E) (nd_od nd)"
  by (simp_all add: mirror_error_objects_def Let_def mirror_codes_keeps od_try_set_keeps)

lemma shift_up_slice:
  assumes "n < v_len (no_history E) h"
  shows "\<exists>h'. shift_up (no_history E) n h = Done h' \<and>
    v_slice (no_history E) h' =
      take 1 (v_slice (no_history E) h) @ take n (v_slice (no_history E) h) @
      drop (Suc n) (v_slice (no_history E) h)"
  using assms
proof (induction n arbitrary: h)
  case 0
  then show ?case by (cases "v_slice (no_history E) h") simp_all
next
  case (Suc i)
  let ?ys = "v_slice (no_history E) h"
  let ?h = "v_set (no_history E) h (Suc i) (?ys ! i)"
  have set: "v_slice (no_history E) ?h = ?ys[Suc i := ?ys ! i]"
    using Suc.prems by (simp add: history.slice_set)
  have "i < v_len (no_history E) ?h" using Suc.prems by (simp add: set)
  from Suc.IH [OF this] obtain h' where h': "shift_up (no_history E) i ?h = Done h'"
    "v_slice (no_history E) h' = take 1 (?ys[Suc i := ?ys ! i]) @ take i (?ys[Suc i := ?ys ! i]) @
      drop (Suc i) (?ys[Suc i := ?ys ! i])" unfolding set by blast
  have "drop (Suc i) (?ys[Suc i := ?ys ! i]) = ?ys ! i # drop (Suc (Suc i)) ?ys"
    using Suc.prems by (simp add: drop_update_swap flip: Cons_nth_drop_Suc)
  moreover have "take 1 (?ys[Suc i := ?ys ! i]) = take 1 ?ys" "take i (?ys[Suc i := ?ys ! i]) = take i ?ys"
    by (simp_all add: take_update_cancel)
  moreover have "take (Suc i) ?ys = take i ?ys @ [?ys ! i]"
    using Suc.prems by (simp add: take_Suc_conv_app_nth)
  ultimately show ?case using h' Suc.prems by (simp add: vec_get_def vec_put_def)
qed

lemma raise_emergency_result:
  assumes "wf_node E nd" and "length info = 5"
  shows "\<exists>nd' f. raise_emergency E code reg info nd = Done (nd', f) \<and> wf_node E nd' \<and>
    nd_error_register nd' = nd_error_register nd OR (reg_bits reg OR GENERIC) \<and>
    v_slice (no_history E) (nd_error_history nd') =
      take MAX_ERROR_HISTORY (ucast code # v_slice (no_history E) (nd_error_history nd)) \<and>
    lm_get (no_od E) (nd_od nd') = mirrored (lm_get (no_od E) (nd_od nd)) (nd_error_register nd')
      (v_slice (no_history E) (nd_error_history nd')) \<and>
    tx_cob_id f = emcy_cob_id (nd_id nd) \<and>
    emcy_decode (tx_data f) = Inr (emergency_new code (ErrorRegister (nd_error_register nd')) info)"
proof -
  let ?H = "no_history E" and ?h = "nd_error_history nd"
  let ?old = "v_slice ?H ?h"
  define h1 where "h1 = (if v_is_full ?H ?h then v_pop ?H ?h else ?h)"
  have old: "length ?old \<le> 8" using assms(1) by (simp add: wf_node_def)
  then have h1: "v_slice ?H h1 = take 7 ?old"
    by (cases "length ?old = 8") (auto simp: h1_def history.is_full history.slice_pop butlast_conv_take)
  then have "v_len ?H h1 < 8" by (simp add: min_less_iff_disj)
  then obtain h2 where h2: "v_push ?H h1 0 = Some h2" "v_slice ?H h2 = take 7 ?old @ [0]"
    using history.push_room [of h1 0] by (auto simp: h1)
  define xs where "xs = take 7 ?old"
  have h2': "v_slice ?H h2 = xs @ [0]" using h2 by (simp add: xs_def)
  obtain h3 where h3: "shift_up ?H (length xs) h2 = Done h3"
    "v_slice ?H h3 = take 1 (xs @ [0]) @ xs"
    using shift_up_slice [of "length xs" h2] by (auto simp: h2')
  let ?h4 = "v_set ?H h3 0 (ucast code)"
  have "take 1 (xs @ [0]) = [hd (xs @ [0])]" by (cases xs) simp_all
  then have h4: "vec_put ?H h3 0 (ucast code) = Done ?h4" "v_slice ?H ?h4 = ucast code # xs"
    by (simp_all add: vec_put_def history.slice_set h3)
  have len: "v_len ?H h1 = length xs" by (simp add: h1 xs_def)
  let ?reg = "nd_error_register nd OR (reg_bits reg OR GENERIC)"
  let ?nd = "nd\<lparr>nd_error_register := ?reg, nd_error_history := ?h4\<rparr>"
  let ?nd' = "mirror_error_objects E ?nd"
  let ?msg = "emergency_new code (ErrorRegister ?reg) info"
  have hist: "v_slice ?H ?h4 = take 8 (ucast code # ?old)" using h4 by (simp add: xs_def)
  have sel: "nd_error_register ?nd' = ?reg" "nd_error_history ?nd' = ?h4" "nd_id ?nd' = nd_id nd"
    by (simp_all add: mirror_error_objects_sel)
  have run: "raise_emergency E code reg info nd =
      Done (?nd', tx_new (emcy_cob_id (nd_id nd)) (emcy_encode ?msg))"
    using len h2(1) h3 h4 sel by (simp add: raise_emergency_def Let_def flip: h1_def)
  have wf: "wf_node E ?nd'"
    using assms(1) hist mirror_error_objects_wf [of ?nd]
    by (simp add: wf_node_def mirror_error_objects_sel)
  have "lm_get (no_od E) (nd_od ?nd') = mirrored (lm_get (no_od E) (nd_od nd)) ?reg (v_slice ?H ?h4)"
    using mirror_error_objects_od [of ?nd] hist by simp
  moreover have "emcy_decode (tx_data (tx_new (emcy_cob_id (nd_id nd)) (emcy_encode ?msg))) = Inr ?msg"
    using assms(2) by (subst tx_data_new)
      (auto simp: emcy_decode_encode wf_emergency_def emergency_new_def length_emcy_encode)
  ultimately show ?thesis using run wf hist sel by auto
qed

end

context node_env
begin

lemma clear_errors_result:
  assumes "clear_errors E nd = (nd', f)"
  shows "nd_error_register nd' = 0 \<and> v_slice (no_history E) (nd_error_history nd') = [] \<and>
    lm_get (no_od E) (nd_od nd') = mirrored (lm_get (no_od E) (nd_od nd)) 0 [] \<and>
    emcy_decode (tx_data f) = Inr error_reset \<and> tx_cob_id f = emcy_cob_id (nd_id nd)"
proof -
  have wf: "wf_emergency error_reset" by (simp add: wf_emergency_def error_reset_def)
  then have "emcy_decode (tx_data (tx_new c (emcy_encode error_reset))) = Inr error_reset" for c
    by (simp add: emcy_decode_encode length_emcy_encode)
  then show ?thesis
    using assms by (auto simp: clear_errors_def Let_def mirror_error_objects_sel
        mirror_error_objects_od history.slice_clear)
qed

end

text \<open>C22: Raising an emergency never panics. It sets the given bits and the generic bit of the error
  register, puts the code in front of the history and drops what exceeds eight entries, mirrors both
  into the objects 0x1001 and 0x1003 where they exist with the right type, and returns the EMCY frame
  of the node carrying the code, the register and the five vendor bytes.\<close>

theorem raise_emergency_correct:
  assumes "node_env E N" and "wf_node E nd" and "length info = 5"
  shows "\<exists>nd' f. raise_emergency E code reg info nd = Done (nd', f) \<and> wf_node E nd' \<and>
    nd_error_register nd' = nd_error_register nd OR (reg_bits reg OR GENERIC) \<and>
    v_slice (no_history E) (nd_error_history nd') =
      take MAX_ERROR_HISTORY (ucast code # v_slice (no_history E) (nd_error_history nd)) \<and>
    lm_get (no_od E) (nd_od nd') = mirrored (lm_get (no_od E) (nd_od nd)) (nd_error_register nd')
      (v_slice (no_history E) (nd_error_history nd')) \<and>
    tx_cob_id f = emcy_cob_id (nd_id nd) \<and>
    emcy_decode (tx_data f) = Inr (emergency_new code (ErrorRegister (nd_error_register nd')) info)"
  by (rule node_env.raise_emergency_result [OF assms])

theorem raise_emergency_correct_witness:
  "\<exists>nd' f. raise_emergency (list_node_ops 4) 0x3000 (ErrorRegister 4) [0, 0, 0, 0, 0] example_node =
      Done (nd', f) \<and> wf_node (list_node_ops 4) nd' \<and>
    nd_error_register nd' = nd_error_register example_node OR (reg_bits (ErrorRegister 4) OR GENERIC) \<and>
    v_slice (no_history (list_node_ops 4)) (nd_error_history nd') =
      take MAX_ERROR_HISTORY (ucast (0x3000 :: u16) #
        v_slice (no_history (list_node_ops 4)) (nd_error_history example_node)) \<and>
    lm_get (no_od (list_node_ops 4)) (nd_od nd') =
      mirrored (lm_get (no_od (list_node_ops 4)) (nd_od example_node)) (nd_error_register nd')
        (v_slice (no_history (list_node_ops 4)) (nd_error_history nd')) \<and>
    tx_cob_id f = emcy_cob_id (nd_id example_node) \<and>
    emcy_decode (tx_data f) =
      Inr (emergency_new 0x3000 (ErrorRegister (nd_error_register nd')) [0, 0, 0, 0, 0])"
  by (rule raise_emergency_correct [OF list_node.node_env_axioms wf_example_node]) simp

text \<open>Clearing the errors resets the register, the history and the objects 0x1001 and 0x1003:0 and
  returns the error-reset frame, but the recorded codes stay in the dictionary: a sub-entry
  0x1003:1 and above still reads the old value.\<close>

lemma clear_errors_keeps_codes:
  assumes "node_env E N" and "clear_errors E nd = (nd', f)"
  shows "nd_error_register nd' = 0 \<and> v_slice (no_history E) (nd_error_history nd') = [] \<and>
    emcy_decode (tx_data f) = Inr error_reset \<and> tx_cob_id f = emcy_cob_id (nd_id nd) \<and>
    lm_get (no_od E) (nd_od nd') (Address 0x1001 0) =
      map_option (set_value (Unsigned8 0)) (lm_get (no_od E) (nd_od nd) (Address 0x1001 0)) \<and>
    lm_get (no_od E) (nd_od nd') (Address 0x1003 0) =
      map_option (set_value (Unsigned8 0)) (lm_get (no_od E) (nd_od nd) (Address 0x1003 0)) \<and>
    (\<forall>sub. sub \<noteq> 0 \<longrightarrow> lm_get (no_od E) (nd_od nd') (Address 0x1003 sub) =
      lm_get (no_od E) (nd_od nd) (Address 0x1003 sub))"
  using node_env.clear_errors_result [OF assms]
  by (auto simp: mirrored_def)

end
