(* ===== verification/Node_Pdo.thy ===== *)
theory Node_Pdo
  imports Node_Errors
begin

text \<open>
  Process data of a node (\<open>tpdo\<close>, \<open>sync_tpdos\<close>, \<open>configure_pdos_from_od\<close> of \<^verbatim>\<open>core/src/node.rs\<close>): the
  frames it emits, their way into another node, and the slots it builds from its dictionary, compared
  with what its parameter and mapping objects describe.
\<close>

section \<open>Transmit PDOs\<close>

text \<open>The frame a transmit PDO stands for, if all its objects can be packed.\<close>

definition tpdo_frame ::
  "('m, 'b, 'p, 'r, 't, 'h, 'f) node_ops \<Rightarrow> 'm \<Rightarrow> 'p tpdo_slot \<Rightarrow> tx_frame option" where
  "tpdo_frame E od slot =
     (let es = entries (no_map E) (tp_mapping slot) in
      if es = [] \<or> \<not> list_all (packable (no_od E) od) es then None
      else Some (tx_new (tp_cob_id slot) (pack_payload (no_od E) od es)))"

lemma node_build_tpdo_eq:
  assumes "wf_od (no_od E) (nd_od nd)" and "total_bits (no_map E) (tp_mapping slot) \<le> 64"
  shows "node_build_tpdo E nd slot = Done (tpdo_frame E (nd_od nd) slot)"
proof (cases "\<forall>e \<in> set (entries (no_map E) (tp_mapping slot)). packable (no_od E) (nd_od nd) e")
  case True
  then have "list_all (packable (no_od E) (nd_od nd)) (entries (no_map E) (tp_mapping slot))"
    by (simp add: list_all_iff)
  with pack_frame(1) [OF assms True] pack_frame(3) [OF assms] show ?thesis
    by (simp add: node_build_tpdo_def tpdo_frame_def mapping_is_empty_def entries_def Let_def
        subslice_def)
next
  case False
  then have "\<not> list_all (packable (no_od E) (nd_od nd)) (entries (no_map E) (tp_mapping slot))"
    by (simp add: list_all_iff)
  moreover obtain buf err where "pack (no_map E) (no_od E) (tp_mapping slot) (nd_od nd) (zeros 8) =
      Done (buf, Inl err)"
    using pack_frame(2) [OF assms False] by blast
  ultimately show ?thesis by (simp add: node_build_tpdo_def tpdo_frame_def Let_def)
qed

lemma node_tpdo_result:
  assumes "wf_node E nd"
  shows "node_tpdo E i nd =
    Done (if node_state nd = Operational \<and> i < v_len (no_tpdos E) (nd_tpdos nd)
          then tpdo_frame E (nd_od nd) (v_slice (no_tpdos E) (nd_tpdos nd) ! i) else None)"
  using assms
  by (auto simp: node_tpdo_def node_state_def wf_node_def Let_def intro: node_build_tpdo_eq)

context node_env
begin

lemma sync_tpdo_loop_result:
  assumes "wf_od (no_od E) (nd_od nd)"
    and "\<forall>s \<in> set slots. total_bits (no_map E) (tp_mapping s) \<le> 64"
    and "v_len (no_frames E) fs + length slots \<le> MAX_PDOS"
  shows "\<exists>fs'. sync_tpdo_loop E nd slots fs = Done fs' \<and>
    v_slice (no_frames E) fs' = v_slice (no_frames E) fs @
      List.map_filter (\<lambda>s. if is_synchronous (tp_transmission s) then tpdo_frame E (nd_od nd) s else None)
        slots"
  using assms(2,3)
proof (induction slots arbitrary: fs)
  case Nil
  then show ?case by (simp add: List.map_filter_def)
next
  case (Cons s slots)
  have build: "node_build_tpdo E nd s = Done (tpdo_frame E (nd_od nd) s)"
    using Cons.prems(1) by (intro node_build_tpdo_eq assms(1)) simp
  have room: "v_len (no_frames E) fs < MAX_PDOS" using Cons.prems(2) by simp
  obtain fs1 where fs1: "push_slot (no_frames E) (tpdo_frame E (nd_od nd) s) fs = fs1"
    "v_slice (no_frames E) fs1 = v_slice (no_frames E) fs @
      (case tpdo_frame E (nd_od nd) s of None \<Rightarrow> [] | Some f \<Rightarrow> [f])"
  proof (cases "tpdo_frame E (nd_od nd) s")
    case None
    then show ?thesis using that by (simp add: push_slot_def)
  next
    case (Some f)
    then show ?thesis using that frames.push_room [OF room, of f] by (auto simp: push_slot_def)
  qed
  then have "v_len (no_frames E) fs1 + length slots \<le> MAX_PDOS"
    using Cons.prems(2) by (auto split: option.splits)
  with Cons.IH [of fs1] Cons.IH [of fs] Cons.prems build fs1 show ?case
    by (auto simp: List.map_filter_def split: option.splits)
qed

lemma sync_tpdos_result:
  assumes "wf_node E nd"
  shows "\<exists>fs. sync_tpdos E nd = Done fs \<and> v_slice (no_frames E) fs =
    (if node_state nd = Operational
     then List.map_filter
       (\<lambda>s. if is_synchronous (tp_transmission s) then tpdo_frame E (nd_od nd) s else None)
       (v_slice (no_tpdos E) (nd_tpdos nd))
     else [])"
  using sync_tpdo_loop_result [of nd "v_slice (no_tpdos E) (nd_tpdos nd)" "v_new (no_frames E)"] assms
  by (auto simp: sync_tpdos_def node_state_def wf_node_def frames.slice_new)

end

text \<open>On a SYNC, an operational node emits exactly the frames of its synchronous transmit PDOs, in
  their order, leaving out empty mappings and those with an object that cannot be packed; in every
  other state it emits none. It never panics.\<close>

lemma sync_tpdos_correct:
  assumes "node_env E N" and "wf_node E nd"
  shows "\<exists>fs. sync_tpdos E nd = Done fs \<and> v_slice (no_frames E) fs =
    (if node_state nd = Operational
     then List.map_filter
       (\<lambda>s. if is_synchronous (tp_transmission s) then tpdo_frame E (nd_od nd) s else None)
       (v_slice (no_tpdos E) (nd_tpdos nd))
     else [])"
  by (rule node_env.sync_tpdos_result [OF assms])

lemma unpack_cong:
  "entries P m = entries P' m' \<Longrightarrow> unpack P M m od data = unpack P' M m' od data"
  by (simp add: unpack_def total_bytes_def total_bits_def)

text \<open>C14: Process data travels from node to node. When a producer's transmit PDO and a consumer's
  receive PDO share COB-ID and mapping, both nodes are operational, the producer can pack the objects
  and the consumer may write them with the same types, then the frame the producer emits makes the
  consumer hold the producer's values in every mapped object and changes nothing else.\<close>

theorem node_pdo_exchange:
  assumes "node_env EB N" and "wf_node EA ndA" and "node_state ndA = Operational"
    and "i < v_len (no_tpdos EA) (nd_tpdos ndA)"
    and "slot = v_slice (no_tpdos EA) (nd_tpdos ndA) ! i"
    and "es = entries (no_map EA) (tp_mapping slot)" and "es \<noteq> []"
    and "node_state ndB = Operational" and "\<not> lss_unconfigured ndB"
    and "tp_cob_id slot \<notin> {LSS_MASTER_COB_ID, NMT_COMMAND_COB_ID, srv_request_cob_id (nd_sdo ndB)}"
    and "find (\<lambda>r. rp_cob_id r = tp_cob_id slot) (v_slice (no_rpdos EB) (nd_rpdos ndB)) = Some r"
    and "entries (no_map EB) (rp_mapping r) = es"
    and "\<forall>e \<in> set es. packable (no_od EA) (nd_od ndA) e \<and>
      (\<exists>x. lm_get (no_od EB) (nd_od ndB) (me_address e) = Some x \<and> is_writable (e_access x) \<and>
        data_type_of (e_value x) = data_type_of (packed_value (no_od EA) (nd_od ndA) (me_address e)))"
  shows "\<exists>f od'. node_tpdo EA i ndA = Done (Some f) \<and>
    on_frame EB (tx_cob_id f) (tx_data f) ndB = Done (ndB\<lparr>nd_od := od'\<rparr>, None) \<and>
    (\<forall>a. lm_get (no_od EB) od' a =
      (if a \<in> me_address ` set es
       then map_option (\<lambda>x. x\<lparr>e_value := packed_value (no_od EA) (nd_od ndA) a\<rparr>)
         (lm_get (no_od EB) (nd_od ndB) a)
       else lm_get (no_od EB) (nd_od ndB) a))"
proof -
  have map: "object_map (no_od EB) N"
    using assms(1) by (simp add: node_env_def sdo_env_def)
  have slot: "slot \<in> set (v_slice (no_tpdos EA) (nd_tpdos ndA))" using assms(4,5) by simp
  have wf: "wf_od (no_od EA) (nd_od ndA)" and bits: "total_bits (no_map EA) (tp_mapping slot) \<le> 64"
    using assms(2) slot by (auto simp: wf_node_def)
  have ok: "\<forall>e \<in> set (entries (no_map EA) (tp_mapping slot)). packable (no_od EA) (nd_od ndA) e"
    using assms(6,13) by blast
  obtain buf n od' where t: "pack (no_map EA) (no_od EA) (tp_mapping slot) (nd_od ndA) (zeros 8) =
      Done (buf, Inr n)"
    "unpack (no_map EA) (no_od EB) (tp_mapping slot) (nd_od ndB) (take n buf) = Done (od', Inr ())"
    "\<forall>a. lm_get (no_od EB) od' a =
      (if a \<in> me_address ` set (entries (no_map EA) (tp_mapping slot))
       then map_option (\<lambda>x. x\<lparr>e_value := packed_value (no_od EA) (nd_od ndA) a\<rparr>)
         (lm_get (no_od EB) (nd_od ndB) a)
       else lm_get (no_od EB) (nd_od ndB) a)"
    using object_map.pdo_transfer_into [OF map wf bits, of "nd_od ndB"] assms(6,13) by blast
  define pay where "pay = pack_payload (no_od EA) (nd_od ndA) es"
  have pay: "take n buf = pay" "length pay \<le> 8"
    using pack_frame(1) [OF wf bits ok] pack_frame(3) [OF wf bits] t(1) assms(6) by (auto simp: pay_def)
  have "node_tpdo EA i ndA = Done (Some (tx_new (tp_cob_id slot) pay))"
    using ok assms(3-7) by (simp add: node_tpdo_result [OF assms(2)] tpdo_frame_def list_all_iff pay_def)
  moreover have "unpack (no_map EB) (no_od EB) (rp_mapping r) (nd_od ndB) pay = Done (od', Inr ())"
    using t(2) pay(1) unpack_cong [of "no_map EB" "rp_mapping r" "no_map EA" "tp_mapping slot" "no_od EB"] assms(6,12)
    by simp
  then have "on_frame EB (tp_cob_id slot) pay ndB = Done (ndB\<lparr>nd_od := od'\<rparr>, None)"
    using assms(8-11) by (simp add: on_frame_def on_rpdo_def node_state_def)
  ultimately show ?thesis using t(3) pay(2) assms(6) by auto
qed

definition example_mapping :: "mapping_entry list pdo_mapping" where
  "example_mapping =
     \<lparr>pm_entries = [mapping_entry_new 0x6000 1 16, mapping_entry_new 0x6000 2 8]\<rparr>"

definition example_store :: "u16 \<Rightarrow> u8 \<Rightarrow> (address \<times> entry) list" where
  "example_store v w =
     [(Address 0x6000 1, entry_rw (Unsigned16 v)), (Address 0x6000 2, entry_rw (Unsigned8 w))]"

definition example_producer ::
  "((address \<times> entry) list, u8 list, mapping_entry list rpdo_slot list,
    mapping_entry list tpdo_slot list, u32 list) node" where
  "example_producer = (node_new (list_node_ops 4) (NodeId 1) (example_store 0xBEEF 0x42))
     \<lparr>nd_nmt := \<lparr>sm_state = Operational\<rparr>,
      nd_tpdos := [\<lparr>tp_cob_id = 0x181, tp_mapping = example_mapping,
                    tp_transmission = SynchronousCyclic 1\<rparr>]\<rparr>"

definition example_consumer ::
  "((address \<times> entry) list, u8 list, mapping_entry list rpdo_slot list,
    mapping_entry list tpdo_slot list, u32 list) node" where
  "example_consumer = (node_new (list_node_ops 4) (NodeId 2) (example_store 0 0))
     \<lparr>nd_nmt := \<lparr>sm_state = Operational\<rparr>,
      nd_rpdos := [\<lparr>rp_cob_id = 0x181, rp_mapping = example_mapping\<rparr>]\<rparr>"

lemmas example_pdo_defs = example_producer_def example_consumer_def node_new_def example_store_def
  example_mapping_def mapping_entry_new_def entries_def

lemma wf_example_producer: "wf_node (list_node_ops 4) example_producer"
  by (auto simp: wf_node_def example_pdo_defs wf_od_def wf_srv_def sdo_server_new_def total_bits_def
      split: if_splits)

theorem node_pdo_exchange_witness:
  "\<exists>f od'. node_tpdo (list_node_ops 4) 0 example_producer = Done (Some f) \<and>
    on_frame (list_node_ops 4) (tx_cob_id f) (tx_data f) example_consumer =
      Done (example_consumer\<lparr>nd_od := od'\<rparr>, None) \<and>
    (\<forall>a. lm_get (no_od (list_node_ops 4)) od' a =
      (if a \<in> me_address ` set (entries (list_ops 8) example_mapping)
       then map_option (\<lambda>x. x\<lparr>e_value := packed_value (no_od (list_node_ops 4)) (nd_od example_producer) a\<rparr>)
         (lm_get (no_od (list_node_ops 4)) (nd_od example_consumer) a)
       else lm_get (no_od (list_node_ops 4)) (nd_od example_consumer) a))"
proof (rule node_pdo_exchange [OF list_node.node_env_axioms wf_example_producer,
      where slot = "\<lparr>tp_cob_id = 0x181, tp_mapping = example_mapping, tp_transmission = SynchronousCyclic 1\<rparr>"
        and r = "\<lparr>rp_cob_id = 0x181, rp_mapping = example_mapping\<rparr>"])
  show "\<forall>e \<in> set (entries (list_ops 8) example_mapping).
      packable (no_od (list_node_ops 4)) (nd_od example_producer) e \<and>
      (\<exists>x. lm_get (no_od (list_node_ops 4)) (nd_od example_consumer) (me_address e) = Some x \<and>
        is_writable (e_access x) \<and> data_type_of (e_value x) =
          data_type_of (packed_value (no_od (list_node_ops 4)) (nd_od example_producer) (me_address e)))"
    by (simp add: example_pdo_defs packable_iff packed_value_def od_read_def is_variable_def
        value_size_def type_size_def)
qed (simp_all add: example_pdo_defs node_state_def lss_unconfigured_def srv_request_cob_id_def
    request_cob_id_def sdo_server_new_def)

section \<open>PDO configuration from the dictionary\<close>

lemma configure_pdos_fold:
  "configure_pdos_from_od E nd = nd\<lparr>
     nd_rpdos := fold (\<lambda>n. push_slot (no_rpdos E) (build_rpdo (no_map E) (no_od E) (nd_od nd) n))
       [0, 1, 2, 3] (v_clear (no_rpdos E) (nd_rpdos nd)),
     nd_tpdos := fold (\<lambda>n. push_slot (no_tpdos E) (build_tpdo (no_map E) (no_od E) (nd_od nd) n))
       [0, 1, 2, 3] (v_clear (no_tpdos E) (nd_tpdos nd))\<rparr>"
proof -
  have "map of_nat [0..<4] = [0, 1, 2, 3 :: u16]" by (simp add: upt_rec)
  then show ?thesis by (simp add: configure_pdos_from_od_def)
qed

context bounded_vec
begin

lemma push_slot_slice:
  assumes "v_len V v < N"
  shows "v_slice V (push_slot V slot v) =
    v_slice V v @ (case slot of None \<Rightarrow> [] | Some x \<Rightarrow> [x])"
proof (cases slot)
  case None
  then show ?thesis by (simp add: push_slot_def)
next
  case (Some x)
  then show ?thesis using push_room [OF assms, of x] by (auto simp: push_slot_def)
qed

lemma fold_push_slot:
  "v_len V v + length xs \<le> N \<Longrightarrow>
   v_slice V (fold (\<lambda>n. push_slot V (f n)) xs v) = v_slice V v @ List.map_filter f xs"
proof (induction xs arbitrary: v)
  case Nil
  then show ?case by (simp add: List.map_filter_def)
next
  case (Cons n xs)
  then have slice: "v_slice V (push_slot V (f n) v) =
      v_slice V v @ (case f n of None \<Rightarrow> [] | Some x \<Rightarrow> [x])"
    by (intro push_slot_slice) simp
  then have "v_len V (push_slot V (f n) v) + length xs \<le> N"
    using Cons.prems by (auto split: option.splits)
  from Cons.IH [OF this] show ?case by (auto simp: slice List.map_filter_def split: option.splits)
qed

end

context mapping_vec
begin

lemma push_mapped_bits:
  "push_mapped V M od idx subs m = Some m' \<Longrightarrow> total_bits V m \<le> 64 \<Longrightarrow> total_bits V m' \<le> 64"
proof (induction subs arbitrary: m)
  case (Cons sub subs)
  then obtain w m1 where "mapping_push V m (mapping_from_u32 w) = Inr m1"
    "push_mapped V M od idx subs m1 = Some m'"
    by (auto split: option.splits sum.splits)
  then show ?case using Cons.IH mapping_push_bound(2) by blast
qed simp

lemma mapping_new_bits: "total_bits V (pdo_mapping_new V) = 0" "entries V (pdo_mapping_new V) = []"
  by (simp_all add: total_bits_def entries_def pdo_mapping_new_def slice_new)

lemma read_pdo_mapping_bits: "read_pdo_mapping V M od idx = Some m \<Longrightarrow> total_bits V m \<le> 64"
  by (auto simp: read_pdo_mapping_def mapping_new_bits simp del: upt_Suc
      split: option.splits intro: push_mapped_bits)

lemma build_rpdo_bits: "build_rpdo V M od n = Some r \<Longrightarrow> total_bits V (rp_mapping r) \<le> 64"
  by (auto simp: build_rpdo_def split: option.splits if_splits intro: read_pdo_mapping_bits)

lemma build_tpdo_bits: "build_tpdo V M od n = Some t \<Longrightarrow> total_bits V (tp_mapping t) \<le> 64"
  by (auto simp: build_tpdo_def Let_def split: option.splits if_splits intro: read_pdo_mapping_bits)

end

lemma map_filter_iff: "x \<in> set (List.map_filter f xs) \<longleftrightarrow> (\<exists>n \<in> set xs. f n = Some x)"
  by (auto simp: List.map_filter_def image_iff)

context node_env
begin

lemma configure_pdos_result:
  "v_slice (no_rpdos E) (nd_rpdos (configure_pdos_from_od E nd)) =
     List.map_filter (build_rpdo (no_map E) (no_od E) (nd_od nd)) [0, 1, 2, 3]"
  "v_slice (no_tpdos E) (nd_tpdos (configure_pdos_from_od E nd)) =
     List.map_filter (build_tpdo (no_map E) (no_od E) (nd_od nd)) [0, 1, 2, 3]"
  using rpdos.fold_push_slot [of "v_clear (no_rpdos E) (nd_rpdos nd)" "[0, 1, 2, 3]"
      "build_rpdo (no_map E) (no_od E) (nd_od nd)"]
    tpdos.fold_push_slot [of "v_clear (no_tpdos E) (nd_tpdos nd)" "[0, 1, 2, 3]"
      "build_tpdo (no_map E) (no_od E) (nd_od nd)"]
  by (simp_all add: configure_pdos_fold rpdos.slice_clear tpdos.slice_clear)

lemma length_map_filter_le: "length (List.map_filter f xs) \<le> length xs"
  by (simp add: List.map_filter_def)

lemma configure_pdos_wf:
  assumes "wf_node E nd"
  shows "wf_node E (configure_pdos_from_od E nd)"
proof -
  let ?r = "List.map_filter (build_rpdo (no_map E) (no_od E) (nd_od nd)) [0, 1, 2, 3]"
  let ?t = "List.map_filter (build_tpdo (no_map E) (no_od E) (nd_od nd)) [0, 1, 2, 3]"
  have "length ?r \<le> 4" "length ?t \<le> 4"
    using length_map_filter_le [of "build_rpdo (no_map E) (no_od E) (nd_od nd)" "[0, 1, 2, 3]"]
      length_map_filter_le [of "build_tpdo (no_map E) (no_od E) (nd_od nd)" "[0, 1, 2, 3]"] by simp_all
  moreover have "\<forall>r \<in> set ?r. total_bits (no_map E) (rp_mapping r) \<le> 64"
    "\<forall>t \<in> set ?t. total_bits (no_map E) (tp_mapping t) \<le> 64"
    by (auto simp only: map_filter_iff dest!: maps.build_rpdo_bits maps.build_tpdo_bits)
  moreover have "nd_od (configure_pdos_from_od E nd) = nd_od nd"
    "nd_sdo (configure_pdos_from_od E nd) = nd_sdo nd"
    "nd_id (configure_pdos_from_od E nd) = nd_id nd"
    "nd_error_history (configure_pdos_from_od E nd) = nd_error_history nd"
    by (simp_all add: configure_pdos_fold)
  ultimately show ?thesis using assms by (simp add: wf_node_def configure_pdos_result)
qed

end

section \<open>What the dictionary says about PDOs\<close>

text \<open>
  The specification of the PDO parameter objects, over the dictionary as a map and in plain numbers: the
  words stored at an object, the entries a mapping object lists, when a PDO is configured (a COB-ID word
  whose bit 31 is clear, and at most eight entries of at most 64 bits in all, none missing), and what its
  slot must be: the low eleven bits of the COB-ID word, and index, subindex and length of every entry.
\<close>

definition stored_u32 :: "(address \<rightharpoonup> entry) \<Rightarrow> u16 \<Rightarrow> u8 \<Rightarrow> u32 option" where
  "stored_u32 m i s =
     (case m (Address i s) of
        Some e \<Rightarrow> (case e_value e of Unsigned32 w \<Rightarrow> if e_access e = Wo then None else Some w | _ \<Rightarrow> None)
      | None \<Rightarrow> None)"

definition stored_u8 :: "(address \<rightharpoonup> entry) \<Rightarrow> u16 \<Rightarrow> u8 \<Rightarrow> u8 option" where
  "stored_u8 m i s =
     (case m (Address i s) of
        Some e \<Rightarrow> (case e_value e of Unsigned8 b \<Rightarrow> if e_access e = Wo then None else Some b | _ \<Rightarrow> None)
      | None \<Rightarrow> None)"

definition listed_words :: "(address \<rightharpoonup> entry) \<Rightarrow> u16 \<Rightarrow> u32 list option" where
  "listed_words m i =
     (case stored_u8 m i 0 of
        Some count \<Rightarrow> those (map (\<lambda>s. stored_u32 m i (of_nat s)) [1..<Suc (unat count)])
      | None \<Rightarrow> None)"

definition pdo_configured :: "(address \<rightharpoonup> entry) \<Rightarrow> u16 \<Rightarrow> u16 \<Rightarrow> bool" where
  "pdo_configured m comm mapping \<longleftrightarrow>
     (case (stored_u32 m comm 1, listed_words m mapping) of
        (Some w, Some ws) \<Rightarrow> \<not> bit w 31 \<and> length ws \<le> 8 \<and> sum_list (map (\<lambda>w. unat w mod 256) ws) \<le> 64
      | _ \<Rightarrow> False)"

definition slot_described :: "(address \<rightharpoonup> entry) \<Rightarrow> u16 \<Rightarrow> u16 \<Rightarrow> u16 \<Rightarrow> mapping_entry list \<Rightarrow> bool" where
  "slot_described m comm mapping cob_id es \<longleftrightarrow>
     (case (stored_u32 m comm 1, listed_words m mapping) of
        (Some w, Some ws) \<Rightarrow> unat cob_id = unat w mod 2048 \<and>
          map (\<lambda>e. (unat (index (me_address e)), unat (subindex (me_address e)), unat (me_bit_length e))) es =
          map (\<lambda>w. (unat w div 65536, unat w div 256 mod 256, unat w mod 256)) ws
      | _ \<Rightarrow> False)"

definition transmission_described :: "(address \<rightharpoonup> entry) \<Rightarrow> u16 \<Rightarrow> transmission_type \<Rightarrow> bool" where
  "transmission_described m comm tt \<longleftrightarrow>
     (case stored_u8 m comm 2 of
        Some b \<Rightarrow> if b \<le> 240 \<or> 252 \<le> b then wf_transmission tt \<and> transmission_to_byte tt = b
                  else tt = EventDrivenProfile
      | None \<Rightarrow> tt = EventDrivenProfile)"

lemma od_u32_stored: "od_u32 M od i s = stored_u32 (lm_get M od) i s"
  by (auto simp: od_u32_def stored_u32_def od_read_def is_readable_def
      split: option.splits od_value.splits access_type.splits)

lemma od_u8_stored: "od_u8 M od i s = stored_u8 (lm_get M od) i s"
  by (auto simp: od_u8_def stored_u8_def od_read_def is_readable_def
      split: option.splits od_value.splits access_type.splits)

lemma entry_of_word:
  "unat (index (me_address (mapping_from_u32 w))) = unat w div 65536"
  "unat (subindex (me_address (mapping_from_u32 w))) = unat w div 256 mod 256"
  "unat (me_bit_length (mapping_from_u32 w)) = unat w mod 256"
proof -
  have "unat w < 2 ^ 32" using unsigned_less [of w] by simp
  then show "unat (index (me_address (mapping_from_u32 w))) = unat w div 65536"
    by (simp add: mapping_from_u32_def unsigned_ucast_eq unsigned_drop_bit_eq drop_bit_eq_div unat_div_distrib
        take_bit_eq_mod)
qed (simp_all add: mapping_from_u32_def unsigned_ucast_eq unsigned_drop_bit_eq drop_bit_eq_div unat_div_distrib
    take_bit_eq_mod)

lemma can_id_of_word: "unat (pdo_can_id w) = unat w mod 2048"
proof -
  have "w AND 0x7FF = w mod 2048" using take_bit_eq_mask [of 11 w] by (simp add: mask_eq_exp_minus_1 take_bit_eq_mod)
  then show ?thesis by (simp add: pdo_can_id_def unsigned_ucast_eq unat_mod_distrib take_bit_eq_mod)
qed

lemma valid_word: "pdo_is_valid w \<longleftrightarrow> \<not> bit w 31"
proof -
  have "(0x80000000 :: u32) = 2 ^ 31" by simp
  then show ?thesis by (simp only: pdo_is_valid_def and_exp_eq_0_iff_not_bit)
qed

context mapping_vec
begin

lemma push_mapped_iff:
  "total_bits V m \<le> 64 \<Longrightarrow> mapping_len V m \<le> N \<Longrightarrow>
   case those (map (\<lambda>s. od_u32 M od idx (of_nat s)) subs) of
     None \<Rightarrow> push_mapped V M od idx subs m = None
   | Some ws \<Rightarrow>
       if total_bits V m + sum_list (map (\<lambda>w. unat w mod 256) ws) \<le> 64 \<and> mapping_len V m + length ws \<le> N
       then \<exists>m'. push_mapped V M od idx subs m = Some m' \<and> entries V m' = entries V m @ map mapping_from_u32 ws
       else push_mapped V M od idx subs m = None"
proof (induction subs arbitrary: m)
  case Nil
  then show ?case by simp
next
  case (Cons sub subs)
  show ?case
  proof (cases "od_u32 M od idx (of_nat sub)")
    case None
    then show ?thesis by simp
  next
    case (Some w)
    show ?thesis
    proof (cases "mapping_push V m (mapping_from_u32 w)")
      case (Inl err)
      then have "64 < total_bits V m + unat w mod 256 \<or> N \<le> mapping_len V m"
        using mapping_push_error [of m "mapping_from_u32 w" err] by (auto simp: entry_of_word split: if_splits)
      then show ?thesis using Some Inl by (auto split: option.splits)
    next
      case (Inr m1)
      note m1 = mapping_push_bound [OF Inr]
      have len: "mapping_len V m1 = Suc (mapping_len V m)"
        using m1(3) by (simp add: mapping_len_def entries_def)
      moreover have "mapping_len V m < N"
        using Inr push_full [of "pm_entries m" "mapping_from_u32 w"]
        by (auto simp: mapping_push_def mapping_len_def split: if_splits option.splits)
      ultimately show ?thesis
        using Cons.IH [OF m1(2)] Some Inr m1(1,3)
        by (auto simp: entry_of_word split: option.splits if_splits)
    qed
  qed
qed

end

lemma list_all2_map_filter:
  assumes "\<And>n. n \<in> set ns \<Longrightarrow> case f n of None \<Rightarrow> \<not> P n | Some x \<Rightarrow> P n \<and> R n x"
  shows "list_all2 R (filter P ns) (List.map_filter f ns)"
  using assms
proof (induction ns)
  case (Cons n ns)
  have "list_all2 R (filter P ns) (List.map_filter f ns)"
    by (rule Cons.IH) (use Cons.prems in simp)
  moreover have "case f n of None \<Rightarrow> \<not> P n | Some x \<Rightarrow> P n \<and> R n x" by (rule Cons.prems) simp
  ultimately show ?case by (cases "f n") (simp_all add: List.map_filter_simps)
qed (simp add: List.map_filter_simps)

context mapping_vec
begin

lemma read_pdo_mapping_iff:
  "case listed_words (lm_get M od) idx of
     None \<Rightarrow> read_pdo_mapping V M od idx = None
   | Some ws \<Rightarrow>
       if length ws \<le> N \<and> sum_list (map (\<lambda>w. unat w mod 256) ws) \<le> 64
       then \<exists>m. read_pdo_mapping V M od idx = Some m \<and> entries V m = map mapping_from_u32 ws
       else read_pdo_mapping V M od idx = None"
proof (cases "stored_u8 (lm_get M od) idx 0")
  case None
  then show ?thesis by (simp add: read_pdo_mapping_def listed_words_def od_u8_stored)
next
  case (Some count)
  have "mapping_len V (pdo_mapping_new V) = 0" by (simp add: mapping_len_def pdo_mapping_new_def slice_new)
  then show ?thesis
    using push_mapped_iff [of "pdo_mapping_new V" M od idx "[1..<Suc (unat count)]"] Some
    by (auto simp: read_pdo_mapping_def listed_words_def od_u8_stored od_u32_stored mapping_new_bits
        simp del: upt_Suc split: option.splits if_splits)
qed

end

lemma slot_described_words:
  assumes "stored_u32 m comm 1 = Some w" and "listed_words m mapping = Some ws"
  shows "slot_described m comm mapping (pdo_can_id w) (map mapping_from_u32 ws)"
  using assms by (simp add: slot_described_def can_id_of_word entry_of_word)

lemma build_rpdo_spec:
  assumes "mapping_vec P MAX_PDO_MAPPING"
  shows "case build_rpdo P M od n of
      None \<Rightarrow> \<not> pdo_configured (lm_get M od) (0x1400 + n) (0x1600 + n)
    | Some r \<Rightarrow> pdo_configured (lm_get M od) (0x1400 + n) (0x1600 + n) \<and>
        slot_described (lm_get M od) (0x1400 + n) (0x1600 + n) (rp_cob_id r) (entries P (rp_mapping r))"
  using mapping_vec.read_pdo_mapping_iff [OF assms, of M od "0x1600 + n"]
  by (auto simp: build_rpdo_def od_u32_stored pdo_configured_def valid_word slot_described_words
      split: option.splits if_splits)

lemma transmission_read:
  "transmission_described (lm_get M od) comm
     (case od_u8 M od comm 2 of
        None \<Rightarrow> EventDrivenProfile
      | Some b \<Rightarrow> (case transmission_from_byte b of Inr tt \<Rightarrow> tt | Inl _ \<Rightarrow> EventDrivenProfile))"
proof (cases "stored_u8 (lm_get M od) comm 2")
  case None
  then show ?thesis by (simp add: transmission_described_def od_u8_stored)
next
  case (Some b)
  have "transmission_from_byte b = Inr tt \<Longrightarrow> wf_transmission tt \<and> transmission_to_byte tt = b" for tt
    using transmission_byte.enc_dec by blast
  moreover have "(\<exists>tt. transmission_from_byte b = Inr tt) \<longleftrightarrow> b \<le> 240 \<or> 252 \<le> b"
  proof -
    have "unat b < 256" using unsigned_less [of b] by simp
    then have "252 \<le> b \<Longrightarrow> b = 252 \<or> b = 253 \<or> b = 254 \<or> b = 255"
      by (simp add: word_le_nat_alt word_unat_eq_iff) linarith
    moreover have "b \<noteq> 0 \<Longrightarrow> 1 \<le> b" by (simp add: word_le_nat_alt word_unat_eq_iff)
    ultimately show ?thesis by (auto simp: transmission_from_byte_def)
  qed
  ultimately show ?thesis using Some
    by (auto simp: transmission_described_def od_u8_stored split: sum.splits)
qed

lemma build_tpdo_spec:
  assumes "mapping_vec P MAX_PDO_MAPPING"
  shows "case build_tpdo P M od n of
      None \<Rightarrow> \<not> pdo_configured (lm_get M od) (0x1800 + n) (0x1A00 + n)
    | Some t \<Rightarrow> pdo_configured (lm_get M od) (0x1800 + n) (0x1A00 + n) \<and>
        slot_described (lm_get M od) (0x1800 + n) (0x1A00 + n) (tp_cob_id t) (entries P (tp_mapping t)) \<and>
        transmission_described (lm_get M od) (0x1800 + n) (tp_transmission t)"
  using mapping_vec.read_pdo_mapping_iff [OF assms, of M od "0x1A00 + n"] transmission_read [of M od "0x1800 + n"]
  by (auto simp: build_tpdo_def Let_def od_u32_stored pdo_configured_def valid_word slot_described_words
      split: option.splits if_splits)

text \<open>C21: Reading the PDO configuration from the dictionary gives, in the order of the parameter objects,
  exactly one receive slot for each of 0x1400 to 0x1403 and one transmit slot for each of 0x1800 to 0x1803
  that is configured: the COB-ID word is present and not marked invalid, and the mapping object is
  complete, with at most eight entries of at most 64 bits. Every slot carries the CAN-id of its word, the
  objects that the mapping object lists, in its order, and the stored transmission type. Earlier slots
  are gone, nothing else of the node changes, and it stays well-formed, so that packing and unpacking the
  slots cannot panic.\<close>

theorem configure_pdos_correct:
  assumes "node_env E N" and "wf_node E nd" and "nd' = configure_pdos_from_od E nd"
    and "m = lm_get (no_od E) (nd_od nd)"
  shows "wf_node E nd' \<and> nd' = nd\<lparr>nd_rpdos := nd_rpdos nd', nd_tpdos := nd_tpdos nd'\<rparr> \<and>
    list_all2 (\<lambda>n r. slot_described m (0x1400 + n) (0x1600 + n) (rp_cob_id r)
        (entries (no_map E) (rp_mapping r)))
      (filter (\<lambda>n. pdo_configured m (0x1400 + n) (0x1600 + n)) [0, 1, 2, 3])
      (v_slice (no_rpdos E) (nd_rpdos nd')) \<and>
    list_all2 (\<lambda>n t. slot_described m (0x1800 + n) (0x1A00 + n) (tp_cob_id t)
          (entries (no_map E) (tp_mapping t)) \<and>
        transmission_described m (0x1800 + n) (tp_transmission t))
      (filter (\<lambda>n. pdo_configured m (0x1800 + n) (0x1A00 + n)) [0, 1, 2, 3])
      (v_slice (no_tpdos E) (nd_tpdos nd'))"
proof -
  have maps: "mapping_vec (no_map E) MAX_PDO_MAPPING" using assms(1) by (simp add: node_env_def)
  have "nd' = nd\<lparr>nd_rpdos := nd_rpdos nd', nd_tpdos := nd_tpdos nd'\<rparr>"
    by (simp add: assms(3) configure_pdos_fold)
  then show ?thesis
    using node_env.configure_pdos_wf [OF assms(1,2)] unfolding assms(3,4) node_env.configure_pdos_result [OF assms(1)]
    by (intro conjI list_all2_map_filter build_rpdo_spec [OF maps] build_tpdo_spec [OF maps])
qed

text \<open>A dictionary with a complete receive PDO, one marked invalid, one whose mapping object lacks an
  entry, an empty one, and a cyclic transmit PDO with a flag in its COB-ID word.\<close>

definition example_pdo_od :: "(address \<times> entry) list" where
  "example_pdo_od =
     [(Address 0x1400 1, entry_rw (Unsigned32 0x205)), (Address 0x1600 0, entry_rw (Unsigned8 2)),
      (Address 0x1600 1, entry_rw (Unsigned32 0x60000110)), (Address 0x1600 2, entry_rw (Unsigned32 0x60000208)),
      (Address 0x1401 1, entry_rw (Unsigned32 0x80000305)), (Address 0x1601 0, entry_rw (Unsigned8 0)),
      (Address 0x1402 1, entry_rw (Unsigned32 0x405)), (Address 0x1602 0, entry_rw (Unsigned8 1)),
      (Address 0x1403 1, entry_rw (Unsigned32 0x505)), (Address 0x1603 0, entry_rw (Unsigned8 0)),
      (Address 0x1800 1, entry_rw (Unsigned32 0x40000185)), (Address 0x1800 2, entry_rw (Unsigned8 5)),
      (Address 0x1A00 0, entry_rw (Unsigned8 1)), (Address 0x1A00 1, entry_rw (Unsigned32 0x60000110))]"

abbreviation (input) example_pdo_map :: "address \<rightharpoonup> entry" where
  "example_pdo_map \<equiv> map_of example_pdo_od"

lemma example_pdo_stored:
  "stored_u32 example_pdo_map 0x1400 1 = Some 0x205" "stored_u32 example_pdo_map 0x1401 1 = Some 0x80000305"
  "stored_u32 example_pdo_map 0x1402 1 = Some 0x405" "stored_u32 example_pdo_map 0x1403 1 = Some 0x505"
  "stored_u32 example_pdo_map 0x1800 1 = Some 0x40000185" "stored_u32 example_pdo_map 0x1801 1 = None"
  "stored_u32 example_pdo_map 0x1802 1 = None" "stored_u32 example_pdo_map 0x1803 1 = None"
  "stored_u8 example_pdo_map 0x1800 2 = Some 5"
  by (simp_all add: stored_u32_def stored_u8_def example_pdo_od_def entry_rw_def)

lemma example_pdo_listed:
  "listed_words example_pdo_map 0x1600 = Some [0x60000110, 0x60000208]"
  "listed_words example_pdo_map 0x1601 = Some []" "listed_words example_pdo_map 0x1602 = None"
  "listed_words example_pdo_map 0x1603 = Some []" "listed_words example_pdo_map 0x1A00 = Some [0x60000110]"
  by (simp_all add: listed_words_def stored_u32_def stored_u8_def example_pdo_od_def entry_rw_def upt_rec)

lemma example_pdo_configured:
  "filter (\<lambda>n. pdo_configured example_pdo_map (0x1400 + n) (0x1600 + n)) [0, 1, 2, 3] = [0, 3]"
  "filter (\<lambda>n. pdo_configured example_pdo_map (0x1800 + n) (0x1A00 + n)) [0, 1, 2, 3] = [0]"
  by (simp_all add: pdo_configured_def example_pdo_stored example_pdo_listed)

definition example_pdo_node ::
  "((address \<times> entry) list, u8 list, mapping_entry list rpdo_slot list,
    mapping_entry list tpdo_slot list, u32 list) node" where
  "example_pdo_node = node_new (list_node_ops 16) (NodeId 5) example_pdo_od"

theorem configure_pdos_correct_witness:
  "\<exists>nd' r0 r3 t0. nd' = configure_pdos_from_od (list_node_ops 16) example_pdo_node \<and>
    nd_rpdos nd' = [r0, r3] \<and> nd_tpdos nd' = [t0] \<and>
    unat (rp_cob_id r0) = 0x205 \<and> length (pm_entries (rp_mapping r0)) = 2 \<and>
    unat (rp_cob_id r3) = 0x505 \<and> pm_entries (rp_mapping r3) = [] \<and>
    unat (tp_cob_id t0) = 0x185 \<and> length (pm_entries (tp_mapping t0)) = 1 \<and>
    transmission_to_byte (tp_transmission t0) = 5"
proof -
  have wf: "wf_node (list_node_ops 16) example_pdo_node"
    unfolding example_pdo_node_def by (rule list_node.wf_node_new) (simp add: wf_od_def example_pdo_od_def)
  have m: "example_pdo_map = lm_get (no_od (list_node_ops 16)) (nd_od example_pdo_node)"
    by (simp add: example_pdo_node_def node_new_def)
  define nd' where "nd' = configure_pdos_from_od (list_node_ops 16) example_pdo_node"
  have slots: "list_all2 (\<lambda>n r. slot_described example_pdo_map (0x1400 + n) (0x1600 + n) (rp_cob_id r)
        (pm_entries (rp_mapping r))) [0, 3] (nd_rpdos nd')"
    "list_all2 (\<lambda>n t. slot_described example_pdo_map (0x1800 + n) (0x1A00 + n) (tp_cob_id t)
          (pm_entries (tp_mapping t)) \<and>
        transmission_described example_pdo_map (0x1800 + n) (tp_transmission t)) [0] (nd_tpdos nd')"
    using configure_pdos_correct [OF list_node.node_env_axioms wf nd'_def m]
    unfolding example_pdo_configured by (simp_all add: entries_def)
  show ?thesis using slots
    by (fastforce simp: nd'_def [symmetric] list_all2_Cons1 slot_described_def transmission_described_def
        example_pdo_stored example_pdo_listed)
qed

end
