(* ===== verification/Node_Reach.thy ===== *)
theory Node_Reach
  imports Node_Pdo
begin

text \<open>
  All operations of a node as one step relation, the nodes reachable by it, and the invariant that no
  history breaks.
\<close>

section \<open>All histories of a node\<close>

text \<open>
  One call on a node, as an application can make it: a received frame, an operation of the node's
  interface, or a change through the mutable borrow of the dictionary. The mappings handed to
  \<open>add_rpdo\<close> and \<open>add_tpdo\<close> were built by \<open>push\<close>, which keeps them at 64 bits (\<open>mapping_push_bound\<close>).
\<close>

inductive node_step ::
  "('m, 'b, 'p, 'r, 't, 'h, 'f) node_ops \<Rightarrow> ('m, 'b, 'r, 't, 'h) node \<Rightarrow>
    ('m, 'b, 'r, 't, 'h) node \<Rightarrow> bool" for E where
  step_frame: "on_frame E cob_id data nd = Done (nd', out) \<Longrightarrow> node_step E nd nd'"
| step_boot: "node_step E nd (fst (node_boot nd))"
| step_guard: "node_step E nd (fst (node_guard_response nd))"
| step_raise: "length info = 5 \<Longrightarrow> raise_emergency E code reg info nd = Done (nd', f) \<Longrightarrow>
    node_step E nd nd'"
| step_clear: "node_step E nd (fst (clear_errors E nd))"
| step_producer: "enable_sync_producer overflow nd = Inr nd' \<Longrightarrow> node_step E nd nd'"
| step_sync: "node_step E nd (fst (produce_sync nd))"
| step_lss: "node_step E nd (enable_lss a nd)"
| step_lss_unconfigured: "node_step E nd (enable_lss_unconfigured a nd)"
| step_id: "node_step E nd (set_node_id n nd)"
| step_apply: "node_step E nd (fst (apply_lss_node_id nd))"
| step_rpdo: "total_bits (no_map E) m \<le> 64 \<Longrightarrow> add_rpdo E cob_id m nd = Inr nd' \<Longrightarrow>
    node_step E nd nd'"
| step_tpdo: "total_bits (no_map E) m \<le> 64 \<Longrightarrow> add_tpdo E cob_id m tt nd = Inr nd' \<Longrightarrow>
    node_step E nd nd'"
| step_configure: "node_step E nd (configure_pdos_from_od E nd)"
| step_take: "node_step E nd (snd (take_written_object nd))"
| step_od: "wf_od (no_od E) od' \<Longrightarrow> node_step E nd (nd\<lparr>nd_od := od'\<rparr>)"

text \<open>The nodes an application can get to from a fresh one.\<close>

inductive node_reachable ::
  "('m, 'b, 'p, 'r, 't, 'h, 'f) node_ops \<Rightarrow> ('m, 'b, 'r, 't, 'h) node \<Rightarrow> bool" for E where
  reach_new: "wf_od (no_od E) od \<Longrightarrow> node_reachable E (node_new E n od)"
| reach_step: "node_reachable E nd \<Longrightarrow> node_step E nd nd' \<Longrightarrow> node_reachable E nd'"

context node_env
begin

lemma wf_add_rpdo:
  assumes "wf_node E nd" and "total_bits (no_map E) m \<le> 64" and "add_rpdo E cob_id m nd = Inr nd'"
  shows "wf_node E nd'"
proof -
  obtain r where r: "v_push (no_rpdos E) (nd_rpdos nd) \<lparr>rp_cob_id = cob_id, rp_mapping = m\<rparr> = Some r"
    "nd' = nd\<lparr>nd_rpdos := r\<rparr>" using assms(3) by (auto simp: add_rpdo_def split: option.splits)
  then have "v_len (no_rpdos E) (nd_rpdos nd) < 4" using rpdos.push_full by (metis not_le option.distinct(1))
  then show ?thesis using assms(1,2) r(2) rpdos.slice_push [OF r(1)] by (simp add: wf_node_def)
qed

lemma wf_add_tpdo:
  assumes "wf_node E nd" and "total_bits (no_map E) m \<le> 64" and "add_tpdo E cob_id m tt nd = Inr nd'"
  shows "wf_node E nd'"
proof -
  obtain t where t: "v_push (no_tpdos E) (nd_tpdos nd)
      \<lparr>tp_cob_id = cob_id, tp_mapping = m, tp_transmission = tt\<rparr> = Some t"
    "nd' = nd\<lparr>nd_tpdos := t\<rparr>" using assms(3) by (auto simp: add_tpdo_def split: option.splits)
  then have "v_len (no_tpdos E) (nd_tpdos nd) < 4" using tpdos.push_full by (metis not_le option.distinct(1))
  then show ?thesis using assms(1,2) t(2) tpdos.slice_push [OF t(1)] by (simp add: wf_node_def)
qed

lemma wf_set_node_id: "wf_node E nd \<Longrightarrow> wf_node E (set_node_id n nd)"
  by (simp add: wf_node_def set_node_id_def sdo_server_new_def wf_srv_def)

lemma wf_apply_lss: "wf_node E nd \<Longrightarrow> wf_node E (fst (apply_lss_node_id nd))"
  by (auto simp: apply_lss_node_id_def Let_def wf_node_od(3) wf_set_node_id
      split: option.splits sum.splits)

lemma wf_clear_errors: "wf_node E nd \<Longrightarrow> wf_node E (fst (clear_errors E nd))"
  by (simp add: clear_errors_def Let_def wf_node_def mirror_error_objects_sel history.slice_clear
      mirror_error_objects_wf)

lemma wf_node_step: "node_step E nd nd' \<Longrightarrow> wf_node E nd \<Longrightarrow> wf_node E nd'"
proof (induction rule: node_step.induct)
  case (step_frame cob_id data nd nd' out)
  then show ?case using on_frame_post [of nd cob_id data] by (simp add: frame_post_def)
next
  case (step_raise info code reg nd nd' f)
  then show ?case using raise_emergency_result [of nd info code reg] by auto
next
  case (step_rpdo m cob_id nd nd')
  then show ?case using wf_add_rpdo by blast
next
  case (step_tpdo m cob_id tt nd nd')
  then show ?case using wf_add_tpdo by blast
next
  case (step_od od' nd)
  then show ?case by (simp add: wf_node_od(1))
qed (auto simp: wf_clear_errors wf_set_node_id wf_apply_lss configure_pdos_wf,
    auto simp: wf_node_def node_boot_def node_guard_response_def Let_def enable_sync_producer_def
      produce_sync_def enable_lss_def enable_lss_unconfigured_def take_written_object_def
      take_write_def wf_srv_def
      split: option.splits prod.splits sum.splits)

lemma wf_reachable: "node_reachable E nd \<Longrightarrow> wf_node E nd"
  by (induction rule: node_reachable.induct) (auto intro: wf_node_new wf_node_step)

end

text \<open>C6: Whatever an application does with a node, none of its operations can panic. From a fresh
  node with a well-formed dictionary, after any sequence of received frames, emergencies, PDO and LSS
  configuration, dictionary changes and resets, the node is well-formed, and the next frame, emergency,
  transmit PDO or SYNC is served.\<close>

theorem node_never_panics:
  assumes "node_env E N" and "node_reachable E nd"
  shows "wf_node E nd \<and> on_frame E cob_id data nd \<noteq> Panic \<and>
    (length info = 5 \<longrightarrow> raise_emergency E code reg info nd \<noteq> Panic) \<and>
    node_tpdo E i nd \<noteq> Panic \<and> sync_tpdos E nd \<noteq> Panic"
proof -
  have wf: "wf_node E nd" by (rule node_env.wf_reachable [OF assms])
  show ?thesis
    using wf node_env.on_frame_post [OF assms(1) wf, of cob_id data] node_tpdo_result [OF wf, of i]
      node_env.sync_tpdos_result [OF assms(1) wf]
      node_env.raise_emergency_result [OF assms(1) wf, of info code reg]
    by (auto simp: frame_post_def)
qed

theorem node_never_panics_witness:
  "wf_node (list_node_ops 4) (fst (node_boot example_node)) \<and>
    on_frame (list_node_ops 4) 0x610 [0x40, 0, 0x10, 0, 0, 0, 0, 0] (fst (node_boot example_node)) \<noteq>
      Panic \<and>
    raise_emergency (list_node_ops 4) 0x3000 (ErrorRegister 4) [0, 0, 0, 0, 0]
      (fst (node_boot example_node)) \<noteq> Panic \<and>
    node_tpdo (list_node_ops 4) 0 (fst (node_boot example_node)) \<noteq> Panic \<and>
    sync_tpdos (list_node_ops 4) (fst (node_boot example_node)) \<noteq> Panic"
proof -
  have "node_reachable (list_node_ops 4) example_node"
    unfolding example_node_def by (rule reach_new) (simp add: wf_od_def)
  then have "node_reachable (list_node_ops 4) (fst (node_boot example_node))"
    by (rule reach_step) (rule step_boot)
  from node_never_panics [OF list_node.node_env_axioms this, of _ _ "[0, 0, 0, 0, 0]"]
  show ?thesis by simp
qed

end
