(* ===== verification/Standard.thy ===== *)
theory Standard
  imports Node_Reach
begin

text \<open>
  \<^verbatim>\<open>core/src/standard.rs\<close>: the builder of the mandatory communication-profile objects, with the exact
  number of objects it needs and the use of its dictionary by a node's emergencies.
\<close>

record standard_objects =
  so_device_type :: u32
  so_identity :: lss_address
  so_producer_heartbeat_ms :: u16
  so_error_history_len :: u8
  so_device_name :: "byte_string option"

definition standard_new :: "u32 \<Rightarrow> lss_address \<Rightarrow> standard_objects" where
  "standard_new device_type ident =
     \<lparr>so_device_type = device_type, so_identity = ident, so_producer_heartbeat_ms = 0,
      so_error_history_len = 0, so_device_name = None\<rparr>"

definition with_heartbeat :: "u16 \<Rightarrow> standard_objects \<Rightarrow> standard_objects" where
  "with_heartbeat ms s = s\<lparr>so_producer_heartbeat_ms := ms\<rparr>"

definition with_error_history :: "u8 \<Rightarrow> standard_objects \<Rightarrow> standard_objects" where
  "with_error_history n s = s\<lparr>so_error_history_len := n\<rparr>"

text \<open>The name is given by its UTF-8 bytes; \<open>ok\<close> is \<open>Result::ok\<close>.\<close>

definition with_device_name :: "u8 list \<Rightarrow> standard_objects \<Rightarrow> standard_objects" where
  "with_device_name name s =
     (let end' = min (length name) MAX_STRING_LEN
      in s\<lparr>so_device_name := ok (from_bytes (take end' name))\<rparr>)"

text \<open>
  \<open>insert_into\<close> is a sequence of insertions, each ending the function with its error; what was
  inserted before stays. \<open>standard_entries\<close> lists them in the order of the source.
\<close>

definition standard_entries :: "standard_objects \<Rightarrow> (address \<times> entry) list" where
  "standard_entries s =
     [(Address 0x1000 0, entry_constant (Unsigned32 (so_device_type s))),
      (Address 0x1001 0, entry_ro (Unsigned8 0)),
      (Address 0x1017 0, entry_rw (Unsigned16 (so_producer_heartbeat_ms s))),
      (Address 0x1018 0, entry_constant (Unsigned8 4)),
      (Address 0x1018 1, entry_constant (Unsigned32 (vendor_id (so_identity s)))),
      (Address 0x1018 2, entry_constant (Unsigned32 (product_code (so_identity s)))),
      (Address 0x1018 3, entry_constant (Unsigned32 (revision_number (so_identity s)))),
      (Address 0x1018 4, entry_constant (Unsigned32 (serial_number (so_identity s))))] @
     (case so_device_name s of
        None \<Rightarrow> []
      | Some name \<Rightarrow> [(Address 0x1008 0, entry_constant (VisibleString name))]) @
     (if so_error_history_len s > 0
      then (Address 0x1003 0, entry_rw (Unsigned8 0)) #
        map (\<lambda>sub. (Address 0x1003 (of_nat sub), entry_ro (Unsigned32 0)))
          [1..<Suc (unat (so_error_history_len s))]
      else [])"

definition insert_into :: "'m od_ops \<Rightarrow> standard_objects \<Rightarrow> 'm \<Rightarrow> 'm \<times> (core_error + unit)" where
  "insert_into M s od = insert_all M (standard_entries s) od"

section \<open>What is inserted\<close>

text \<open>The number of objects the builder needs room for.\<close>

definition standard_count :: "standard_objects \<Rightarrow> nat" where
  "standard_count s = 8 + (if so_device_name s = None then 0 else 1) +
     (if so_error_history_len s = 0 then 0 else unat (so_error_history_len s) + 1)"

lemma length_standard_entries: "length (standard_entries s) = standard_count s"
  by (auto simp: standard_entries_def standard_count_def word_gt_0 split: option.splits)

lemma distinct_error_field:
  "distinct (Address 0x1003 0 # map (\<lambda>sub. Address 0x1003 (of_nat sub)) [1..<Suc (unat (n :: u8))])"
proof -
  have "unat n < 256" using unsigned_less [of n] by simp
  then have "inj_on (\<lambda>sub. Address 0x1003 (of_nat sub)) {0..<Suc (unat n)}"
    by (intro inj_onI) (simp add: word_unat_eq_iff unat_of_nat)
  then have "distinct (map (\<lambda>sub. Address 0x1003 (of_nat sub)) [0..<Suc (unat n)])"
    by (simp add: distinct_map del: upt_Suc)
  then show ?thesis by (simp add: upt_conv_Cons del: upt_Suc)
qed

lemma distinct_standard: "distinct (map fst (standard_entries s))"
  using distinct_error_field [of "so_error_history_len s"]
  by (auto simp: standard_entries_def o_def case_prod_unfold split: option.splits simp del: upt_Suc)

lemma standard_values_wf:
  "pred_option wf_bs (so_device_name s) \<Longrightarrow> (a, e) \<in> set (standard_entries s) \<Longrightarrow> wf_value (e_value e)"
  by (cases "so_device_name s") (auto simp: standard_entries_def split: if_splits)

lemma standard_addresses_card:
  "card (fst ` set (standard_entries s)) = standard_count s"
  by (metis distinct_card distinct_standard image_set length_map length_standard_entries)

text \<open>The builder inserts exactly its objects, overwriting what was there and leaving the rest, if
  the dictionary has room for all of them together with what it holds, and otherwise fails with
  DictionaryFull. A fresh dictionary needs room for eight base objects, one for a device name and, for
  an error history of n entries, n + 1.\<close>

lemma standard_insert_result:
  assumes "object_map M N" and "card (dom (lm_get M od)) \<le> N" and "insert_into M s od = (od', r)"
  shows "(if card (dom (lm_get M od) \<union> fst ` set (standard_entries s)) \<le> N
      then r = Inr () \<and> lm_get M od' = lm_get M od ++ map_of (standard_entries s)
      else r = Inl DictionaryFull) \<and>
    (lm_get M od = Map.empty \<longrightarrow> (r = Inr () \<longleftrightarrow> standard_count s \<le> N))"
  using object_map.insert_all_result [OF assms(1,2), of "standard_entries s" od' r] assms(3)
    standard_addresses_card [of s] map_of_rev_distinct [OF distinct_standard, of s]
  by (auto simp: insert_into_def split: if_splits)

definition example_standard :: standard_objects where
  "example_standard = with_error_history 2 (with_heartbeat 1000 (standard_new 0x192 example_address))"

lemma example_standard_count: "standard_count example_standard = 11"
  by (simp add: standard_count_def example_standard_def with_error_history_def with_heartbeat_def
      standard_new_def)

text \<open>C37: A node whose dictionary the builder filled records its emergencies there: after the first
  emergency, object 0x1001 reads the raised bits with the generic bit, 0x1003:0 reads one and 0x1003:1
  the code, while the identity object 0x1018 still reads the four values of the device.\<close>

theorem standard_node_reports_emergency:
  assumes "node_env E N" and "standard_count s \<le> N" and "0 < so_error_history_len s"
    and "pred_option wf_bs (so_device_name s)" and "length info = 5"
    and "insert_into (no_od E) s (od_new (no_od E)) = (od, r)"
  shows "\<exists>nd' f. raise_emergency E code reg info (node_new E n od) = Done (nd', f) \<and>
    od_read (no_od E) (nd_od nd') (Address 0x1001 0) = Inr (Unsigned8 (reg_bits reg OR GENERIC)) \<and>
    od_read (no_od E) (nd_od nd') (Address 0x1003 0) = Inr (Unsigned8 1) \<and>
    od_read (no_od E) (nd_od nd') (Address 0x1003 1) = Inr (Unsigned32 (ucast code)) \<and>
    od_read (no_od E) (nd_od nd') (Address 0x1018 1) = Inr (Unsigned32 (vendor_id (so_identity s))) \<and>
    od_read (no_od E) (nd_od nd') (Address 0x1018 2) = Inr (Unsigned32 (product_code (so_identity s))) \<and>
    od_read (no_od E) (nd_od nd') (Address 0x1018 3) = Inr (Unsigned32 (revision_number (so_identity s))) \<and>
    od_read (no_od E) (nd_od nd') (Address 0x1018 4) = Inr (Unsigned32 (serial_number (so_identity s)))"
proof -
  have map: "object_map (no_od E) N" using assms(1) by (simp add: node_env_def sdo_env_def)
  then have new: "lm_get (no_od E) (od_new (no_od E)) = Map.empty"
    by (simp add: od_new_def object_map_def linear_map.get_new)
  have od: "lm_get (no_od E) od = map_of (standard_entries s)"
    using object_map.insert_all_result [OF map, of "od_new (no_od E)" "standard_entries s" od r]
      assms(2,6) new standard_addresses_card [of s] map_of_rev_distinct [OF distinct_standard, of s]
    by (simp add: insert_into_def split: if_splits)
  have "wf_od (no_od E) od"
    using assms(4,6) standard_values_wf object_map.od_new_wf [OF map]
      object_map.insert_all_wf [OF map, of "standard_entries s" "od_new (no_od E)" od r]
    by (auto simp: insert_into_def)
  then have "wf_node E (node_new E n od)" by (rule node_env.wf_node_new [OF assms(1)])
  from node_env.raise_emergency_result [OF assms(1) this assms(5), of code reg]
  obtain nd' f where nd': "raise_emergency E code reg info (node_new E n od) = Done (nd', f)"
    "nd_error_register nd' = reg_bits reg OR GENERIC"
    "v_slice (no_history E) (nd_error_history nd') = [ucast code]"
    "lm_get (no_od E) (nd_od nd') = mirrored (map_of (standard_entries s)) (reg_bits reg OR GENERIC)
      [ucast code]"
    using assms(1) by (auto simp: node_new_def od node_env_def bounded_vec.slice_new)
  have "1 < Suc (unat (so_error_history_len s))" using assms(3) by (simp add: unat_gt_0)
  then have sub1: "[Suc 0..<Suc (unat (so_error_history_len s))] =
      Suc 0 # [2..<Suc (unat (so_error_history_len s))]"
    by (simp add: upt_conv_Cons numeral_2_eq_2 del: upt_Suc)
  have "map_of (standard_entries s) (Address 0x1003 1) = Some (entry_ro (Unsigned32 0))"
    "map_of (standard_entries s) (Address 0x1003 0) = Some (entry_rw (Unsigned8 0))"
    using assms(3) by (auto simp: standard_entries_def sub1 split: option.splits simp del: upt_Suc)
  then show ?thesis
    using nd' by (simp add: od_read_def mirrored_def set_value_def standard_entries_def)
qed

theorem standard_node_reports_emergency_witness:
  "\<exists>nd' f. raise_emergency (list_node_ops 16) 0x3000 (ErrorRegister 4) [0, 0, 0, 0, 0]
      (node_new (list_node_ops 16) (NodeId 0x10)
        (fst (insert_into (assoc_ops 16) example_standard (od_new (assoc_ops 16))))) = Done (nd', f) \<and>
    od_read (assoc_ops 16) (nd_od nd') (Address 0x1001 0) = Inr (Unsigned8 5) \<and>
    od_read (assoc_ops 16) (nd_od nd') (Address 0x1003 1) = Inr (Unsigned32 0x3000)"
proof -
  obtain od r where od: "insert_into (assoc_ops 16) example_standard (od_new (assoc_ops 16)) = (od, r)"
    by (meson surj_pair)
  have "pred_option wf_bs (so_device_name example_standard)" "0 < so_error_history_len example_standard"
    "standard_count example_standard \<le> 16"
    by (simp_all add: example_standard_count)
      (simp_all add: example_standard_def with_error_history_def with_heartbeat_def standard_new_def)
  with standard_node_reports_emergency [OF list_node.node_env_axioms [of 16], where s = example_standard
      and info = "[0, 0, 0, 0, 0]" and od = od and r = r and code = "0x3000" and reg = "ErrorRegister 4"
      and n = "NodeId 0x10"] od
  show ?thesis by fastforce
qed

end
