(* ===== verification/Rust_Str.thy ===== *)
theory Rust_Str
  imports Prelude "HOL-Library.List_Lexorder"
begin

text \<open>
  The strings of the host crates. A \<open>str\<close> is the list of its Unicode scalar values; \<open>lit\<close> writes an
  ASCII literal. The functions are the operations of the Rust standard library that the parsers call.
\<close>

type_synonym rstr = "int list"

definition lit :: "string \<Rightarrow> rstr" where
  "lit s = map of_char s"

section \<open>UTF-8\<close>

text \<open>\<open>str::as_bytes\<close>: the UTF-8 encoding of a scalar value, one to four bytes.\<close>

definition utf8_char :: "int \<Rightarrow> u8 list" where
  "utf8_char c =
     (if c < 0x80 then [of_int c]
      else if c < 0x800 then [of_int (0xC0 + c div 64), of_int (0x80 + c mod 64)]
      else if c < 0x10000 then
        [of_int (0xE0 + c div 4096), of_int (0x80 + c div 64 mod 64), of_int (0x80 + c mod 64)]
      else [of_int (0xF0 + c div 262144), of_int (0x80 + c div 4096 mod 64),
            of_int (0x80 + c div 64 mod 64), of_int (0x80 + c mod 64)])"

definition utf8 :: "rstr \<Rightarrow> u8 list" where
  "utf8 s = concat (map utf8_char s)"

section \<open>Trimming, splitting, case\<close>

text \<open>The characters with the property \<open>White_Space\<close>.\<close>

definition is_space :: "int \<Rightarrow> bool" where
  "is_space c \<longleftrightarrow> 9 \<le> c \<and> c \<le> 13 \<or> c = 0x20 \<or> c = 0x85 \<or> c = 0xA0 \<or> c = 0x1680 \<or>
     0x2000 \<le> c \<and> c \<le> 0x200A \<or> c = 0x2028 \<or> c = 0x2029 \<or> c = 0x202F \<or> c = 0x205F \<or> c = 0x3000"

definition trim :: "rstr \<Rightarrow> rstr" where
  "trim s = rev (dropWhile is_space (rev (dropWhile is_space s)))"

definition ascii_lower :: "rstr \<Rightarrow> rstr" where
  "ascii_lower s = map (\<lambda>c. if 65 \<le> c \<and> c \<le> 90 then c + 32 else c) s"

text \<open>\<open>split_on c s\<close> is \<open>s.split(c)\<close>: never empty.\<close>

fun split_on :: "int \<Rightarrow> rstr \<Rightarrow> rstr list" where
  "split_on d [] = [[]]"
| "split_on d (c # s) =
     (if c = d then [] # split_on d s
      else (case split_on d s of [] \<Rightarrow> [[c]] | p # ps \<Rightarrow> (c # p) # ps))"

definition strip_prefix :: "rstr \<Rightarrow> rstr \<Rightarrow> rstr option" where
  "strip_prefix p s = (if take (length p) s = p then Some (drop (length p) s) else None)"

definition strip_suffix :: "rstr \<Rightarrow> rstr \<Rightarrow> rstr option" where
  "strip_suffix p s = map_option rev (strip_prefix (rev p) (rev s))"

text \<open>\<open>str::lines\<close>: a carriage return before the line feed is dropped, a last empty line too.\<close>

definition str_lines :: "rstr \<Rightarrow> rstr list" where
  "str_lines s =
     (let ps = split_on 10 s;
          strip = (\<lambda>l. case strip_suffix [13] l of Some l' \<Rightarrow> l' | None \<Rightarrow> l)
      in map strip (butlast ps) @ (if last ps = [] then [] else [last ps]))"

text \<open>\<open>split_once p s\<close>: what is before and after the first occurrence of \<open>p\<close>.\<close>

fun split_once :: "rstr \<Rightarrow> rstr \<Rightarrow> (rstr \<times> rstr) option" where
  "split_once p s =
     (case strip_prefix p s of
        Some rest \<Rightarrow> Some ([], rest)
      | None \<Rightarrow>
          (case s of
             [] \<Rightarrow> None
           | c # s' \<Rightarrow> map_option (\<lambda>(a, b). (c # a, b)) (split_once p s')))"

declare split_once.simps [simp del]

section \<open>Numbers\<close>

definition digit_value :: "int \<Rightarrow> int \<Rightarrow> int option" where
  "digit_value radix c =
     (let d = (if 48 \<le> c \<and> c \<le> 57 then c - 48
               else if 97 \<le> c \<and> c \<le> 122 then c - 87
               else if 65 \<le> c \<and> c \<le> 90 then c - 55 else 36)
      in if d < radix then Some d else None)"

fun digits_value :: "int \<Rightarrow> int \<Rightarrow> rstr \<Rightarrow> int option" where
  "digits_value radix acc [] = Some acc"
| "digits_value radix acc (c # s) =
     (case digit_value radix c of
        None \<Rightarrow> None
      | Some d \<Rightarrow> digits_value radix (acc * radix + d) s)"

text \<open>
  \<open>from_str_radix\<close> for a type whose values run from \<open>lo\<close> to \<open>hi\<close>: an optional sign, a minus only for
  a signed type, at least one digit, and no overflow.
\<close>

definition from_str_radix :: "int \<Rightarrow> int \<Rightarrow> int \<Rightarrow> rstr \<Rightarrow> int option" where
  "from_str_radix lo hi radix s =
     (let (neg, ds) = (case s of
            [] \<Rightarrow> (False, [])
          | c # r \<Rightarrow>
              if r \<noteq> [] \<and> c = 43 then (False, r)
              else if r \<noteq> [] \<and> c = 45 \<and> lo < 0 then (True, r)
              else (False, s))
      in if ds = [] then None
         else (case digits_value radix 0 ds of
                 None \<Rightarrow> None
               | Some n \<Rightarrow>
                   let v = (if neg then - n else n)
                   in if lo \<le> v \<and> v \<le> hi then Some v else None))"

abbreviation (input) I128_MIN :: int where "I128_MIN \<equiv> - (2 ^ 127)"
abbreviation (input) I128_MAX :: int where "I128_MAX \<equiv> 2 ^ 127 - 1"

definition u8_from_str_radix :: "int \<Rightarrow> rstr \<Rightarrow> u8 option" where
  "u8_from_str_radix radix s = map_option of_int (from_str_radix 0 255 radix s)"

definition u16_from_str_radix :: "int \<Rightarrow> rstr \<Rightarrow> u16 option" where
  "u16_from_str_radix radix s = map_option of_int (from_str_radix 0 65535 radix s)"

definition i128_from_str_radix :: "int \<Rightarrow> rstr \<Rightarrow> int option" where
  "i128_from_str_radix radix s = from_str_radix I128_MIN I128_MAX radix s"

section \<open>BTreeMap\<close>

text \<open>A \<open>BTreeMap\<close> is the association list of its entries in the order of the keys.\<close>

fun bt_insert :: "'k::linorder \<Rightarrow> 'v \<Rightarrow> ('k \<times> 'v) list \<Rightarrow> ('k \<times> 'v) list" where
  "bt_insert k v [] = [(k, v)]"
| "bt_insert k v ((k', w) # m) =
     (if k < k' then (k, v) # (k', w) # m
      else if k = k' then (k, v) # m
      else (k', w) # bt_insert k v m)"

abbreviation (input) bt_get :: "('k \<times> 'v) list \<Rightarrow> 'k \<Rightarrow> 'v option" where
  "bt_get m k \<equiv> map_of m k"

abbreviation (input) wf_bt :: "('k::linorder \<times> 'v) list \<Rightarrow> bool" where
  "wf_bt m \<equiv> sorted_wrt (<) (map fst m)"

lemma bt_insert_keys: "fst ` set (bt_insert k v m) = insert k (fst ` set m)"
  by (induction k v m rule: bt_insert.induct) auto

lemma wf_bt_insert: "wf_bt m \<Longrightarrow> wf_bt (bt_insert k v m)"
proof (induction m)
  case (Cons x m)
  obtain k' w where x: "x = (k', w)" by (cases x)
  show ?case
  proof (cases k k' rule: linorder_cases)
    case less
    then show ?thesis using Cons.prems unfolding x by (auto dest: order.strict_trans)
  next
    case equal
    then show ?thesis using Cons.prems unfolding x by simp
  next
    case greater
    then have "\<forall>y \<in> set (map fst (bt_insert k v m)). k' < y"
      using Cons.prems bt_insert_keys [of k v m] unfolding x by auto
    then show ?thesis using Cons greater unfolding x by (simp add: less_not_sym)
  qed
qed simp

lemma bt_get_insert: "wf_bt m \<Longrightarrow> map_of (bt_insert k v m) = (map_of m)(k \<mapsto> v)"
  by (induction k v m rule: bt_insert.induct) (auto simp: fun_eq_iff)

section \<open>Lemmas on strings\<close>

lemma lit_eq_iff [simp]: "lit s = lit t \<longleftrightarrow> s = t"
  by (auto simp: lit_def inj_map_eq_map inj_def)

lemma lit_Cons: "lit (c # s) = of_char c # lit s" and lit_Nil [simp]: "lit [] = []"
  by (simp_all add: lit_def)

lemma lit_empty_iff [simp]: "lit s = [] \<longleftrightarrow> s = []"
  by (simp add: lit_def)

lemma dropWhile_hd: "s = [] \<or> \<not> P (hd s) \<Longrightarrow> dropWhile P s = s"
  by (cases s) auto

lemma trim_id: "s = [] \<or> \<not> is_space (hd s) \<and> \<not> is_space (last s) \<Longrightarrow> trim s = s"
  by (auto simp: trim_def dropWhile_hd hd_rev)

lemma strip_prefix_append [simp]: "strip_prefix p (p @ s) = Some s"
  by (simp add: strip_prefix_def)

lemma strip_suffix_append [simp]: "strip_suffix p (s @ p) = Some s"
  by (simp add: strip_suffix_def strip_prefix_def)

lemma split_on_append:
  "d \<notin> set l \<Longrightarrow> split_on d (l @ d # s) = l # split_on d s"
  by (induction l) auto

lemma split_on_nonempty [simp]: "split_on d s \<noteq> []"
  by (induction s) (auto split: list.splits)

lemma split_on_single: "d \<notin> set l \<Longrightarrow> split_on d l = [l]"
  by (induction l) auto

lemma str_lines_append:
  assumes "10 \<notin> set l" and "strip_suffix [13] l = None"
  shows "str_lines (l @ 10 # s) = l # str_lines s"
  using assms by (auto simp: str_lines_def Let_def split_on_append)

lemma str_lines_Nil [simp]: "str_lines [] = []"
  by (simp add: str_lines_def)

lemma split_once_char:
  assumes "c \<notin> set k"
  shows "split_once [c] (k @ c # v) = Some (k, v)"
  using assms
proof (induction k)
  case Nil
  then show ?case by (subst split_once.simps) (simp add: strip_prefix_def)
next
  case (Cons x k)
  then have "strip_prefix [c] ((x # k) @ c # v) = None" by (auto simp: strip_prefix_def)
  with Cons show ?case by (subst split_once.simps) simp
qed

lemma split_once_str:
  assumes "c \<notin> set k"
  shows "split_once (c # p) (k @ (c # p) @ v) = Some (k, v)"
  using assms
proof (induction k)
  case Nil
  then show ?case by (subst split_once.simps) (simp add: strip_prefix_def)
next
  case (Cons x k)
  then have "strip_prefix (c # p) ((x # k) @ (c # p) @ v) = None" by (auto simp: strip_prefix_def)
  with Cons show ?case by (subst split_once.simps) simp
qed

lemma digits_value_append:
  "digits_value r acc (xs @ ys) = Option.bind (digits_value r acc xs) (\<lambda>a. digits_value r a ys)"
  by (induction xs arbitrary: acc) (auto split: option.splits)

section \<open>Hexadecimal output\<close>

text \<open>\<open>hex_fixed k n\<close> are the \<open>k\<close> lower-case hexadecimal digits that \<open>format!\<close> writes for \<open>n < 16 ^ k\<close>.\<close>

definition hex_digit :: "int \<Rightarrow> int" where
  "hex_digit d = (if d < 10 then 48 + d else 87 + d)"

fun hex_fixed :: "nat \<Rightarrow> int \<Rightarrow> rstr" where
  "hex_fixed 0 n = []"
| "hex_fixed (Suc k) n = hex_fixed k (n div 16) @ [hex_digit (n mod 16)]"

lemma digit_value_hex: "0 \<le> d \<Longrightarrow> d < 16 \<Longrightarrow> digit_value 16 (hex_digit d) = Some d"
  by (auto simp: digit_value_def hex_digit_def)

lemma digits_value_hex:
  "0 \<le> n \<Longrightarrow> n < 16 ^ k \<Longrightarrow> digits_value 16 acc (hex_fixed k n) = Some (acc * 16 ^ k + n)"
proof (induction k arbitrary: n)
  case (Suc k)
  have "n div 16 < 16 ^ k" using Suc.prems by (simp add: div_less_iff_less_mult mult.commute)
  then show ?case
    using Suc.IH [of "n div 16"] Suc.prems
    by (simp add: digits_value_append digit_value_hex pos_imp_zdiv_nonneg_iff algebra_simps)
qed simp

lemma hex_fixed_set: "c \<in> set (hex_fixed k n) \<Longrightarrow> \<exists>d. 0 \<le> d \<and> d < 16 \<and> c = hex_digit d"
proof (induction k arbitrary: n)
  case (Suc k)
  then show ?case by (auto intro: exI [of _ "n mod 16"])
qed simp

lemma hex_fixed_chars:
  "c \<in> set (hex_fixed k n) \<Longrightarrow> 48 \<le> c \<and> c \<le> 57 \<or> 97 \<le> c \<and> c \<le> 102"
  by (drule hex_fixed_set) (auto simp: hex_digit_def split: if_splits)

lemma length_hex_fixed [simp]: "length (hex_fixed k n) = k"
  by (induction k arbitrary: n) auto

lemma hex_fixed_eq_Nil_iff [simp]: "hex_fixed k n = [] \<longleftrightarrow> k = 0"
  by (metis length_hex_fixed length_0_conv)

lemma ascii_lower_hex [simp]: "ascii_lower (hex_fixed k n) = hex_fixed k n"
  unfolding ascii_lower_def by (rule map_idI) (auto dest: hex_fixed_chars)

lemma from_str_radix_hex:
  assumes "0 \<le> n" and "n < 16 ^ k" and "0 < k" and "lo \<le> 0" and "n \<le> hi"
  shows "from_str_radix lo hi 16 (hex_fixed k n) = Some n"
proof -
  obtain c r where c: "hex_fixed k n = c # r" using assms(3) by (cases "hex_fixed k n") auto
  then have "c \<noteq> 43" "c \<noteq> 45" using hex_fixed_chars [of c k n] by auto
  moreover have "digits_value 16 0 (c # r) = Some n" using digits_value_hex [OF assms(1,2), of 0] c by simp
  ultimately show ?thesis using assms(1,4,5) c by (simp add: from_str_radix_def del: digits_value.simps)
qed

lemma hex_fixed_inj:
  assumes "0 \<le> n" and "n < 16 ^ k" and "0 \<le> m" and "m < 16 ^ k" and "hex_fixed k n = hex_fixed k m"
  shows "n = m"
  using digits_value_hex [OF assms(1,2), of 0] digits_value_hex [OF assms(3,4), of 0]
  unfolding assms(5) by simp

section \<open>Decimal output\<close>

function dec_digits :: "int \<Rightarrow> rstr" where
  "dec_digits n = (if n < 10 then [48 + n] else dec_digits (n div 10) @ [48 + n mod 10])"
  by pat_completeness auto
termination
  by (relation "measure nat") auto

declare dec_digits.simps [simp del]

definition show_int :: "int \<Rightarrow> rstr" where
  "show_int n = (if n < 0 then 45 # dec_digits (- n) else dec_digits n)"

lemma dec_digits_chars: "0 \<le> n \<Longrightarrow> c \<in> set (dec_digits n) \<Longrightarrow> 48 \<le> c \<and> c \<le> 57"
proof (induction n rule: dec_digits.induct)
  case (1 n)
  have "0 \<le> n mod 10" "n mod 10 < 10" by simp_all
  moreover have "c \<in> set (if n < 10 then [48 + n] else dec_digits (n div 10) @ [48 + n mod 10])"
    using "1.prems"(2) by (simp only: dec_digits.simps [of n])
  ultimately show ?case using 1 by (auto split: if_splits)
qed

lemma dec_digits_ne [simp]: "dec_digits n \<noteq> []"
  by (subst dec_digits.simps) simp

lemma digit_value_dec: "0 \<le> d \<Longrightarrow> d < 10 \<Longrightarrow> digit_value 10 (48 + d) = Some d"
  by (simp add: digit_value_def)

lemma digits_value_dec: "0 \<le> n \<Longrightarrow> digits_value 10 0 (dec_digits n) = Some n"
proof (induction n rule: dec_digits.induct)
  case (1 n)
  show ?case
  proof (cases "n < 10")
    case True
    then show ?thesis using 1 by (subst dec_digits.simps) (simp add: digit_value_dec)
  next
    case False
    have "0 \<le> n mod 10" "n mod 10 < 10" by simp_all
    then show ?thesis
      using 1 False digit_value_dec [of "n mod 10"]
      by (subst dec_digits.simps) (simp add: digits_value_append)
  qed
qed

lemma show_int_ne [simp]: "show_int n \<noteq> []"
  by (simp add: show_int_def)

lemma show_int_chars: "c \<in> set (show_int n) \<Longrightarrow> c = 45 \<or> 48 \<le> c \<and> c \<le> 57"
  using dec_digits_chars [of "- n" c] dec_digits_chars [of n c] by (auto simp: show_int_def split: if_splits)

text \<open>What \<open>Display\<close> writes for an integer, \<open>from_str\<close> reads back.\<close>

lemma from_str_radix_show:
  assumes "lo \<le> n" and "n \<le> hi" and "lo \<le> 0"
  shows "from_str_radix lo hi 10 (show_int n) = Some n"
proof -
  obtain c r where c: "dec_digits (if n < 0 then - n else n) = c # r"
    by (cases "dec_digits (if n < 0 then - n else n)") auto
  have "48 \<le> c" using dec_digits_chars [of "if n < 0 then - n else n" c] c by auto
  moreover have "digits_value 10 0 (c # r) = Some (if n < 0 then - n else n)"
    using digits_value_dec [of "if n < 0 then - n else n"] c by auto
  ultimately show ?thesis
    using assms c by (auto simp: from_str_radix_def show_int_def Let_def simp del: digits_value.simps)
qed

end
