(* ===== verification/Heartbeat_Monitor.thy ===== *)
theory Heartbeat_Monitor
  imports Node_Reach Rust_Str
begin

text \<open>
  \<^verbatim>\<open>host/src/nmt.rs\<close>: the heartbeat monitor of a master. Instants are natural numbers (ticks of the
  monotonic clock), and \<open>saturating_duration_since\<close> is subtraction of natural numbers. The theorems say
  that the monitor knows the last heartbeat of every node, and that a node is either alive, or timed
  out, or was never heard.
\<close>

record node_health =
  nh_state :: nmt_state
  nh_last_seen :: nat

record heartbeat_monitor =
  hm_nodes :: "(u8 \<times> node_health) list"
  hm_timeout :: nat

definition hm_new :: "nat \<Rightarrow> heartbeat_monitor" where
  "hm_new timeout = \<lparr>hm_nodes = [], hm_timeout = timeout\<rparr>"

definition hm_on_frame :: "u16 \<Rightarrow> u8 list \<Rightarrow> nat \<Rightarrow> heartbeat_monitor \<Rightarrow>
    heartbeat_monitor \<times> (node_id \<times> nmt_state) option" where
  "hm_on_frame cob_id data now m =
     (if cob_id < HEARTBEAT_COB_BASE then (m, None)
      else if cob_id - HEARTBEAT_COB_BASE > 255 then (m, None)
      else
        (case node_id_new (ucast (cob_id - HEARTBEAT_COB_BASE)) of
           Inl _ \<Rightarrow> (m, None)
         | Inr n \<Rightarrow>
             (case data of
                [] \<Rightarrow> (m, None)
              | b # _ \<Rightarrow>
                  (case decode_heartbeat [b] of
                     Inl _ \<Rightarrow> (m, None)
                   | Inr st \<Rightarrow>
                       (m\<lparr>hm_nodes := bt_insert (raw n) \<lparr>nh_state = st, nh_last_seen = now\<rparr> (hm_nodes m)\<rparr>,
                        Some (n, st))))))"

definition hm_health :: "heartbeat_monitor \<Rightarrow> node_id \<Rightarrow> node_health option" where
  "hm_health m n = bt_get (hm_nodes m) (raw n)"

definition hm_state :: "heartbeat_monitor \<Rightarrow> node_id \<Rightarrow> nmt_state option" where
  "hm_state m n = map_option nh_state (bt_get (hm_nodes m) (raw n))"

definition hm_is_alive :: "heartbeat_monitor \<Rightarrow> node_id \<Rightarrow> nat \<Rightarrow> bool" where
  "hm_is_alive m n now =
     (case bt_get (hm_nodes m) (raw n) of
        None \<Rightarrow> False | Some h \<Rightarrow> now - nh_last_seen h \<le> hm_timeout m)"

definition hm_timed_out :: "heartbeat_monitor \<Rightarrow> nat \<Rightarrow> node_id list" where
  "hm_timed_out m now =
     List.map_filter (\<lambda>(i, h).
       if now - nh_last_seen h > hm_timeout m
       then (case node_id_new i of Inr n \<Rightarrow> Some n | Inl _ \<Rightarrow> None) else None) (hm_nodes m)"

definition hm_all :: "heartbeat_monitor \<Rightarrow> (node_id \<times> node_health) list" where
  "hm_all m =
     List.map_filter (\<lambda>(i, h). case node_id_new i of Inr n \<Rightarrow> Some (n, h) | Inl _ \<Rightarrow> None) (hm_nodes m)"

section \<open>Histories\<close>

text \<open>
  What a frame says about a node, independently of the monitor: the heartbeat of node \<open>n\<close> is a frame
  on \<open>0x700 + n\<close> whose first byte, without the toggle bit, is a state.
\<close>

definition heartbeat_of :: "node_id \<Rightarrow> u16 \<times> u8 list \<times> nat \<Rightarrow> node_health option" where
  "heartbeat_of n = (\<lambda>(cob_id, data, now).
     if cob_id = heartbeat_cob_id n \<and> data \<noteq> [] then
       (case from_wire (hd data) of Inr st \<Rightarrow> Some \<lparr>nh_state = st, nh_last_seen = now\<rparr> | Inl _ \<Rightarrow> None)
     else None)"

definition hm_run :: "(u16 \<times> u8 list \<times> nat) list \<Rightarrow> heartbeat_monitor \<Rightarrow> heartbeat_monitor" where
  "hm_run = fold (\<lambda>(cob_id, data, now) m. fst (hm_on_frame cob_id data now m))"

definition last_heartbeat :: "node_id \<Rightarrow> (u16 \<times> u8 list \<times> nat) list \<Rightarrow> node_health option" where
  "last_heartbeat n hist =
     (case List.map_filter (heartbeat_of n) hist of [] \<Rightarrow> None | hs \<Rightarrow> Some (last hs))"

definition wf_monitor :: "heartbeat_monitor \<Rightarrow> bool" where
  "wf_monitor m \<longleftrightarrow> wf_bt (hm_nodes m) \<and> (\<forall>i \<in> fst ` set (hm_nodes m). device_id (NodeId i))"

lemma heartbeat_cob_id_unique:
  assumes "device_id n"
  shows "cob_id = heartbeat_cob_id n \<longleftrightarrow>
    \<not> cob_id < 0x700 \<and> \<not> cob_id - 0x700 > 255 \<and> ucast (cob_id - 0x700) = raw n"
proof -
  have n: "unat (raw n) \<le> 127" using assms by (simp add: device_id_nat)
  then have h: "unat (heartbeat_cob_id n) = 0x700 + unat (raw n)"
    using unat_cob_of [of "0x700" n] by (simp add: heartbeat_cob_id_def cob_of_def)
  show ?thesis
  proof (cases "cob_id < 0x700")
    case True
    then show ?thesis using h by (auto simp: word_less_nat_alt)
  next
    case False
    then have s: "unat (cob_id - 0x700) = unat cob_id - 0x700"
      by (simp add: unat_sub word_le_nat_alt not_less)
    have u: "unat (ucast (cob_id - 0x700) :: u8) = unat (cob_id - 0x700) mod 256"
      by (simp add: unsigned_ucast_eq take_bit_eq_mod)
    show ?thesis
      using False n h s u by (auto simp: word_unat_eq_iff word_less_nat_alt not_less)
  qed
qed

lemma bt_insert_member: "(a, b) \<in> set (bt_insert k v m) \<Longrightarrow> a = k \<or> a \<in> fst ` set m"
  using bt_insert_keys [of k v m] by (metis fst_conv image_eqI insert_iff)

lemma hm_on_frame_result:
  assumes "wf_monitor m"
  shows "wf_monitor (fst (hm_on_frame cob_id data now m))"
    and "hm_timeout (fst (hm_on_frame cob_id data now m)) = hm_timeout m"
    and "device_id n \<Longrightarrow> hm_health (fst (hm_on_frame cob_id data now m)) n =
      (case heartbeat_of n (cob_id, data, now) of None \<Rightarrow> hm_health m n | h \<Rightarrow> h)"
proof -
  show "wf_monitor (fst (hm_on_frame cob_id data now m))"
    using assms
    by (auto simp: hm_on_frame_def wf_monitor_def wf_bt_insert node_id_new_Inr_iff
        dest!: bt_insert_member split: sum.splits list.splits)
  show "hm_timeout (fst (hm_on_frame cob_id data now m)) = hm_timeout m"
    by (auto simp: hm_on_frame_def split: sum.splits list.splits)
  assume n: "device_id n"
  show "hm_health (fst (hm_on_frame cob_id data now m)) n =
      (case heartbeat_of n (cob_id, data, now) of None \<Rightarrow> hm_health m n | h \<Rightarrow> h)"
  proof (cases "\<not> cob_id < 0x700 \<and> \<not> cob_id - 0x700 > 255")
    case False
    then show ?thesis
      using heartbeat_cob_id_unique [OF n, of cob_id] by (auto simp: hm_on_frame_def heartbeat_of_def)
  next
    case True
    define i :: u8 where "i = ucast (cob_id - 0x700)"
    have hb: "cob_id = heartbeat_cob_id n \<longleftrightarrow> i = raw n"
      using heartbeat_cob_id_unique [OF n, of cob_id] True by (simp add: i_def)
    show ?thesis
    proof (cases "node_id_new i")
      case (Inl e)
      moreover have "i \<noteq> raw n" using Inl node_id_new_raw [OF n] by auto
      ultimately show ?thesis using True hb
        by (simp add: hm_on_frame_def heartbeat_of_def flip: i_def)
    next
      case (Inr k)
      then have "k = NodeId i" by (simp add: node_id_new_Inr_iff)
      with Inr True hb assms show ?thesis
        by (cases data)
          (auto simp: hm_on_frame_def heartbeat_of_def hm_health_def wf_monitor_def bt_get_insert
            decode_heartbeat_def simp flip: i_def split: sum.splits)
    qed
  qed
qed

lemma case_snoc: "(case xs @ [x] of [] \<Rightarrow> None | hs \<Rightarrow> Some (last hs)) = Some x"
  by (cases xs) auto

lemma last_heartbeat_snoc:
  "last_heartbeat n (hist @ [f]) = (case heartbeat_of n f of None \<Rightarrow> last_heartbeat n hist | h \<Rightarrow> h)"
  by (cases "heartbeat_of n f")
    (simp_all add: last_heartbeat_def List.map_filter_def case_snoc)

lemma hm_run_result:
  assumes "wf_monitor m"
  shows "wf_monitor (hm_run hist m)" and "hm_timeout (hm_run hist m) = hm_timeout m"
    and "device_id n \<Longrightarrow> hm_health (hm_run hist m) n =
      (case last_heartbeat n hist of None \<Rightarrow> hm_health m n | h \<Rightarrow> h)"
proof -
  have "wf_monitor (hm_run hist m) \<and> hm_timeout (hm_run hist m) = hm_timeout m \<and>
    (device_id n \<longrightarrow> hm_health (hm_run hist m) n =
      (case last_heartbeat n hist of None \<Rightarrow> hm_health m n | h \<Rightarrow> h))"
  proof (induction hist rule: rev_induct)
    case Nil
    then show ?case using assms by (simp add: hm_run_def last_heartbeat_def List.map_filter_def)
  next
    case (snoc f hist)
    obtain c d t where f: "f = (c, d, t)" by (cases f)
    have "hm_run (hist @ [f]) m = fst (hm_on_frame c d t (hm_run hist m))"
      by (simp add: hm_run_def f)
    then show ?case
      using snoc hm_on_frame_result [where m = "hm_run hist m" and cob_id = c and data = d and now = t]
      by (auto simp: last_heartbeat_snoc f split: option.splits)
  qed
  then show "wf_monitor (hm_run hist m)" "hm_timeout (hm_run hist m) = hm_timeout m"
    "device_id n \<Longrightarrow> hm_health (hm_run hist m) n =
      (case last_heartbeat n hist of None \<Rightarrow> hm_health m n | h \<Rightarrow> h)" by blast+
qed

lemma wf_bt_get: "wf_bt m \<Longrightarrow> map_of m k = Some v \<longleftrightarrow> (k, v) \<in> set m"
  by (rule map_of_eq_Some_iff) (simp add: strict_sorted_iff)

lemma set_map_filter: "set (List.map_filter f xs) = {y. \<exists>x \<in> set xs. f x = Some y}"
  by (force simp: List.map_filter_def)

lemma timed_out_iff:
  assumes "wf_monitor m" and "device_id n"
  shows "n \<in> set (hm_timed_out m now) \<longleftrightarrow>
    (\<exists>h. hm_health m n = Some h \<and> \<not> now - nh_last_seen h \<le> hm_timeout m)"
proof -
  have "n \<in> set (hm_timed_out m now) \<longleftrightarrow>
      (\<exists>h. (raw n, h) \<in> set (hm_nodes m) \<and> now - nh_last_seen h > hm_timeout m)"
    using assms
    by (cases n) (force simp: hm_timed_out_def set_map_filter node_id_new_def device_id_def wf_monitor_def
        split: if_splits sum.splits)
  then show ?thesis using assms by (auto simp: hm_health_def wf_monitor_def wf_bt_get not_le)
qed

text \<open>C26: The monitor knows exactly the last heartbeat of every node. After any history of received
  frames, the health of a node is the state and time of its last frame on 0x700 + n that carries a
  state byte; the node is alive when that frame is no older than the timeout, reported as timed out
  when it is older, and neither when no such frame was seen.\<close>

theorem monitor_tracks_heartbeats:
  assumes "device_id n" and "m = hm_run hist (hm_new timeout)"
  shows "hm_health m n = last_heartbeat n hist \<and> hm_state m n = map_option nh_state (last_heartbeat n hist) \<and>
    hm_is_alive m n now =
      (case last_heartbeat n hist of None \<Rightarrow> False | Some h \<Rightarrow> now - nh_last_seen h \<le> timeout) \<and>
    n \<in> set (hm_timed_out m now) =
      (case last_heartbeat n hist of None \<Rightarrow> False | Some h \<Rightarrow> timeout < now - nh_last_seen h)"
proof -
  have new: "wf_monitor (hm_new timeout)" "hm_health (hm_new timeout) n = None" "hm_timeout (hm_new timeout) = timeout"
    by (simp_all add: hm_new_def wf_monitor_def hm_health_def)
  have m: "wf_monitor m" "hm_timeout m = timeout" "hm_health m n = last_heartbeat n hist"
    using hm_run_result [OF new(1), where hist = hist] assms new(2,3) by (auto split: option.splits)
  then show ?thesis
    using timed_out_iff [OF m(1) assms(1), of now]
    by (auto simp: hm_state_def hm_is_alive_def hm_health_def split: option.splits)
qed

theorem monitor_tracks_heartbeats_witness:
  "hm_is_alive (hm_run [(0x705, [5], 10), (0x585, [1], 20)] (hm_new 100)) (NodeId 5) 90 \<and>
   NodeId 5 \<in> set (hm_timed_out (hm_run [(0x705, [5], 10), (0x585, [1], 20)] (hm_new 100)) 111)"
  using monitor_tracks_heartbeats [of "NodeId 5" _ "[(0x705, [5], 10), (0x585, [1], 20)]" 100, OF _ refl]
  by (simp add: device_id_def last_heartbeat_def List.map_filter_def heartbeat_of_def
      heartbeat_cob_id_def from_wire_def)

text \<open>The heartbeat, boot-up and node-guarding frames of a device, whatever its state and toggle,
  tell a monitoring master the device's node-id and NMT state.\<close>

lemma node_reports_to_monitor:
  assumes "device_id (nd_id nd)"
  shows "snd (hm_on_frame (tx_cob_id (node_heartbeat nd)) (tx_data (node_heartbeat nd)) now m) =
      Some (nd_id nd, node_state nd) \<and>
    snd (hm_on_frame (tx_cob_id (snd (node_guard_response nd))) (tx_data (snd (node_guard_response nd))) now m) =
      Some (nd_id nd, node_state nd) \<and>
    snd (hm_on_frame (tx_cob_id (snd (node_boot nd))) (tx_data (snd (node_boot nd))) now m) =
      Some (nd_id nd, Initialising)"
proof -
  have report: "snd (hm_on_frame (heartbeat_cob_id (nd_id nd)) [b] now m) = Some (nd_id nd, st)"
    if "from_wire b = Inr st" for b st
    using heartbeat_cob_id_unique [OF assms, of "heartbeat_cob_id (nd_id nd)"] node_id_new_raw [OF assms] that
    by (simp add: hm_on_frame_def decode_heartbeat_def)
  have "from_wire (state_byte st) = Inr st" for st by (cases st) (simp_all add: from_wire_def)
  moreover have "from_wire (encode_node_guard st t) = Inr st" for st t
    by (cases st; cases t) (simp_all add: from_wire_def encode_node_guard_def)
  ultimately show ?thesis
    using report
    by (simp add: node_heartbeat_def node_guard_response_def node_boot_def Let_def encode_heartbeat_def
        BOOTUP_FRAME_def node_state_def from_wire_def)
qed

end
