(* ===== verification/Eds.thy ===== *)
theory Eds
  imports Rust_Str Object_Dictionary
begin

text \<open>
  \<^verbatim>\<open>host/src/eds.rs\<close>: the parser of device description files. The two functions that read the decimal
  literals of floating-point numbers are an argument (\<open>float_parser\<close>), which returns the bit pattern.
  The theorems say what a parsed file promises, when the parser can panic, and what dictionary is built.
\<close>

section \<open>Errors and descriptions\<close>

text \<open>An I/O error is carried as its display text.\<close>

datatype eds_error =
    EdsIo rstr
  | MissingField rstr rstr
  | UnknownAccessType rstr
  | InvalidValue rstr rstr
  | TooManyObjects

fun eds_error_text :: "eds_error \<Rightarrow> rstr" where
  "eds_error_text (EdsIo e) = lit ''reading EDS file: '' @ e"
| "eds_error_text (MissingField sec field) =
     lit ''section ['' @ sec @ lit ''] is missing required field `'' @ field @ lit ''`''"
| "eds_error_text (UnknownAccessType s) = lit ''unknown AccessType `'' @ s @ lit ''`''"
| "eds_error_text (InvalidValue sec v) =
     lit ''section ['' @ sec @ lit ''] has an invalid value `'' @ v @ lit ''`''"
| "eds_error_text TooManyObjects = lit ''more objects than dictionary capacity''"

record object_description =
  ob_address :: address
  ob_parameter_name :: rstr
  ob_data_type :: data_type
  ob_access :: access_type
  ob_default_value :: od_value
  ob_pdo_mappable :: bool

definition ob_entry :: "object_description \<Rightarrow> entry" where
  "ob_entry ob = \<lparr>e_value = ob_default_value ob, e_access = ob_access ob\<rparr>"

record eds =
  eds_vendor_name :: "rstr option"
  eds_product_name :: "rstr option"
  eds_node_id :: "u8 option"
  eds_objects :: "object_description list"

record float_parser =
  parse_f32 :: "rstr \<Rightarrow> u32 option"
  parse_f64 :: "rstr \<Rightarrow> u64 option"

section \<open>INI text\<close>

type_synonym ini = "(rstr \<times> (rstr \<times> rstr) list) list"

text \<open>One line: the sections so far and the name of the current one.\<close>

definition ini_line :: "rstr \<Rightarrow> ini \<times> rstr option \<Rightarrow> (ini \<times> rstr option) run" where
  "ini_line raw_line = (\<lambda>(sections, current).
     (let line = trim raw_line in
      if line = [] \<or> take 1 line = lit '';'' then Done (sections, current)
      else
        (case Option.bind (strip_prefix (lit ''['') line) (strip_suffix (lit '']'')) of
           Some inner \<Rightarrow>
             (let name = ascii_lower (trim inner);
                  sections = (case bt_get sections name of
                                None \<Rightarrow> bt_insert name [] sections | Some _ \<Rightarrow> sections)
              in Done (sections, Some name))
         | None \<Rightarrow>
             (case (current, split_once (lit ''='') line) of
                (Some sec, Some (key, v)) \<Rightarrow>
                  (case bt_get sections sec of
                     None \<Rightarrow> Panic
                   | Some flds \<Rightarrow>
                       Done (bt_insert sec (bt_insert (ascii_lower (trim key)) (trim v) flds) sections,
                             current))
              | _ \<Rightarrow> Done (sections, current)))))"

fun ini_lines :: "rstr list \<Rightarrow> ini \<times> rstr option \<Rightarrow> (ini \<times> rstr option) run" where
  "ini_lines [] st = Done st"
| "ini_lines (l # ls) st = run_bind (ini_line l st) (ini_lines ls)"

definition parse_ini :: "rstr \<Rightarrow> ini run" where
  "parse_ini txt = run_map fst (ini_lines (str_lines txt) ([], None))"

section \<open>Values\<close>

definition parse_object_section :: "rstr \<Rightarrow> address option" where
  "parse_object_section name =
     (case split_once (lit ''sub'') name of
        Some (idx, sub) \<Rightarrow>
          (case u16_from_str_radix 16 idx of
             None \<Rightarrow> None
           | Some i \<Rightarrow>
               (case u8_from_str_radix 16 sub of None \<Rightarrow> None | Some j \<Rightarrow> Some (Address i j)))
      | None \<Rightarrow> (case u16_from_str_radix 16 name of None \<Rightarrow> None | Some i \<Rightarrow> Some (Address i 0)))"

definition access_from_str :: "rstr \<Rightarrow> eds_error + access_type" where
  "access_from_str s =
     (let a = ascii_lower (trim s) in
      if a = lit ''ro'' then Inr Ro
      else if a = lit ''wo'' then Inr Wo
      else if a = lit ''rw'' \<or> a = lit ''rwr'' \<or> a = lit ''rww'' then Inr Rw
      else if a = lit ''const'' then Inr Const
      else Inl (UnknownAccessType a))"

text \<open>
  The sum is an \<open>i128\<close>; an addition that leaves its range panics. \<open>None\<close> is a term that is no number.
\<close>

definition i128_add :: "int \<Rightarrow> int \<Rightarrow> int run" where
  "i128_add a b = (if I128_MIN \<le> a + b \<and> a + b \<le> I128_MAX then Done (a + b) else Panic)"

definition term_value :: "u8 \<Rightarrow> rstr \<Rightarrow> int option" where
  "term_value nid t =
     (if ascii_lower t = lit ''$nodeid'' then Some (uint nid)
      else
        (case (case strip_prefix (lit ''0x'') t of None \<Rightarrow> strip_prefix (lit ''0X'') t | h \<Rightarrow> h) of
           Some hex \<Rightarrow> i128_from_str_radix 16 hex
         | None \<Rightarrow> i128_from_str_radix 10 t))"

fun eval_terms :: "u8 \<Rightarrow> int \<Rightarrow> rstr list \<Rightarrow> int option run" where
  "eval_terms nid acc [] = Done (Some acc)"
| "eval_terms nid acc (raw_term # ts) =
     (let t = trim raw_term in
      if t = [] then eval_terms nid acc ts
      else
        (case term_value nid t of
           None \<Rightarrow> Done None
         | Some v \<Rightarrow> run_bind (i128_add acc v) (\<lambda>acc. eval_terms nid acc ts)))"

definition eval_int_expr :: "rstr \<Rightarrow> u8 \<Rightarrow> int option run" where
  "eval_int_expr s nid = eval_terms nid 0 (split_on 43 s)"

text \<open>The casts \<open>n as u8\<close>, \<open>n as i16\<close>, \<dots> keep the low bits.\<close>

fun int_value :: "data_type \<Rightarrow> int \<Rightarrow> od_value option" where
  "int_value DT_Boolean n = Some (Boolean (n \<noteq> 0))"
| "int_value DT_Integer8 n = Some (Integer8 (of_int n))"
| "int_value DT_Integer16 n = Some (Integer16 (of_int n))"
| "int_value DT_Integer32 n = Some (Integer32 (of_int n))"
| "int_value DT_Unsigned8 n = Some (Unsigned8 (of_int n))"
| "int_value DT_Unsigned16 n = Some (Unsigned16 (of_int n))"
| "int_value DT_Unsigned32 n = Some (Unsigned32 (of_int n))"
| "int_value DT_Integer64 n = Some (Integer64 (of_int n))"
| "int_value DT_Unsigned64 n = Some (Unsigned64 (of_int n))"
| "int_value _ n = None"

definition value_from_str :: "float_parser \<Rightarrow> data_type \<Rightarrow> rstr \<Rightarrow> u8 \<Rightarrow> od_value option run" where
  "value_from_str FP dt s0 nid =
     (let s = trim s0 in
      if is_variable dt then
        (let bytes = utf8 s; end' = min (length bytes) MAX_STRING_LEN in
         case from_bytes (take end' bytes) of
           Inl _ \<Rightarrow> Done None
         | Inr bs \<Rightarrow> Done (Some (case dt of
                       DT_OctetString \<Rightarrow> OctetString bs
                     | DT_Domain \<Rightarrow> Domain bs
                     | _ \<Rightarrow> VisibleString bs)))
      else if dt = DT_Real32 then
        Done (if s = [] then Some (Real32 0) else map_option Real32 (parse_f32 FP s))
      else if dt = DT_Real64 then
        Done (if s = [] then Some (Real64 0) else map_option Real64 (parse_f64 FP s))
      else
        run_map (\<lambda>n. Option.bind n (int_value dt))
          (if s = [] then Done (Some 0) else eval_int_expr s nid))"

section \<open>Parsing a file\<close>

text \<open>
  One section: nothing for a section that describes no stored object of a known type, an error, or a
  description.
\<close>

definition parse_section :: "float_parser \<Rightarrow> u8 \<Rightarrow> rstr \<Rightarrow> (rstr \<times> rstr) list \<Rightarrow>
    (eds_error + object_description option) run" where
  "parse_section FP nid name flds =
     (case parse_object_section name of
        None \<Rightarrow> Done (Inr None)
      | Some a \<Rightarrow>
     (case bt_get flds (lit ''datatype'') of
        None \<Rightarrow> Done (Inr None)
      | Some dt_raw \<Rightarrow>
     run_bind (eval_int_expr dt_raw nid) (\<lambda>dt_index.
     case dt_index of
        None \<Rightarrow> Done (Inl (InvalidValue name dt_raw))
      | Some i \<Rightarrow>
     (case (if 0 \<le> i \<and> i \<le> 65535 then from_index (of_int i) else None) of
        None \<Rightarrow> Done (Inr None)
      | Some dt \<Rightarrow>
     (case (case bt_get flds (lit ''accesstype'') of Some s \<Rightarrow> access_from_str s | None \<Rightarrow> Inr Ro) of
        Inl e \<Rightarrow> Done (Inl e)
      | Inr access \<Rightarrow>
     (let raw_value = (case bt_get flds (lit ''parametervalue'') of
             Some v \<Rightarrow> v
           | None \<Rightarrow> (case bt_get flds (lit ''defaultvalue'') of Some v \<Rightarrow> v | None \<Rightarrow> []))
      in run_bind (value_from_str FP dt raw_value nid) (\<lambda>v.
      case v of
        None \<Rightarrow> Done (Inl (InvalidValue name raw_value))
      | Some default_value \<Rightarrow>
          Done (Inr (Some
            \<lparr>ob_address = a,
             ob_parameter_name =
               (case bt_get flds (lit ''parametername'') of Some s \<Rightarrow> s | None \<Rightarrow> []),
             ob_data_type = dt, ob_access = access, ob_default_value = default_value,
             ob_pdo_mappable =
               (case bt_get flds (lit ''pdomapping'') of
                  Some v \<Rightarrow> trim v \<noteq> lit ''0'' | None \<Rightarrow> False)\<rparr>)))))))))"

fun parse_sections :: "float_parser \<Rightarrow> u8 \<Rightarrow> ini \<Rightarrow> (eds_error + object_description list) run" where
  "parse_sections FP nid [] = Done (Inr [])"
| "parse_sections FP nid ((name, flds) # secs) =
     run_bind (parse_section FP nid name flds) (\<lambda>r.
       case r of
         Inl e \<Rightarrow> Done (Inl e)
       | Inr ob \<Rightarrow>
           run_map (map_sum id (\<lambda>obs. (case ob of None \<Rightarrow> obs | Some ob \<Rightarrow> ob # obs)))
             (parse_sections FP nid secs))"

definition node_id_field :: "ini \<Rightarrow> u8 option run" where
  "node_id_field secs =
     (case Option.bind
             (case bt_get secs (lit ''devicecomissioning'') of
                None \<Rightarrow> bt_get secs (lit ''devicecommissioning'') | s \<Rightarrow> s)
             (\<lambda>s. bt_get s (lit ''nodeid'')) of
        None \<Rightarrow> Done None
      | Some v \<Rightarrow>
          run_map (\<lambda>n. Option.bind n (\<lambda>n. if 0 \<le> n \<and> n \<le> 255 then Some (of_int n) else None))
            (eval_int_expr v 0))"

definition eds_parse :: "float_parser \<Rightarrow> rstr \<Rightarrow> (eds_error + eds) run" where
  "eds_parse FP txt =
     run_bind (parse_ini txt) (\<lambda>secs.
     let device = bt_get secs (lit ''deviceinfo'');
         vendor = Option.bind device (\<lambda>s. bt_get s (lit ''vendorname''));
         product = Option.bind device (\<lambda>s. bt_get s (lit ''productname''))
     in run_bind (node_id_field secs) (\<lambda>nid.
     let nid_expr = (case nid of Some n \<Rightarrow> n | None \<Rightarrow> 0)
     in run_map (map_sum id (\<lambda>obs.
            \<lparr>eds_vendor_name = vendor, eds_product_name = product, eds_node_id = nid,
             eds_objects = sort_key ob_address obs\<rparr>))
          (parse_sections FP nid_expr secs)))"

text \<open>\<open>from_file\<close>, given what reading the file returned: an I/O error or the text.\<close>

definition eds_from_file :: "float_parser \<Rightarrow> rstr + rstr \<Rightarrow> (eds_error + eds) run" where
  "eds_from_file FP contents =
     (case contents of Inl e \<Rightarrow> Done (Inl (EdsIo e)) | Inr txt \<Rightarrow> eds_parse FP txt)"

definition eds_get :: "eds \<Rightarrow> address \<Rightarrow> object_description option" where
  "eds_get e a = find (\<lambda>ob. ob_address ob = a) (eds_objects e)"

fun insert_objects :: "'m od_ops \<Rightarrow> object_description list \<Rightarrow> 'm \<Rightarrow> eds_error + 'm" where
  "insert_objects M [] od = Inr od"
| "insert_objects M (ob # obs) od =
     (case od_insert M od (ob_address ob) (ob_entry ob) of
        Inl _ \<Rightarrow> Inl TooManyObjects
      | Inr od' \<Rightarrow> insert_objects M obs od')"

definition eds_object_dictionary :: "'m od_ops \<Rightarrow> eds \<Rightarrow> eds_error + 'm" where
  "eds_object_dictionary M e = insert_objects M (eds_objects e) (od_new M)"

section \<open>What parsing promises\<close>

lemma ini_line_post:
  assumes "wf_bt secs" and "pred_option (\<lambda>n. bt_get secs n \<noteq> None) cur"
  shows "\<exists>secs' cur'. ini_line l (secs, cur) = Done (secs', cur') \<and> wf_bt secs' \<and>
    pred_option (\<lambda>n. bt_get secs' n \<noteq> None) cur'"
proof -
  define line where "line = trim l"
  consider (skip) "ini_line l (secs, cur) = Done (secs, cur)"
    | (head) n where "ini_line l (secs, cur) = Done (case bt_get secs n of
        None \<Rightarrow> bt_insert n [] secs | Some _ \<Rightarrow> secs, Some n)"
    | (field) sec k v flds where "cur = Some sec" "bt_get secs sec = Some flds"
        "ini_line l (secs, cur) = Done (bt_insert sec (bt_insert k v flds) secs, cur)"
  proof (cases "line = [] \<or> take 1 line = lit '';''")
    case True
    then show ?thesis using that(1) by (simp add: ini_line_def Let_def line_def)
  next
    case False
    note plain = this
    show ?thesis
    proof (cases "Option.bind (strip_prefix (lit ''['') line) (strip_suffix (lit '']''))")
      case (Some inner)
      then show ?thesis
        using plain that(2) [of "ascii_lower (trim inner)"]
        by (simp add: ini_line_def Let_def flip: line_def)
    next
      case None
      note no_head = this
      show ?thesis
      proof (cases "(cur, split_once (lit ''='') line)")
        case (Pair c kv)
        then consider "c = None \<or> kv = None" | sec k v where "c = Some sec" "kv = Some (k, v)"
          by (cases c; cases kv) auto
        then show ?thesis
        proof cases
          case 1
          then show ?thesis
            using plain no_head Pair that(1)
            by (auto simp: ini_line_def Let_def simp flip: line_def split: option.splits)
        next
          case 2
          moreover obtain flds where "bt_get secs sec = Some flds" using assms(2) 2 Pair by auto
          ultimately show ?thesis
            using plain no_head Pair that(3) [of sec flds "ascii_lower (trim k)" "trim v"]
            by (simp add: ini_line_def Let_def flip: line_def)
        qed
      qed
    qed
  qed
  then show ?thesis
  proof cases
    case skip
    then show ?thesis using assms by simp
  next
    case (head n)
    then show ?thesis
      using assms(1) by (cases "bt_get secs n") (auto simp: bt_get_insert wf_bt_insert)
  next
    case (field sec k v flds)
    then show ?thesis using assms(1) by (auto simp: bt_get_insert wf_bt_insert)
  qed
qed

lemma ini_lines_post:
  "wf_bt secs \<Longrightarrow> pred_option (\<lambda>n. bt_get secs n \<noteq> None) cur \<Longrightarrow>
   \<exists>secs' cur'. ini_lines ls (secs, cur) = Done (secs', cur') \<and> wf_bt secs'"
proof (induction ls arbitrary: secs cur)
  case (Cons l ls)
  obtain secs1 cur1 where "ini_line l (secs, cur) = Done (secs1, cur1)" "wf_bt secs1"
    "pred_option (\<lambda>n. bt_get secs1 n \<noteq> None) cur1"
    using ini_line_post [OF Cons.prems, of l] by blast
  then show ?case using Cons.IH [of secs1 cur1] by simp
qed simp

lemma parse_ini_Done: "\<exists>secs. parse_ini txt = Done secs \<and> wf_bt secs"
  using ini_lines_post [of "[]" None "str_lines txt"] by (auto simp: parse_ini_def)

definition ob_ok :: "object_description \<Rightarrow> bool" where
  "ob_ok ob \<longleftrightarrow> data_type_of (ob_default_value ob) = ob_data_type ob \<and> wf_value (ob_default_value ob)"

lemma int_value_type: "int_value dt n = Some v \<Longrightarrow> data_type_of v = dt \<and> wf_value v"
  by (cases dt) auto

lemma from_bytes_wf: "from_bytes bs = Inr s \<Longrightarrow> wf_bs s"
  using from_bytes_ok [of bs] by (fastforce simp: from_bytes_def split: if_splits)

lemma value_from_str_type:
  "value_from_str FP dt s nid = Done (Some v) \<Longrightarrow> data_type_of v = dt \<and> wf_value v"
  by (cases dt)
    (auto simp: value_from_str_def Let_def is_variable_def run_map_eq_Done_iff bind_eq_Some_conv
      dest: int_value_type from_bytes_wf split: sum.splits if_splits)

lemma parse_section_ok:
  assumes "parse_section FP nid name flds = Done (Inr (Some ob))"
  shows "ob_ok ob \<and> parse_object_section name = Some (ob_address ob)"
proof -
  obtain a where a: "parse_object_section name = Some a"
    using assms by (auto simp: parse_section_def split: option.splits)
  obtain dt_raw where dt_raw: "bt_get flds (lit ''datatype'') = Some dt_raw"
    using assms a by (auto simp: parse_section_def split: option.splits)
  obtain i where i: "eval_int_expr dt_raw nid = Done (Some i)"
    using assms a dt_raw by (auto simp: parse_section_def run_bind_eq_Done_iff split: option.splits)
  obtain dt where dt: "(if 0 \<le> i \<and> i \<le> 65535 then from_index (of_int i) else None) = Some dt"
    using assms a dt_raw i
    by (cases "if 0 \<le> i \<and> i \<le> 65535 then from_index (of_int i) else None")
      (auto simp: parse_section_def)
  have "\<exists>access raw v. value_from_str FP dt raw nid = Done (Some v) \<and> ob_address ob = a \<and>
      ob_data_type ob = dt \<and> ob_access ob = access \<and> ob_default_value ob = v"
    using assms unfolding parse_section_def a dt_raw i option.case run_bind_simps dt Let_def
    by (auto simp: run_bind_eq_Done_iff split: sum.splits option.splits)
  then show ?thesis using value_from_str_type a by (auto simp: ob_ok_def)
qed

lemma parse_sections_ok:
  "parse_sections FP nid secs = Done (Inr obs) \<Longrightarrow> ob \<in> set obs \<Longrightarrow>
   ob_ok ob \<and> (\<exists>(name, flds) \<in> set secs. parse_section FP nid name flds = Done (Inr (Some ob)))"
proof (induction secs arbitrary: obs)
  case (Cons s secs)
  obtain name flds where s: "s = (name, flds)" by (cases s)
  obtain r where r: "parse_section FP nid name flds = Done r"
    using Cons.prems(1) unfolding s by (auto simp: run_bind_eq_Done_iff)
  obtain o1 obs1 where o1: "parse_section FP nid name flds = Done (Inr o1)"
    "parse_sections FP nid secs = Done (Inr obs1)"
    "obs = (case o1 of None \<Rightarrow> obs1 | Some ob \<Rightarrow> ob # obs1)"
    using Cons.prems(1) r unfolding s by (cases r) (auto simp: run_map_eq_Done_iff map_sum_Inr_iff)
  then show ?case
    using Cons.IH [OF o1(2)] Cons.prems(2) parse_section_ok [of FP nid name flds] unfolding s
    by (auto split: option.splits)
qed simp

section \<open>Overflow\<close>

lemma eval_terms_blank: "\<forall>t \<in> set ts. trim t = [] \<Longrightarrow> eval_terms nid acc ts = Done (Some acc)"
  by (induction ts) auto

lemma from_str_radix_range: "from_str_radix lo hi r s = Some v \<Longrightarrow> lo \<le> v \<and> v \<le> hi"
  by (auto simp: from_str_radix_def Let_def split: list.splits option.splits if_splits prod.splits)

lemma term_value_range: "term_value nid t = Some v \<Longrightarrow> I128_MIN \<le> v \<and> v \<le> I128_MAX"
proof -
  assume v: "term_value nid t = Some v"
  have "0 \<le> uint nid" "uint nid < 256" using unsigned_less [of nid] by simp_all
  moreover have "I128_MIN \<le> 0" "256 \<le> I128_MAX" by simp_all
  ultimately have nid: "I128_MIN \<le> uint nid" "uint nid \<le> I128_MAX" by linarith+
  then show ?thesis
    using v nid by (auto simp: term_value_def i128_from_str_radix_def dest: from_str_radix_range
        split: option.splits if_splits)
qed

lemma eval_terms_panic_two:
  "eval_terms nid 0 ts = Panic \<Longrightarrow> 2 \<le> length (filter (\<lambda>t. trim t \<noteq> []) ts)"
proof (induction ts)
  case (Cons t ts)
  show ?case
  proof (cases "trim t = []")
    case True
    then show ?thesis using Cons by simp
  next
    case False
    with Cons.prems obtain v where v: "term_value nid (trim t) = Some v"
      by (auto simp: Let_def split: option.splits)
    then have "eval_terms nid v ts = Panic"
      using Cons.prems False term_value_range [OF v] by (simp add: i128_add_def)
    then have "filter (\<lambda>t. trim t \<noteq> []) ts \<noteq> []"
      using eval_terms_blank [of ts nid v] by (auto simp: filter_empty_conv)
    then show ?thesis using False by (cases "filter (\<lambda>t. trim t \<noteq> []) ts") auto
  qed
qed simp

text \<open>Every panic of the parser is the overflow of a sum of at least two terms.\<close>

definition sum_overflows :: "rstr \<Rightarrow> u8 \<Rightarrow> bool" where
  "sum_overflows s nid \<longleftrightarrow> eval_int_expr s nid = Panic \<and>
     2 \<le> length (filter (\<lambda>t. trim t \<noteq> []) (split_on 43 s))"

lemma eval_panic: "eval_int_expr s nid = Panic \<Longrightarrow> sum_overflows s nid"
  by (simp add: sum_overflows_def eval_int_expr_def eval_terms_panic_two)

lemma run_bind_eq_Panic_iff: "run_bind r f = Panic \<longleftrightarrow> r = Panic \<or> (\<exists>x. r = Done x \<and> f x = Panic)"
  by (cases r) auto

lemma run_map_eq_Panic_iff: "run_map f r = Panic \<longleftrightarrow> r = Panic"
  by (cases r) auto

lemma value_from_str_panic: "value_from_str FP dt s nid = Panic \<Longrightarrow> sum_overflows (trim s) nid"
  by (auto simp: value_from_str_def Let_def run_map_eq_Panic_iff eval_panic
      split: if_splits sum.splits)

lemma parse_section_panic:
  "parse_section FP nid name flds = Panic \<Longrightarrow> \<exists>s. sum_overflows s nid"
proof (rule ccontr)
  assume p: "parse_section FP nid name flds = Panic" and no: "\<nexists>s. sum_overflows s nid"
  have eval: "eval_int_expr s nid \<noteq> Panic" and vals: "value_from_str FP dt s nid \<noteq> Panic" for s dt
    using no eval_panic value_from_str_panic by blast+
  obtain a where a: "parse_object_section name = Some a"
    using p by (auto simp: parse_section_def split: option.splits)
  obtain dt_raw where dt_raw: "bt_get flds (lit ''datatype'') = Some dt_raw"
    using p a by (auto simp: parse_section_def split: option.splits)
  obtain i where i: "eval_int_expr dt_raw nid = Done (Some i)"
    using p a dt_raw eval [of dt_raw]
    by (cases "eval_int_expr dt_raw nid")
      (auto simp: parse_section_def split: option.splits)
  obtain dt where dt: "(if 0 \<le> i \<and> i \<le> 65535 then from_index (of_int i) else None) = Some dt"
    using p a dt_raw i
    by (cases "if 0 \<le> i \<and> i \<le> 65535 then from_index (of_int i) else None")
      (auto simp: parse_section_def)
  show False
    using p unfolding parse_section_def a dt_raw i option.case run_bind_simps dt Let_def
    by (auto simp: run_bind_eq_Panic_iff vals split: sum.split_asm option.split_asm)
qed

lemma parse_sections_panic: "parse_sections FP nid secs = Panic \<Longrightarrow> \<exists>s. sum_overflows s nid"
proof (induction secs)
  case (Cons s secs)
  obtain name flds where s: "s = (name, flds)" by (cases s)
  show ?case
  proof (cases "parse_section FP nid name flds")
    case Panic
    then show ?thesis by (rule parse_section_panic)
  next
    case (Done r)
    then show ?thesis using Cons unfolding s by (cases r) (auto simp: run_map_eq_Panic_iff)
  qed
qed simp

lemma node_id_field_panic: "node_id_field secs = Panic \<Longrightarrow> \<exists>s. sum_overflows s 0"
  by (auto simp: node_id_field_def run_map_eq_Panic_iff split: option.splits dest: eval_panic)

lemma eds_parse_panic: "eds_parse FP txt = Panic \<Longrightarrow> \<exists>s nid. sum_overflows s nid"
proof -
  assume p: "eds_parse FP txt = Panic"
  obtain secs where secs: "parse_ini txt = Done secs" using parse_ini_Done by blast
  show ?thesis
  proof (cases "node_id_field secs")
    case Panic
    then show ?thesis using node_id_field_panic by blast
  next
    case (Done nid)
    then have "parse_sections FP (case nid of None \<Rightarrow> 0 | Some n \<Rightarrow> n) secs = Panic"
      using p by (simp add: eds_parse_def secs Let_def run_map_eq_Panic_iff)
    then show ?thesis using parse_sections_panic by blast
  qed
qed

lemma eds_parse_ok:
  assumes "eds_parse FP txt = Done (Inr e)"
  shows "sorted (map ob_address (eds_objects e)) \<and> (\<forall>ob \<in> set (eds_objects e). ob_ok ob)"
proof -
  obtain secs nid obs where "parse_sections FP nid secs = Done (Inr obs)"
    "eds_objects e = sort_key ob_address obs"
    using assms
    by (auto simp: eds_parse_def Let_def run_bind_eq_Done_iff run_map_eq_Done_iff map_sum_Inr_iff)
  then show ?thesis using parse_sections_ok by auto
qed

section \<open>The dictionary of a file\<close>

lemma insert_objects_all:
  "insert_objects M obs od =
     (case insert_all M (map (\<lambda>ob. (ob_address ob, ob_entry ob)) obs) od of
        (od', Inr _) \<Rightarrow> Inr od' | (_, Inl _) \<Rightarrow> Inl TooManyObjects)"
  by (induction obs arbitrary: od) (auto split: sum.splits)

text \<open>C33: The parser never returns anything ill-typed: when a file parses, its objects are in the order of
  their addresses and every default value has the declared data type and is well-formed.\<close>

theorem eds_parse_typed:
  assumes "eds_parse FP txt = Done (Inr e)"
  shows "sorted (map ob_address (eds_objects e)) \<and>
    (\<forall>ob \<in> set (eds_objects e). data_type_of (ob_default_value ob) = ob_data_type ob \<and>
      wf_value (ob_default_value ob))"
  using eds_parse_ok [OF assms] by (simp add: ob_ok_def)

definition example_floats :: float_parser where
  "example_floats = \<lparr>parse_f32 = (\<lambda>_. None), parse_f64 = (\<lambda>_. None)\<rparr>"

definition example_eds :: rstr where
  "example_eds = lit (''[1018sub1]'' @ [CHR 0x0D, CHR 0x0A] @ ''DataType = 0x0005'' @ [CHR 0x0A] @
     ''DefaultValue=$NODEID+300'' @ [CHR 0x0A])"

definition example_eds_result :: eds where
  "example_eds_result = \<lparr>eds_vendor_name = None, eds_product_name = None, eds_node_id = None,
     eds_objects = [\<lparr>ob_address = Address 0x1018 1, ob_parameter_name = [], ob_data_type = DT_Unsigned8,
       ob_access = Ro, ob_default_value = Unsigned8 44, ob_pdo_mappable = False\<rparr>]\<rparr>"

lemma example_eds_parses: "eds_parse example_floats example_eds = Done (Inr example_eds_result)"
  by code_simp

theorem eds_parse_typed_witness:
  "sorted (map ob_address (eds_objects example_eds_result)) \<and>
    list_all (\<lambda>ob. data_type_of (ob_default_value ob) = ob_data_type ob \<and>
      wf_value (ob_default_value ob)) (eds_objects example_eds_result)"
  using eds_parse_typed [OF example_eds_parses] by (simp add: list_all_iff)

definition overflow_eds :: rstr where
  "overflow_eds = lit (''[1000]'' @ [CHR 0x0A] @ ''DataType=0x7fffffffffffffffffffffffffffffff+1'')"

lemma overflow_eds_panics: "eds_parse FP overflow_eds = Panic"
proof -
  let ?sum = "lit ''0x7fffffffffffffffffffffffffffffff+1''"
  have "parse_ini overflow_eds = Done [(lit ''1000'', [(lit ''datatype'', ?sum)])]"
    "node_id_field [(lit ''1000'', [(lit ''datatype'', ?sum)])] = Done None"
    "parse_object_section (lit ''1000'') = Some (Address 0x1000 0)"
    "eval_int_expr ?sum 0 = Panic"
    by code_simp+
  then show ?thesis by (simp add: eds_parse_def parse_section_def)
qed

text \<open>The only way a file can panic the parser is a sum of at least two terms in one of its fields
  that leaves the range of i128, and such a file exists.\<close>

lemma eds_parse_panics_on_overflow:
  "(eds_parse FP txt = Panic \<longrightarrow> (\<exists>s nid. eval_int_expr s nid = Panic \<and>
      2 \<le> length (filter (\<lambda>t. trim t \<noteq> []) (split_on 43 s)))) \<and>
   eds_parse FP overflow_eds = Panic"
proof
  show "eds_parse FP txt = Panic \<longrightarrow> (\<exists>s nid. eval_int_expr s nid = Panic \<and>
      2 \<le> length (filter (\<lambda>t. trim t \<noteq> []) (split_on 43 s)))"
    using eds_parse_panic by (auto simp: sum_overflows_def)
  show "eds_parse FP overflow_eds = Panic" by (rule overflow_eds_panics)
qed

text \<open>C32: The dictionary of a parsed file holds exactly its objects, the last description of an address
  winning; building it fails, with TooManyObjects, exactly when the file describes more addresses than
  the capacity.\<close>

theorem eds_dictionary_correct:
  assumes "object_map M N" and "eds_parse FP txt = Done (Inr e)"
  shows "case eds_object_dictionary M e of
      Inl err \<Rightarrow> err = TooManyObjects \<and> N < card (ob_address ` set (eds_objects e))
    | Inr od \<Rightarrow> card (ob_address ` set (eds_objects e)) \<le> N \<and> wf_od M od \<and>
        lm_get M od = map_of (rev (map (\<lambda>ob. (ob_address ob, ob_entry ob)) (eds_objects e)))"
proof -
  let ?es = "map (\<lambda>ob. (ob_address ob, ob_entry ob)) (eds_objects e)"
  obtain od r where run: "insert_all M ?es (od_new M) = (od, r)" by fastforce
  have new: "lm_get M (od_new M) = Map.empty"
    using assms(1) by (simp add: od_new_def object_map_def linear_map.get_new)
  have keys: "fst ` set ?es = ob_address ` set (eds_objects e)" by force
  have "wf_od M od"
    using eds_parse_ok [OF assms(2)]
    by (intro object_map.insert_all_wf [OF assms(1) run object_map.od_new_wf [OF assms(1)]])
      (auto simp: ob_ok_def ob_entry_def)
  then show ?thesis
    using object_map.insert_all_result [OF assms(1) _ run] new keys
    by (auto simp: eds_object_dictionary_def insert_objects_all run rev_map split: if_splits)
qed

theorem eds_dictionary_correct_witness:
  "case eds_object_dictionary (assoc_ops 4) example_eds_result of
      Inl err \<Rightarrow> err = TooManyObjects \<and> 4 < card (ob_address ` set (eds_objects example_eds_result))
    | Inr od \<Rightarrow> card (ob_address ` set (eds_objects example_eds_result)) \<le> 4 \<and> wf_od (assoc_ops 4) od \<and>
        lm_get (assoc_ops 4) od =
          map_of (rev (map (\<lambda>ob. (ob_address ob, ob_entry ob)) (eds_objects example_eds_result)))"
  by (rule eds_dictionary_correct [OF assoc_od.object_map_axioms example_eds_parses])

end
