(* ===== verification/Eds_Roundtrip.thy ===== *)
theory Eds_Roundtrip
  imports Eds "HOL-Library.Multiset"
begin

text \<open>
  A writer of description files and the proof that the parser of \<^verbatim>\<open>host/src/eds.rs\<close> reads its files back.
\<close>

section \<open>Writing a file\<close>

text \<open>
  A writer of description files, against which the parser is checked: one section per object, the value
  as hexadecimal literal of its bits. It covers the integer types and BOOLEAN.
\<close>

fun access_text :: "access_type \<Rightarrow> string" where
  "access_text Ro = ''ro''"
| "access_text Wo = ''wo''"
| "access_text Rw = ''rw''"
| "access_text Const = ''const''"

fun int_bits :: "od_value \<Rightarrow> int option" where
  "int_bits (Boolean b) = Some (if b then 1 else 0)"
| "int_bits (Integer8 w) = Some (uint w)"
| "int_bits (Integer16 w) = Some (uint w)"
| "int_bits (Integer32 w) = Some (uint w)"
| "int_bits (Unsigned8 w) = Some (uint w)"
| "int_bits (Unsigned16 w) = Some (uint w)"
| "int_bits (Unsigned32 w) = Some (uint w)"
| "int_bits (Integer64 w) = Some (uint w)"
| "int_bits (Unsigned64 w) = Some (uint w)"
| "int_bits _ = None"

definition section_name :: "address \<Rightarrow> rstr" where
  "section_name a = hex_fixed 4 (uint (index a)) @ lit ''sub'' @ hex_fixed 2 (uint (subindex a))"

definition hex_literal :: "nat \<Rightarrow> int \<Rightarrow> rstr" where
  "hex_literal k n = lit ''0x'' @ hex_fixed k n"

definition object_fields :: "object_description \<Rightarrow> (string \<times> rstr) list" where
  "object_fields ob =
     [(''ParameterName'', ob_parameter_name ob),
      (''DataType'', hex_literal 4 (uint (type_index (ob_data_type ob)))),
      (''AccessType'', lit (access_text (ob_access ob))),
      (''DefaultValue'', hex_literal 16 (the (int_bits (ob_default_value ob)))),
      (''PDOMapping'', lit (if ob_pdo_mappable ob then ''1'' else ''0''))]"

definition field_line :: "string \<times> rstr \<Rightarrow> rstr" where
  "field_line kv = lit (fst kv) @ 61 # snd kv"

definition object_lines :: "object_description \<Rightarrow> rstr list" where
  "object_lines ob = (91 # section_name (ob_address ob) @ [93]) # map field_line (object_fields ob)"

definition render_eds :: "object_description list \<Rightarrow> rstr" where
  "render_eds obs = concat (map (\<lambda>l. l @ [10]) (concat (map object_lines obs)))"

text \<open>The writer covers objects of an integer type whose name is one trimmed line.\<close>

definition writable_object :: "object_description \<Rightarrow> bool" where
  "writable_object ob \<longleftrightarrow> data_type_of (ob_default_value ob) = ob_data_type ob \<and>
     int_bits (ob_default_value ob) \<noteq> None \<and>
     trim (ob_parameter_name ob) = ob_parameter_name ob \<and> 10 \<notin> set (ob_parameter_name ob)"

section \<open>Lines\<close>

lemma trim_last: "trim s = s \<Longrightarrow> s \<noteq> [] \<Longrightarrow> \<not> is_space (last s)"
proof -
  assume s: "trim s = s" "s \<noteq> []"
  let ?d = "dropWhile is_space (rev (dropWhile is_space s))"
  have d: "rev ?d = s" using s(1) by (simp add: trim_def)
  with s(2) have "?d \<noteq> []" by (metis rev.simps(1))
  then have "\<not> is_space (hd ?d)" by (rule hd_dropWhile)
  then show ?thesis using d by (metis last_rev rev_rev_ident)
qed

lemma strip_suffix_cr: "l \<noteq> [] \<Longrightarrow> last l \<noteq> 13 \<Longrightarrow> strip_suffix [13] l = None"
  by (cases l rule: rev_cases) (auto simp: strip_suffix_def strip_prefix_def)

definition plain_key :: "rstr \<Rightarrow> bool" where
  "plain_key k \<longleftrightarrow> k \<noteq> [] \<and> (\<forall>c \<in> set k. \<not> is_space c \<and> c \<notin> {61, 91, 59})"

lemma ini_field_line:
  assumes "plain_key k" and "trim v = v" and "bt_get secs sec = Some flds"
  shows "ini_line (k @ 61 # v) (secs, Some sec) =
    Done (bt_insert sec (bt_insert (ascii_lower k) v flds) secs, Some sec)"
proof -
  obtain c k' where k: "k = c # k'" "\<not> is_space c" "c \<noteq> 61" "c \<noteq> 91" "c \<noteq> 59" "61 \<notin> set k"
    using assms(1) by (cases k) (auto simp: plain_key_def)
  have eq: "\<not> is_space 61" by (simp add: is_space_def)
  have "\<not> is_space (last (k @ 61 # v))" using eq trim_last [OF assms(2)] by auto
  then have line: "trim (k @ 61 # v) = k @ 61 # v" using k by (intro trim_id) auto
  have "trim k = k"
    using assms(1) by (intro trim_id) (auto simp: plain_key_def)
  moreover have "strip_prefix (lit ''['') (k @ 61 # v) = None"
    using k by (simp add: strip_prefix_def lit_def)
  ultimately show ?thesis
    using line k assms(2,3) split_once_char [of 61 k v]
    by (simp add: ini_line_def Let_def lit_def)
qed

lemma section_name_chars: "c \<in> set (section_name a) \<Longrightarrow> 48 \<le> c \<and> c \<le> 122 \<and> \<not> (65 \<le> c \<and> c \<le> 90)"
  by (auto simp: section_name_def lit_def dest!: hex_fixed_chars)

lemma section_name_ne [simp]: "section_name a \<noteq> []" "length (section_name a) = 9"
  by (simp_all add: section_name_def lit_def)

lemma not_space_range: "48 \<le> c \<Longrightarrow> c \<le> 122 \<Longrightarrow> \<not> is_space c"
  by (simp add: is_space_def)

lemma ini_head_line:
  "ini_line (91 # section_name a @ [93]) (secs, cur) =
    Done (case bt_get secs (section_name a) of
        None \<Rightarrow> bt_insert (section_name a) [] secs | Some _ \<Rightarrow> secs, Some (section_name a))"
proof -
  let ?n = "section_name a"
  have line: "trim (91 # ?n @ [93]) = 91 # ?n @ [93]" by (rule trim_id) (simp add: is_space_def)
  have "trim ?n = ?n"
    using section_name_chars [of "hd ?n" a] section_name_chars [of "last ?n" a] not_space_range
    by (intro trim_id) auto
  moreover have "ascii_lower ?n = ?n"
    unfolding ascii_lower_def by (rule map_idI) (auto dest: section_name_chars)
  moreover have "strip_prefix [91] (91 # ?n @ [93]) = Some (?n @ [93])"
    using strip_prefix_append [of "[91]" "?n @ [93]"] by simp
  ultimately show ?thesis using line by (simp add: ini_line_def Let_def lit_def)
qed

lemma parse_section_name: "parse_object_section (section_name a) = Some a"
proof -
  have s: "(115 :: int) \<notin> set (hex_fixed 4 (uint (index a)))" by (auto dest: hex_fixed_chars)
  have "uint (index a) < 65536" "uint (subindex a) < 256"
    using unsigned_less [of "index a"] unsigned_less [of "subindex a"] by simp_all
  then have "from_str_radix 0 65535 16 (hex_fixed 4 (uint (index a))) = Some (uint (index a))"
    "from_str_radix 0 255 16 (hex_fixed 2 (uint (subindex a))) = Some (uint (subindex a))"
    by (auto intro!: from_str_radix_hex)
  then show ?thesis
    using split_once_str [OF s, of "[117, 98]"]
    by (simp add: parse_object_section_def section_name_def lit_def u16_from_str_radix_def
        u8_from_str_radix_def)
qed

lemma section_name_inj: "section_name a = section_name b \<longleftrightarrow> a = b"
  using parse_section_name by (metis option.inject)

section \<open>Sections\<close>

lemma bt_insert_twice: "bt_insert k v (bt_insert k w m) = bt_insert k v m"
  by (induction k w m rule: bt_insert.induct) auto

lemma mset_bt_insert: "k \<notin> fst ` set m \<Longrightarrow> mset (bt_insert k v m) = add_mset (k, v) (mset m)"
  by (induction k v m rule: bt_insert.induct) auto

definition section_fields :: "object_description \<Rightarrow> (rstr \<times> rstr) list" where
  "section_fields ob = fold (\<lambda>kv. bt_insert (ascii_lower (lit (fst kv))) (snd kv)) (object_fields ob) []"

lemma ini_lines_append: "ini_lines (xs @ ys) st = run_bind (ini_lines xs st) (ini_lines ys)"
  by (induction xs arbitrary: st) (auto simp: run_bind_def split: run.splits)

lemma ini_field_lines:
  assumes "\<forall>kv \<in> set kvs. plain_key (lit (fst kv)) \<and> trim (snd kv) = snd kv" and "wf_bt secs"
  shows "ini_lines (map field_line kvs) (bt_insert sec flds secs, Some sec) =
    Done (bt_insert sec (fold (\<lambda>kv. bt_insert (ascii_lower (lit (fst kv))) (snd kv)) kvs flds) secs,
      Some sec)"
  using assms
proof (induction kvs arbitrary: flds)
  case (Cons kv kvs)
  have get: "bt_get (bt_insert sec flds secs) sec = Some flds" using Cons.prems(2) by (simp add: bt_get_insert)
  show ?case
    using Cons ini_field_line [of "lit (fst kv)" "snd kv", OF _ _ get]
    by (simp add: field_line_def bt_insert_twice)
qed simp

lemma object_fields_plain:
  assumes "writable_object ob"
  shows "\<forall>kv \<in> set (object_fields ob). plain_key (lit (fst kv)) \<and> trim (snd kv) = snd kv"
proof -
  have hex: "trim (hex_literal (Suc k) n) = hex_literal (Suc k) n" for k n
    using not_space_range by (intro trim_id) (auto simp: hex_literal_def lit_def is_space_def hex_digit_def)
  have "trim (lit (access_text a)) = lit (access_text a)" for a
    by (cases a) (auto intro!: trim_id simp: lit_def is_space_def)
  moreover have "trim (lit (if b then ''1'' else ''0'')) = lit (if b then ''1'' else ''0'')" for b
    by (auto intro!: trim_id simp: lit_def is_space_def)
  ultimately show ?thesis
    using assms hex [of 3] hex [of 15]
    by (auto simp: object_fields_def writable_object_def plain_key_def lit_def is_space_def)
qed

lemma ini_object_lines:
  assumes "writable_object ob" and "wf_bt secs" and "section_name (ob_address ob) \<notin> fst ` set secs"
  shows "ini_lines (object_lines ob) (secs, cur) =
    Done (bt_insert (section_name (ob_address ob)) (section_fields ob) secs, Some (section_name (ob_address ob)))"
proof -
  have "bt_get secs (section_name (ob_address ob)) = None" using assms(3) by (simp add: map_of_eq_None_iff)
  then show ?thesis
    using ini_field_lines [OF object_fields_plain [OF assms(1)] assms(2)]
    by (simp add: object_lines_def ini_head_line section_fields_def)
qed

lemma ini_objects:
  assumes "\<forall>ob \<in> set obs. writable_object ob" and "distinct (map ob_address obs)" and "wf_bt secs"
    and "\<forall>ob \<in> set obs. section_name (ob_address ob) \<notin> fst ` set secs"
  shows "\<exists>secs' cur'. ini_lines (concat (map object_lines obs)) (secs, cur) = Done (secs', cur') \<and>
    mset secs' = mset secs + mset (map (\<lambda>ob. (section_name (ob_address ob), section_fields ob)) obs)"
  using assms
proof (induction obs arbitrary: secs cur)
  case (Cons ob obs)
  let ?n = "section_name (ob_address ob)"
  let ?secs = "bt_insert ?n (section_fields ob) secs"
  have "\<forall>ob' \<in> set obs. section_name (ob_address ob') \<notin> fst ` set ?secs"
    using Cons.prems(2,4) by (auto simp: bt_insert_keys section_name_inj intro: rev_image_eqI)
  then obtain secs' cur' where
    "ini_lines (concat (map object_lines obs)) (?secs, Some ?n) = Done (secs', cur')"
    "mset secs' = mset ?secs + mset (map (\<lambda>ob. (section_name (ob_address ob), section_fields ob)) obs)"
    using Cons.IH [of ?secs "Some ?n"] Cons.prems(1,2,3) wf_bt_insert [of secs] by auto
  then show ?case
    using Cons.prems ini_object_lines [of ob secs cur]
    by (auto simp: ini_lines_append mset_bt_insert)
qed simp

lemma str_lines_concat:
  "\<forall>l \<in> set ls. 10 \<notin> set l \<and> l \<noteq> [] \<and> last l \<noteq> 13 \<Longrightarrow> str_lines (concat (map (\<lambda>l. l @ [10]) ls)) = ls"
  by (induction ls) (auto simp: str_lines_append strip_suffix_cr)

lemma object_lines_ok:
  assumes "writable_object ob" and "l \<in> set (object_lines ob)"
  shows "10 \<notin> set l \<and> l \<noteq> [] \<and> last l \<noteq> 13"
proof -
  have "10 \<notin> set (section_name a)" for a using section_name_chars by fastforce
  moreover have "10 \<notin> set (hex_literal k n)" "13 \<notin> set (hex_literal k n)" for k n
    by (auto simp: hex_literal_def lit_def dest: hex_fixed_chars)
  moreover from this have "hex_literal k n \<noteq> [] \<Longrightarrow> last (hex_literal k n) \<noteq> 13" for k n
    using last_in_set by metis
  moreover have "10 \<notin> set (lit (access_text a))" "lit (access_text a) \<noteq> []" "last (lit (access_text a)) \<noteq> 13" for a
    by (cases a; simp add: lit_def)+
  moreover have "last (ob_parameter_name ob) \<noteq> 13" if "ob_parameter_name ob \<noteq> []"
    using assms(1) trim_last [of "ob_parameter_name ob"] that
    by (auto simp: writable_object_def is_space_def)
  ultimately show ?thesis
    using assms
    by (auto simp: object_lines_def object_fields_def field_line_def writable_object_def lit_Cons
        split: if_splits)
qed

lemma uint_less_64: "LENGTH('a) \<le> 64 \<Longrightarrow> uint (w :: 'a::len word) < 18446744073709551616"
  using order.strict_trans2 [OF unsigned_less [of w] power_increasing [of "LENGTH('a)" 64 2]] by simp

lemma int_value_bits: "int_bits v = Some n \<Longrightarrow>
    int_value (data_type_of v) n = Some v \<and> 0 \<le> n \<and> n < 18446744073709551616 \<and>
    \<not> is_variable (data_type_of v) \<and> data_type_of v \<noteq> DT_Real32 \<and> data_type_of v \<noteq> DT_Real64"
  by (cases v) (auto simp: uint_less_64 is_variable_def split: if_splits)

lemma eval_hex_literal:
  assumes "0 \<le> n" and "n < 16 ^ k" and "0 < k" and "n \<le> I128_MAX"
  shows "eval_int_expr (hex_literal k n) nid = Done (Some n)" and "trim (hex_literal k n) = hex_literal k n"
proof -
  have chars: "c \<in> set (hex_literal k n) \<Longrightarrow> 48 \<le> c" for c
    by (auto simp: hex_literal_def lit_def dest: hex_fixed_chars)
  have ne: "hex_literal k n \<noteq> []" by (simp add: hex_literal_def)
  have last: "last (hex_literal k n) \<le> 122"
  proof -
    have "last (hex_literal k n) \<in> set (hex_literal k n)" using ne by (rule last_in_set)
    then show ?thesis by (auto simp: hex_literal_def lit_def dest: hex_fixed_chars)
  qed
  show t: "trim (hex_literal k n) = hex_literal k n"
    using not_space_range [OF chars [OF last_in_set [OF ne]] last]
    by (intro trim_id) (simp add: hex_literal_def lit_def is_space_def)
  have "43 \<notin> set (hex_literal k n)" using chars by fastforce
  moreover have "term_value nid (hex_literal k n) = Some n"
    using from_str_radix_hex [OF assms(1,2,3), of I128_MIN I128_MAX] assms(4)
      strip_prefix_append [of "[48, 120]" "hex_fixed k n"]
    by (simp add: term_value_def hex_literal_def i128_from_str_radix_def ascii_lower_def lit_Cons)
  moreover have "I128_MIN \<le> n" using assms(1) by (rule order.trans [rotated]) simp
  ultimately show "eval_int_expr (hex_literal k n) nid = Done (Some n)"
    using assms(4) t ne by (simp add: eval_int_expr_def split_on_single i128_add_def)
qed

lemma type_index_inverse: "from_index (type_index dt) = Some dt"
  by (cases dt) (simp_all add: from_index_def)

lemma section_fields_get:
  "map_of (section_fields ob) = map_of
     [(lit ''parametername'', ob_parameter_name ob),
      (lit ''datatype'', hex_literal 4 (uint (type_index (ob_data_type ob)))),
      (lit ''accesstype'', lit (access_text (ob_access ob))),
      (lit ''defaultvalue'', hex_literal 16 (the (int_bits (ob_default_value ob)))),
      (lit ''pdomapping'', lit (if ob_pdo_mappable ob then ''1'' else ''0''))]"
proof -
  have keys: "ascii_lower (lit ''ParameterName'') = lit ''parametername''"
    "ascii_lower (lit ''DataType'') = lit ''datatype''"
    "ascii_lower (lit ''AccessType'') = lit ''accesstype''"
    "ascii_lower (lit ''DefaultValue'') = lit ''defaultvalue''"
    "ascii_lower (lit ''PDOMapping'') = lit ''pdomapping''"
    by (simp_all add: ascii_lower_def lit_def)
  have fold: "wf_bt m \<Longrightarrow> distinct (map (\<lambda>kv. ascii_lower (lit (fst kv))) kvs) \<Longrightarrow>
    map_of (fold (\<lambda>kv. bt_insert (ascii_lower (lit (fst kv))) (snd kv)) kvs m) =
      map_of m ++ map_of (map (\<lambda>kv. (ascii_lower (lit (fst kv)), snd kv)) kvs)" for m and kvs :: "(string \<times> rstr) list"
  proof (induction kvs arbitrary: m)
    case (Cons kv kvs)
    let ?k = "ascii_lower (lit (fst kv))"
    have "map_of (map (\<lambda>kv. (ascii_lower (lit (fst kv)), snd kv)) kvs) ?k = None"
      using Cons.prems(2) by (auto simp: map_of_eq_None_iff image_image)
    then show ?case
      using Cons by (simp add: wf_bt_insert bt_get_insert fun_eq_iff map_add_def split: option.splits)
  qed simp
  have "distinct (map (\<lambda>kv. ascii_lower (lit (fst kv))) (object_fields ob))"
    by (simp add: object_fields_def keys)
  from fold [OF _ this, of "[]"] show ?thesis by (simp add: section_fields_def object_fields_def keys)
qed

lemma access_from_text: "access_from_str (lit (access_text a)) = Inr a"
  by (cases a) (simp_all add: access_from_str_def Let_def trim_def ascii_lower_def is_space_def lit_def)

lemma parse_written_section:
  assumes "writable_object ob"
  shows "parse_section FP nid (section_name (ob_address ob)) (section_fields ob) = Done (Inr (Some ob))"
proof -
  obtain n where n: "int_bits (ob_default_value ob) = Some n"
    using assms by (auto simp: writable_object_def)
  note v = int_value_bits [OF n]
  have "(65535 :: int) \<le> I128_MAX" "(18446744073709551616 :: int) \<le> I128_MAX" by simp_all
  moreover have "uint (type_index (ob_data_type ob)) < 65536"
    using unsigned_less [of "type_index (ob_data_type ob)"] by simp
  ultimately have dt: "eval_int_expr (hex_literal 4 (uint (type_index (ob_data_type ob)))) nid =
      Done (Some (uint (type_index (ob_data_type ob))))"
    by (intro eval_hex_literal) auto
  have hex: "eval_int_expr (hex_literal 16 n) nid = Done (Some n)" "trim (hex_literal 16 n) = hex_literal 16 n"
    "hex_literal 16 n \<noteq> []"
    using eval_hex_literal [of n 16] v by (simp_all add: hex_literal_def)
  have "value_from_str FP (ob_data_type ob) (hex_literal 16 n) nid = Done (Some (ob_default_value ob))"
    using v hex assms by (simp add: value_from_str_def writable_object_def)
  moreover have "trim (lit (if b then ''1'' else ''0'')) \<noteq> lit ''0'' \<longleftrightarrow> b" for b
    by (simp add: trim_def is_space_def lit_def)
  moreover have "uint (type_index (ob_data_type ob)) \<le> 65535"
    using \<open>uint (type_index (ob_data_type ob)) < 65536\<close> by simp
  ultimately show ?thesis
    using dt n
    by (simp add: parse_section_def parse_section_name section_fields_get access_from_text
        type_index_inverse)
qed

lemma find_section:
  assumes "mset secs = mset (map (\<lambda>ob. (section_name (ob_address ob), section_fields ob)) obs)"
    and "length k \<noteq> 9"
  shows "bt_get secs k = None"
proof -
  have "set secs = set (map (\<lambda>ob. (section_name (ob_address ob), section_fields ob)) obs)"
    using assms(1) by (rule mset_eq_setD)
  then show ?thesis using assms(2) by (auto simp: map_of_eq_None_iff)
qed

lemma parse_written_sections:
  assumes "\<forall>s \<in> set secs. \<exists>ob. writable_object ob \<and> h s = ob \<and> s = (section_name (ob_address ob), section_fields ob)"
  shows "parse_sections FP nid secs = Done (Inr (map h secs))"
  using assms
proof (induction secs)
  case (Cons s secs)
  obtain name flds where s: "s = (name, flds)" by (cases s)
  have "writable_object (h s)" "name = section_name (ob_address (h s))" "flds = section_fields (h s)"
    using Cons.prems unfolding s by auto
  then have "parse_section FP nid name flds = Done (Inr (Some (h s)))"
    using parse_written_section [of "h s" FP nid] by simp
  then show ?case using Cons unfolding s by simp
qed simp

lemma render_parse:
  assumes "distinct (map ob_address obs)" and "\<forall>ob \<in> set obs. writable_object ob"
  shows "eds_parse FP (render_eds obs) = Done (Inr
    \<lparr>eds_vendor_name = None, eds_product_name = None, eds_node_id = None,
     eds_objects = sort_key ob_address obs\<rparr>)"
proof -
  let ?g = "\<lambda>ob. (section_name (ob_address ob), section_fields ob)"
  have "str_lines (render_eds obs) = concat (map object_lines obs)"
    unfolding render_eds_def using assms(2) object_lines_ok by (intro str_lines_concat) auto
  then obtain secs where secs: "parse_ini (render_eds obs) = Done secs" "mset secs = mset (map ?g obs)"
    using ini_objects [OF assms(2,1), of "[]" None] by (auto simp: parse_ini_def)
  note none = find_section [OF secs(2)]
  have inj: "inj_on ?g (set obs)"
    using assms(1) by (auto simp: inj_on_def section_name_inj distinct_map)
  define h where "h = inv_into (set obs) ?g"
  have h: "h (?g ob) = ob" if "ob \<in> set obs" for ob
    unfolding h_def using inj that by (rule inv_into_f_f)
  have "set secs = ?g ` set obs" using mset_eq_setD [OF secs(2)] by simp
  then have "parse_sections FP 0 secs = Done (Inr (map h secs))"
    using assms(2) h by (intro parse_written_sections) auto
  moreover have "mset (map h secs) = mset obs"
  proof -
    have "image_mset h (mset secs) = image_mset h (image_mset ?g (mset obs))" using secs(2) by simp
    also have "\<dots> = image_mset (\<lambda>ob. ob) (mset obs)"
      unfolding multiset.map_comp by (rule image_mset_cong) (simp add: h)
    finally show ?thesis by simp
  qed
  then have "sort_key ob_address (map h secs) = sort_key ob_address obs"
    using assms(1) mset_eq_setD [of "map h secs" obs]
    by (intro sort_key_inj_key_eq) (auto simp: distinct_map)
  ultimately show ?thesis
    by (simp add: eds_parse_def secs(1) node_id_field_def none lit_def)
qed

text \<open>C27: A description file reads back as what was written. For any list of objects of integer or
  boolean type with distinct addresses, whatever their access rights, values and (trimmed, one-line)
  names, the file written for them parses to exactly those objects, in the order of their addresses.\<close>

theorem eds_roundtrip:
  assumes "distinct (map ob_address obs)" and "\<forall>ob \<in> set obs. writable_object ob"
  shows "eds_parse FP (render_eds obs) = Done (Inr
    \<lparr>eds_vendor_name = None, eds_product_name = None, eds_node_id = None,
     eds_objects = sort_key ob_address obs\<rparr>)"
  by (rule render_parse [OF assms])

definition example_objects :: "object_description list" where
  "example_objects =
     [\<lparr>ob_address = Address 0x1018 1, ob_parameter_name = lit ''Vendor-ID'', ob_data_type = DT_Unsigned32,
       ob_access = Ro, ob_default_value = Unsigned32 0x12E, ob_pdo_mappable = False\<rparr>,
      \<lparr>ob_address = Address 0x1017 0, ob_parameter_name = lit ''Heartbeat'', ob_data_type = DT_Integer16,
       ob_access = Rw, ob_default_value = Integer16 0xFFFF, ob_pdo_mappable = True\<rparr>]"

theorem eds_roundtrip_witness:
  "eds_parse example_floats (render_eds example_objects) = Done (Inr
    \<lparr>eds_vendor_name = None, eds_product_name = None, eds_node_id = None,
     eds_objects = sort_key ob_address example_objects\<rparr>)"
  by (rule eds_roundtrip)
    (simp_all add: example_objects_def writable_object_def lit_def trim_def is_space_def)

text \<open>An integer that does not fit its declared type is not an error: the literal is cut to the low
  bits, so DefaultValue=0x12C of an UNSIGNED8 is taken as 44.\<close>

theorem eds_integer_truncated:
  assumes "0 \<le> n" and "n < 2 ^ 64"
  shows "value_from_str FP DT_Unsigned8 (hex_literal 16 n) nid = Done (Some (Unsigned8 (of_int n))) \<and>
    value_from_str FP DT_Unsigned16 (hex_literal 16 n) nid = Done (Some (Unsigned16 (of_int n))) \<and>
    value_from_str FP DT_Unsigned32 (hex_literal 16 n) nid = Done (Some (Unsigned32 (of_int n)))"
proof -
  have "eval_int_expr (hex_literal 16 n) nid = Done (Some n)" "trim (hex_literal 16 n) = hex_literal 16 n"
    "hex_literal 16 n \<noteq> []"
    using eval_hex_literal [of n 16] assms by (simp_all add: hex_literal_def)
  then show ?thesis by (simp add: value_from_str_def is_variable_def)
qed

end
