(* ===== verification/Float_Text.thy ===== *)
theory Float_Text
  imports Eds
begin

text \<open>
  Floats as text. Reading and printing them is the standard library's work (\<open>str::parse\<close> and the \<open>Debug\<close>
  format), which the models take as parameters; what the code generator relies on is the locale
  \<open>float_text\<close>. The locale is interpreted on a printer and a reader of all numbers of IEEE 754 in both
  widths: they print a number as the exact multiple of a power of ten that it is.
\<close>

section \<open>What the standard library promises\<close>

text \<open>\<open>format!("{x:?}")\<close> of a float, a third party like its reader.\<close>

record float_printer =
  debug_f32 :: "u32 \<Rightarrow> rstr"
  debug_f64 :: "u64 \<Rightarrow> rstr"

text \<open>The printed text of a finite number: a sign, then a digit, then digits and the characters \<open>.e+-\<close>.\<close>

definition number_text :: "rstr \<Rightarrow> bool" where
  "number_text t \<longleftrightarrow>
     (case (case strip_prefix (lit ''-'') t of Some r \<Rightarrow> r | None \<Rightarrow> t) of
        c # r \<Rightarrow> 48 \<le> c \<and> c \<le> 57 \<and> (\<forall>d \<in> set r. 48 \<le> d \<and> d \<le> 57 \<or> d \<in> set (lit ''.e+-''))
      | [] \<Rightarrow> False)"

definition not_finite_texts :: "rstr set" where
  "not_finite_texts = {lit ''NaN'', lit ''inf'', lit ''-inf''}"

locale float_text =
  fixes FP :: float_parser and D :: float_printer
  assumes f32_text: "\<not> exponent_ones 23 8 x \<Longrightarrow>
      number_text (debug_f32 D x) \<and> parse_f32 FP (debug_f32 D x) = Some x"
    and f32_not_finite: "exponent_ones 23 8 x \<Longrightarrow> debug_f32 D x \<in> not_finite_texts"
    and f64_text: "\<not> exponent_ones 52 11 y \<Longrightarrow>
      number_text (debug_f64 D y) \<and> parse_f64 FP (debug_f64 D y) = Some y"
    and f64_not_finite: "exponent_ones 52 11 y \<Longrightarrow> debug_f64 D y \<in> not_finite_texts"

lemma number_text_plain: "number_text t \<Longrightarrow> 10 \<notin> set t"
  by (cases t) (auto simp: number_text_def strip_prefix_def lit_def split: option.splits list.splits if_splits)

lemma not_finite_plain: "t \<in> not_finite_texts \<Longrightarrow> 10 \<notin> set t"
  by (auto simp: not_finite_texts_def lit_def)

section \<open>Numbers as multiples of the smallest one\<close>

text \<open>
  The magnitude bits \<open>b\<close> of a float with \<open>f\<close> fraction bits stand for a multiple of the smallest positive
  number: the subnormal ones for themselves, the others for their significand shifted by the exponent.
  \<open>float_magnitude\<close> rounds a multiple down to such bits.
\<close>

definition float_units :: "nat \<Rightarrow> nat \<Rightarrow> nat" where
  "float_units f b =
     (let e = b div 2 ^ f; m = b mod 2 ^ f in if e = 0 then m else (2 ^ f + m) * 2 ^ (e - 1))"

fun top_bit :: "nat \<Rightarrow> nat" where
  "top_bit n = (if n < 2 then 0 else Suc (top_bit (n div 2)))"

declare top_bit.simps [simp del]

definition float_magnitude :: "nat \<Rightarrow> nat \<Rightarrow> nat" where
  "float_magnitude f u =
     (if u < 2 ^ f then u
      else let k = top_bit u - f in Suc k * 2 ^ f + (u div 2 ^ k - 2 ^ f))"

lemma top_bit_eq: "2 ^ k \<le> n \<Longrightarrow> n < 2 ^ Suc k \<Longrightarrow> top_bit n = k"
proof (induction k arbitrary: n)
  case 0
  then show ?case by (simp add: top_bit.simps [of n])
next
  case (Suc k)
  then have "2 ^ k \<le> n div 2" "n div 2 < 2 ^ Suc k" by auto
  moreover have "\<not> n < 2"
  proof -
    have "1 \<le> (2 :: nat) ^ k" by simp
    then show ?thesis using Suc.prems(1) by (simp only: power_Suc)
  qed
  ultimately show ?case using Suc.IH [of "n div 2"] by (simp add: top_bit.simps [of n])
qed

lemma float_magnitude_units: "float_magnitude f (float_units f b) = b"
proof -
  define e m where "e = b div 2 ^ f" and "m = b mod 2 ^ f"
  have b: "b = e * 2 ^ f + m" and m: "m < 2 ^ f" unfolding e_def m_def by (metis div_mult_mod_eq, simp)
  have u: "float_units f b = (if e = 0 then m else (2 ^ f + m) * 2 ^ (e - 1))"
    by (simp add: float_units_def e_def m_def Let_def)
  show ?thesis
  proof (cases e)
    case 0
    then show ?thesis using b m u by (simp add: float_magnitude_def)
  next
    case (Suc k)
    let ?u = "(2 ^ f + m) * 2 ^ k"
    have le: "2 ^ (f + k) \<le> ?u" "?u < 2 ^ Suc (f + k)"
      using m by (simp_all add: power_add)
    then have "top_bit ?u = f + k" by (rule top_bit_eq)
    moreover have "\<not> ?u < 2 ^ f"
    proof -
      have "(2 :: nat) ^ f \<le> 2 ^ (f + k)" by simp
      then show ?thesis using le(1) by linarith
    qed
    ultimately show ?thesis using b u Suc by (simp add: float_magnitude_def)
  qed
qed

section \<open>A printer and a reader\<close>

text \<open>
  The smallest positive number is \<open>2 ^ - s = 5 ^ s / 10 ^ s\<close>, so every number is printed exactly as an
  integer with the exponent \<open>- s\<close>. The reader takes decimal text with a fraction or a negative exponent,
  and the names of NaN and infinity.
\<close>

definition exact_debug :: "nat \<Rightarrow> nat \<Rightarrow> nat \<Rightarrow> 'a::len word \<Rightarrow> rstr" where
  "exact_debug f e s x =
     (if float_nan f e x then lit ''NaN''
      else (if bit x (f + e) then lit ''-'' else []) @
        (if exponent_ones f e x then lit ''inf''
         else show_int (int (float_units f (unat (take_bit (f + e) x)) * 5 ^ s)) @ lit ''e-'' @ show_int (int s)))"

definition decimal_digits :: "rstr \<Rightarrow> (nat \<times> nat) option" where
  "decimal_digits t =
     (case split_once (lit ''.'') t of
        None \<Rightarrow> if t = [] then None else map_option (\<lambda>n. (nat n, 0)) (digits_value 10 0 t)
      | Some (i, frac) \<Rightarrow>
          if i @ frac = [] then None
          else map_option (\<lambda>n. (nat n, length frac)) (digits_value 10 0 (i @ frac)))"

definition decimal_literal :: "rstr \<Rightarrow> (nat \<times> nat) option" where
  "decimal_literal t =
     (case split_once (lit ''e-'') t of
        None \<Rightarrow> decimal_digits t
      | Some (m, k) \<Rightarrow>
          if k = [] then None
          else Option.bind (digits_value 10 0 k) (\<lambda>k.
               map_option (\<lambda>(n, j). (n, j + nat k)) (decimal_digits m)))"

definition exact_parse :: "nat \<Rightarrow> nat \<Rightarrow> nat \<Rightarrow> rstr \<Rightarrow> 'a::len word option" where
  "exact_parse f e s t =
     (let (neg, r) = (case strip_prefix (lit ''-'') t of Some r \<Rightarrow> (True, r) | None \<Rightarrow> (False, t));
          signed = (\<lambda>b. of_nat b + (if neg then 2 ^ (f + e) else 0))
      in if ascii_lower r = lit ''nan'' then Some (signed (mask e * 2 ^ f + 2 ^ (f - 1)))
         else if ascii_lower r = lit ''inf'' then Some (signed (mask e * 2 ^ f))
         else map_option (\<lambda>(n, k). signed (min (mask e * 2 ^ f) (float_magnitude f (n * 2 ^ s div 10 ^ k))))
           (decimal_literal r))"

lemma split_once_lit: "of_char c \<notin> set k \<Longrightarrow> split_once (lit (c # p)) (k @ lit (c # p) @ v) = Some (k, v)"
  unfolding lit_Cons by (rule split_once_str)

lemma show_int_nat: "show_int (int n) = dec_digits (int n)"
  by (simp add: show_int_def)

lemma dec_digits_free: "c < 48 \<or> 57 < c \<Longrightarrow> c \<notin> set (dec_digits (int n))"
  using dec_digits_chars [of "int n" c] by auto

lemma split_once_none: "of_char c \<notin> set t \<Longrightarrow> split_once (lit [c]) t = None"
proof (induction t)
  case Nil
  then show ?case by (subst split_once.simps) (simp add: strip_prefix_def lit_def)
next
  case (Cons d t)
  then show ?case by (subst split_once.simps) (auto simp: strip_prefix_def lit_def)
qed

lemma decimal_digits_dec: "decimal_digits (dec_digits (int n)) = Some (n, 0)"
  using split_once_none [of "CHR ''.''" "dec_digits (int n)"]
  by (simp add: decimal_digits_def digits_value_dec dec_digits_free)

lemma decimal_literal_dec:
  "decimal_literal (dec_digits (int n) @ lit ''e-'' @ dec_digits (int k)) = Some (n, k)"
proof -
  have "split_once (lit ''e-'') (dec_digits (int n) @ lit ''e-'' @ dec_digits (int k)) =
      Some (dec_digits (int n), dec_digits (int k))"
    by (rule split_once_lit) (simp add: dec_digits_free)
  then show ?thesis by (simp add: decimal_literal_def digits_value_dec decimal_digits_dec)
qed

lemma word_sign_split:
  fixes x :: "'a::len word"
  assumes "LENGTH('a) = Suc n"
  shows "x = of_nat (unat (take_bit n x)) + (if bit x n then 2 ^ n else 0)"
proof -
  have "uint x = take_bit (Suc n) (uint x)" using assms by (simp add: bintr_uint)
  also have "\<dots> = 2 ^ n * of_bool (bit x n) + uint (take_bit n x)"
    using assms by (simp add: take_bit_Suc_from_most bit_uint_iff unsigned_take_bit_eq)
  finally have "of_int (uint x) = (of_int (2 ^ n * of_bool (bit x n) + uint (take_bit n x)) :: 'a word)" by simp
  then show ?thesis by (auto simp: ac_simps)
qed

lemma finite_magnitude:
  fixes x :: "'a::len word"
  assumes "LENGTH('a) = Suc (f + e)" and "\<not> exponent_ones f e x"
  shows "unat (take_bit (f + e) x) < mask e * 2 ^ f"
proof -
  let ?m = "take_bit (f + e) x"
  have "take_bit e (drop_bit f x) = drop_bit f ?m" by (simp add: drop_bit_take_bit)
  then have "drop_bit f ?m \<noteq> mask e" using assms(2) by (simp add: exponent_ones_def)
  then have "unat (drop_bit f ?m) \<noteq> unat (mask e :: 'a word)" by (simp only: word_unat_eq_iff not_False_eq_True)
  moreover have "unat (mask e :: 'a word) = mask e" 
    using assms(1) by (intro bit_eqI) (auto simp: bit_unsigned_iff bit_mask_iff)
  moreover have "unat (drop_bit f ?m) = unat ?m div 2 ^ f"
    by (simp add: unsigned_drop_bit_eq take_bit_nat_eq_self unsigned_less flip: drop_bit_eq_div)
  moreover have "unat ?m < 2 ^ (f + e)"
    using assms(1) by (simp add: unsigned_take_bit_eq)
  then have "unat ?m div 2 ^ f < 2 ^ e"
    by (simp add: less_mult_imp_div_less power_add mult.commute)
  ultimately have "unat ?m div 2 ^ f < mask e" by (simp add: mask_eq_exp_minus_1)
  then show ?thesis by (simp add: div_less_iff_less_mult)
qed

lemma exact_parse_debug:
  fixes x :: "'a::len word"
  assumes "LENGTH('a) = Suc (f + e)" and "\<not> exponent_ones f e x"
  shows "exact_parse f e s (exact_debug f e s x) = Some x"
proof -
  define b where "b = unat (take_bit (f + e) x)"
  let ?d = "dec_digits (int (float_units f b * 5 ^ s))"
  have shown: "exact_debug f e s x = (if bit x (f + e) then lit ''-'' else []) @ ?d @ lit ''e-'' @ dec_digits (int s)"
    using assms(2) by (simp add: exact_debug_def float_nan_def show_int_nat b_def del: of_nat_mult of_nat_power)
  obtain c r where c: "?d = c # r" using dec_digits_ne by (metis neq_Nil_conv)
  then have digit: "48 \<le> c" "c \<le> 57" using dec_digits_chars [of "int (float_units f b * 5 ^ s)" c] by auto
  have "float_units f b * 5 ^ s * 2 ^ s div 10 ^ s = float_units f b"
    using power_mult_distrib [of "5 :: nat" 2 s] by (simp add: mult.assoc)
  moreover have "decimal_literal (c # r @ lit ''e-'' @ dec_digits (int s)) = Some (float_units f b * 5 ^ s, s)"
    using decimal_literal_dec [of "float_units f b * 5 ^ s" s] unfolding c by simp
  moreover have "min (mask e * 2 ^ f) b = b" using finite_magnitude [OF assms] by (simp add: b_def)
  ultimately have "exact_parse f e s ((if bit x (f + e) then lit ''-'' else []) @ c # r @ lit ''e-'' @ dec_digits (int s)) =
      Some (of_nat b + (if bit x (f + e) then 2 ^ (f + e) else 0))"
    using digit
    by (simp add: exact_parse_def) (auto simp: strip_prefix_def lit_def ascii_lower_def float_magnitude_units)
  then show ?thesis unfolding shown c using word_sign_split [OF assms(1), of x] by (metis b_def append_Cons)
qed

lemma exact_debug_number:
  fixes x :: "'a::len word"
  assumes "\<not> exponent_ones f e x"
  shows "number_text (exact_debug f e s x)"
proof -
  let ?n = "float_units f (unat (take_bit (f + e) x)) * 5 ^ s"
  have shown: "exact_debug f e s x =
      (if bit x (f + e) then lit ''-'' else []) @ dec_digits (int ?n) @ lit ''e-'' @ dec_digits (int s)"
    using assms by (simp add: exact_debug_def float_nan_def show_int_nat del: of_nat_mult of_nat_power)
  obtain c r where c: "dec_digits (int ?n) = c # r" using dec_digits_ne by (metis neq_Nil_conv)
  have digits: "48 \<le> d \<and> d \<le> 57" if "d \<in> set (c # r) \<union> set (dec_digits (int s))" for d
    using that dec_digits_chars [of "int ?n" d] dec_digits_chars [of "int s" d] unfolding c by auto
  moreover have "48 \<le> c" "c \<le> 57" "c \<noteq> 45" using digits [of c] by auto
  ultimately show ?thesis unfolding shown c by (simp add: number_text_def strip_prefix_def lit_def)
qed

lemma exact_debug_not_finite: "exponent_ones f e x \<Longrightarrow> exact_debug f e s x \<in> not_finite_texts"
  by (simp add: exact_debug_def not_finite_texts_def lit_def)

text \<open>The fraction and exponent bits of the two widths, and the exponent of their smallest number.\<close>

definition exact_floats :: float_parser where
  "exact_floats = \<lparr>parse_f32 = exact_parse 23 8 149, parse_f64 = exact_parse 52 11 1074\<rparr>"

definition exact_printer :: float_printer where
  "exact_printer = \<lparr>debug_f32 = exact_debug 23 8 149, debug_f64 = exact_debug 52 11 1074\<rparr>"

interpretation exact: float_text exact_floats exact_printer
  by unfold_locales
    (simp_all add: exact_floats_def exact_printer_def exact_debug_number exact_parse_debug exact_debug_not_finite)

text \<open>The reader at a number that a decimal stands for exactly.\<close>

lemma exact_parse_decimal:
  assumes "(case strip_prefix (lit ''-'') t of Some r \<Rightarrow> (True, r) | None \<Rightarrow> (False, t)) = (neg, r)"
    and "ascii_lower r \<noteq> lit ''nan'' \<and> ascii_lower r \<noteq> lit ''inf''" and "decimal_literal r = Some (n, k)"
    and "n * 2 ^ s = float_units f b * 10 ^ k" and "b \<le> mask e * 2 ^ f"
  shows "exact_parse f e s t = Some (of_nat b + (if neg then 2 ^ (f + e) else 0))"
  using assms(2,3,5) unfolding exact_parse_def assms(1) by (simp add: assms(4) float_magnitude_units min_def)

lemma exact_reads_f32: "parse_f32 exact_floats (lit ''1.5'') = Some 0x3FC00000"
proof -
  have "(case strip_prefix (lit ''-'') (lit ''1.5'') of Some r \<Rightarrow> (True, r) | None \<Rightarrow> (False, lit ''1.5'')) = (False, lit ''1.5'')"
    "ascii_lower (lit ''1.5'') \<noteq> lit ''nan'' \<and> ascii_lower (lit ''1.5'') \<noteq> lit ''inf''" 
    "decimal_literal (lit ''1.5'') = Some (15, 1)"
    by code_simp+
  from exact_parse_decimal [where s = 149 and f = 23 and b = "0x3FC00000" and e = 8, OF this] show ?thesis
    by (simp add: exact_floats_def float_units_def mask_eq_exp_minus_1)
qed

lemma exact_reads_f64: "parse_f64 exact_floats (lit ''-0.25'') = Some 0xBFD0000000000000"
proof -
  have "(case strip_prefix (lit ''-'') (lit ''-0.25'') of Some r \<Rightarrow> (True, r) | None \<Rightarrow> (False, lit ''-0.25'')) = (True, lit ''0.25'')"
    "ascii_lower (lit ''0.25'') \<noteq> lit ''nan'' \<and> ascii_lower (lit ''0.25'') \<noteq> lit ''inf''" 
    "decimal_literal (lit ''0.25'') = Some (25, 2)"
    by code_simp+
  from exact_parse_decimal [where s = 1074 and f = 52 and b = "0x3FD0000000000000" and e = 11, OF this] show ?thesis
    by (simp add: exact_floats_def float_units_def mask_eq_exp_minus_1)
qed

lemma exact_reads_nan: "parse_f32 exact_floats (lit ''nan'') = Some 0x7FC00000"
proof -
  have "strip_prefix (lit ''-'') (lit ''nan'') = None" "ascii_lower (lit ''nan'') = lit ''nan''"
    by code_simp+
  then show ?thesis
    by (simp add: exact_floats_def exact_parse_def mask_eq_exp_minus_1)
qed

end
