(* ===== verification/Eds_Codegen.thy ===== *)
theory Eds_Codegen
  imports Eds_Roundtrip Float_Text
begin

text \<open>
  \<^verbatim>\<open>host/src/codegen.rs\<close>: the generator of a Rust function that builds the dictionary of a description
  file. A small reader of the Rust it writes gives the text its meaning. The theorem says when the
  generated source is Rust at all, and that it then builds the same dictionary as loading the file at
  run time; the printer and the reader of floats are those of the locale \<open>float_text\<close>.
\<close>

section \<open>The generator\<close>

fun access_variant :: "access_type \<Rightarrow> rstr" where
  "access_variant Ro = lit ''Ro''"
| "access_variant Wo = lit ''Wo''"
| "access_variant Rw = lit ''Rw''"
| "access_variant Const = lit ''Const''"

text \<open>\<open>format!("{x:#0w$x}")\<close> with \<open>k = w - 2\<close> digits for a number of at most \<open>k\<close> digits.\<close>

definition hex_alt :: "nat \<Rightarrow> int \<Rightarrow> rstr" where
  "hex_alt k n = lit ''0x'' @ hex_fixed k n"

fun byte_list :: "nat \<Rightarrow> u8 list \<Rightarrow> rstr" where
  "byte_list i [] = []"
| "byte_list i (b # bs) =
     (if i > 0 then lit '', '' else []) @ hex_alt 2 (uint b) @ byte_list (Suc i) bs"

definition string_literal :: "rstr \<Rightarrow> u8 list \<Rightarrow> rstr" where
  "string_literal variant bytes =
     lit ''canopen_rs::Value::'' @ variant @ lit ''(canopen_rs::ByteString::from_bytes(&['' @
     byte_list 0 bytes @ lit '']).unwrap())''"

fun value_literal :: "float_printer \<Rightarrow> od_value \<Rightarrow> rstr" where
  "value_literal D (Boolean b) =
     lit ''canopen_rs::Value::Boolean('' @ (if b then lit ''true'' else lit ''false'') @ lit '')''"
| "value_literal D (Unsigned8 x) = lit ''canopen_rs::Value::Unsigned8('' @ hex_alt 2 (uint x) @ lit '')''"
| "value_literal D (Unsigned16 x) = lit ''canopen_rs::Value::Unsigned16('' @ hex_alt 4 (uint x) @ lit '')''"
| "value_literal D (Unsigned32 x) = lit ''canopen_rs::Value::Unsigned32('' @ hex_alt 8 (uint x) @ lit '')''"
| "value_literal D (Unsigned64 x) = lit ''canopen_rs::Value::Unsigned64('' @ hex_alt 16 (uint x) @ lit '')''"
| "value_literal D (Integer8 x) = lit ''canopen_rs::Value::Integer8('' @ show_int (sint x) @ lit '')''"
| "value_literal D (Integer16 x) = lit ''canopen_rs::Value::Integer16('' @ show_int (sint x) @ lit '')''"
| "value_literal D (Integer32 x) = lit ''canopen_rs::Value::Integer32('' @ show_int (sint x) @ lit '')''"
| "value_literal D (Integer64 x) = lit ''canopen_rs::Value::Integer64('' @ show_int (sint x) @ lit '')''"
| "value_literal D (Real32 x) = lit ''canopen_rs::Value::Real32('' @ debug_f32 D x @ lit ''f32)''"
| "value_literal D (Real64 x) = lit ''canopen_rs::Value::Real64('' @ debug_f64 D x @ lit ''f64)''"
| "value_literal D (VisibleString s) = string_literal (lit ''VisibleString'') (as_bytes s)"
| "value_literal D (OctetString s) = string_literal (lit ''OctetString'') (as_bytes s)"
| "value_literal D (Domain s) = string_literal (lit ''Domain'') (as_bytes s)"

definition insert_line :: "float_printer \<Rightarrow> object_description \<Rightarrow> rstr" where
  "insert_line D ob =
     lit ''    od.insert(canopen_rs::Address::new('' @ hex_alt 4 (uint (index (ob_address ob))) @ lit '', '' @
     hex_alt 2 (uint (subindex (ob_address ob))) @ lit ''), canopen_rs::Entry { value: '' @
     value_literal D (ob_default_value ob) @ lit '', access: canopen_rs::AccessType::'' @
     access_variant (ob_access ob) @ lit '' }).unwrap();''"

text \<open>\<open>writeln!\<close> ends each line with a line feed.\<close>

definition generate_object_dictionary :: "float_printer \<Rightarrow> eds \<Rightarrow> rstr \<Rightarrow> rstr" where
  "generate_object_dictionary D e fn_name =
     lit ''/// Object dictionary generated from an EDS by canopen-host.'' @ [10] @
     lit ''pub fn '' @ fn_name @ lit ''() -> canopen_rs::ObjectDictionary<'' @
       show_int (int (length (eds_objects e))) @ lit ''> {'' @ [10] @
     lit ''    let mut od = canopen_rs::ObjectDictionary::new();'' @ [10] @
     concat (map (\<lambda>ob. insert_line D ob @ [10]) (eds_objects e)) @
     lit ''    od'' @ [10] @ lit ''}'' @ [10]"

section \<open>A reader of the generated Rust\<close>

text \<open>
  The fragment of Rust that the generator writes, read by its keywords and delimiters. \<open>None\<close> is text
  outside the fragment; \<open>Panic\<close> is an \<open>unwrap\<close> that fails when the expression is evaluated. An integer
  literal must lie in the range of its type, a float literal is read by the standard library.
\<close>

definition rust_hex :: "int \<Rightarrow> rstr \<Rightarrow> int option" where
  "rust_hex hi s = Option.bind (strip_prefix (lit ''0x'') s) (from_str_radix 0 hi 16)"

text \<open>A float literal starts with a digit, after a sign; the names of NaN and infinity are none.\<close>

definition rust_float :: "(rstr \<Rightarrow> 'w option) \<Rightarrow> rstr \<Rightarrow> 'w option" where
  "rust_float parse s =
     (case (case strip_prefix (lit ''-'') s of Some r \<Rightarrow> r | None \<Rightarrow> s) of
        c # _ \<Rightarrow> if 48 \<le> c \<and> c \<le> 57 then parse s else None
      | [] \<Rightarrow> None)"

fun rust_bytes :: "rstr list \<Rightarrow> u8 list option" where
  "rust_bytes [] = Some []"
| "rust_bytes (p # ps) =
     Option.bind (rust_hex 255 (trim p)) (\<lambda>b. map_option (\<lambda>bs. of_int b # bs) (rust_bytes ps))"

definition rust_byte_string :: "rstr \<Rightarrow> byte_string run option" where
  "rust_byte_string s =
     Option.bind (strip_prefix (lit ''canopen_rs::ByteString::from_bytes(&['') s) (\<lambda>s.
     Option.bind (strip_suffix (lit '']).unwrap()'') s) (\<lambda>s.
     map_option (\<lambda>bs. case from_bytes bs of Inr b \<Rightarrow> Done b | Inl _ \<Rightarrow> Panic)
       (rust_bytes (if s = [] then [] else split_on 44 s))))"

definition rust_variant :: "float_parser \<Rightarrow> rstr \<Rightarrow> rstr \<Rightarrow> od_value run option" where
  "rust_variant FP variant arg =
     (if variant = lit ''Boolean'' then
        (if arg = lit ''true'' then Some (Done (Boolean True))
         else if arg = lit ''false'' then Some (Done (Boolean False)) else None)
      else if variant = lit ''Unsigned8'' then
        map_option (\<lambda>n. Done (Unsigned8 (of_int n))) (rust_hex (2 ^ 8 - 1) arg)
      else if variant = lit ''Unsigned16'' then
        map_option (\<lambda>n. Done (Unsigned16 (of_int n))) (rust_hex (2 ^ 16 - 1) arg)
      else if variant = lit ''Unsigned32'' then
        map_option (\<lambda>n. Done (Unsigned32 (of_int n))) (rust_hex (2 ^ 32 - 1) arg)
      else if variant = lit ''Unsigned64'' then
        map_option (\<lambda>n. Done (Unsigned64 (of_int n))) (rust_hex (2 ^ 64 - 1) arg)
      else if variant = lit ''Integer8'' then
        map_option (\<lambda>n. Done (Integer8 (of_int n))) (from_str_radix (- (2 ^ 7)) (2 ^ 7 - 1) 10 arg)
      else if variant = lit ''Integer16'' then
        map_option (\<lambda>n. Done (Integer16 (of_int n))) (from_str_radix (- (2 ^ 15)) (2 ^ 15 - 1) 10 arg)
      else if variant = lit ''Integer32'' then
        map_option (\<lambda>n. Done (Integer32 (of_int n))) (from_str_radix (- (2 ^ 31)) (2 ^ 31 - 1) 10 arg)
      else if variant = lit ''Integer64'' then
        map_option (\<lambda>n. Done (Integer64 (of_int n))) (from_str_radix (- (2 ^ 63)) (2 ^ 63 - 1) 10 arg)
      else if variant = lit ''Real32'' then
        map_option (\<lambda>x. Done (Real32 x)) (Option.bind (strip_suffix (lit ''f32'') arg) (rust_float (parse_f32 FP)))
      else if variant = lit ''Real64'' then
        map_option (\<lambda>x. Done (Real64 x)) (Option.bind (strip_suffix (lit ''f64'') arg) (rust_float (parse_f64 FP)))
      else if variant = lit ''VisibleString'' then
        map_option (run_map VisibleString) (rust_byte_string arg)
      else if variant = lit ''OctetString'' then map_option (run_map OctetString) (rust_byte_string arg)
      else if variant = lit ''Domain'' then map_option (run_map Domain) (rust_byte_string arg)
      else None)"

definition rust_value :: "float_parser \<Rightarrow> rstr \<Rightarrow> od_value run option" where
  "rust_value FP s =
     Option.bind (strip_prefix (lit ''canopen_rs::Value::'') s) (\<lambda>s.
     Option.bind (split_once (lit ''('') s) (\<lambda>(variant, s).
     Option.bind (strip_suffix (lit '')'') s) (rust_variant FP variant)))"

definition rust_access :: "rstr \<Rightarrow> (rstr \<times> access_type) option" where
  "rust_access s =
     (let tail = (\<lambda>name. strip_suffix (lit '', access: canopen_rs::AccessType::'' @ lit name @
            lit '' }).unwrap();'') s)
      in case tail ''Ro'' of Some v \<Rightarrow> Some (v, Ro) | None \<Rightarrow>
        (case tail ''Wo'' of Some v \<Rightarrow> Some (v, Wo) | None \<Rightarrow>
          (case tail ''Rw'' of Some v \<Rightarrow> Some (v, Rw) | None \<Rightarrow>
            map_option (\<lambda>v. (v, Const)) (tail ''Const''))))"

definition rust_insert :: "float_parser \<Rightarrow> rstr \<Rightarrow> (address \<times> entry) run option" where
  "rust_insert FP s =
     Option.bind (strip_prefix (lit ''    od.insert(canopen_rs::Address::new('') s) (\<lambda>s.
     Option.bind (split_once (lit '', '') s) (\<lambda>(i, s).
     Option.bind (split_once (lit ''), canopen_rs::Entry { value: '') s) (\<lambda>(j, s).
     Option.bind (rust_access s) (\<lambda>(v, acc).
     Option.bind (rust_hex 0xFFFF i) (\<lambda>i.
     Option.bind (rust_hex 0xFF j) (\<lambda>j.
     map_option (run_map (\<lambda>v. (Address (of_int i) (of_int j), \<lparr>e_value = v, e_access = acc\<rparr>)))
       (rust_value FP v)))))))"

text \<open>The body: insertions, then the dictionary and the closing brace.\<close>

fun rust_body :: "float_parser \<Rightarrow> 'm od_ops \<Rightarrow> rstr list \<Rightarrow> 'm \<Rightarrow> 'm run option" where
  "rust_body FP M [] od = None"
| "rust_body FP M (l # ls) od =
     (if l = lit ''    od'' then (if ls = [lit ''}''] then Some (Done od) else None)
      else
        (case rust_insert FP l of
           None \<Rightarrow> None
         | Some Panic \<Rightarrow> Some Panic
         | Some (Done (a, e)) \<Rightarrow>
             (case od_insert M od a e of
                Inl _ \<Rightarrow> Some Panic
              | Inr od' \<Rightarrow> rust_body FP M ls od')))"

text \<open>
  Running a generated file: the name of the function and the dictionary it returns. The capacity
  \<open>N\<close> of the result type chooses the container.
\<close>

definition run_generated ::
  "float_parser \<Rightarrow> (nat \<Rightarrow> 'm od_ops) \<Rightarrow> rstr \<Rightarrow> (rstr \<times> 'm run) option" where
  "run_generated FP M src =
     (case str_lines src of
        doc # head # init # body \<Rightarrow>
          if take 3 doc = lit ''///'' \<and> init = lit ''    let mut od = canopen_rs::ObjectDictionary::new();''
          then
            Option.bind (strip_prefix (lit ''pub fn '') head) (\<lambda>s.
            Option.bind (split_once (lit ''() -> canopen_rs::ObjectDictionary<'') s) (\<lambda>(name, s).
            Option.bind (strip_suffix (lit ''> {'') s) (\<lambda>s.
            Option.bind (digits_value 10 0 s) (\<lambda>n.
              map_option (Pair name) (rust_body FP (M (nat n)) body (od_new (M (nat n))))))))
          else None
      | _ \<Rightarrow> None)"

section \<open>Reading back what is written\<close>

lemma rust_hex_alt:
  "0 \<le> n \<Longrightarrow> n < 16 ^ k \<Longrightarrow> 0 < k \<Longrightarrow> n \<le> hi \<Longrightarrow> rust_hex hi (hex_alt k n) = Some n"
  by (simp add: rust_hex_def hex_alt_def from_str_radix_hex)

lemma rust_hex_word:
  "16 ^ k = (2 :: int) ^ LENGTH('a) \<Longrightarrow> 0 < k \<Longrightarrow>
    rust_hex (2 ^ LENGTH('a) - 1) (hex_alt k (uint (w :: 'a::len word))) = Some (uint w)"
  using uint_lt2p [of w] by (intro rust_hex_alt) simp_all

lemma hex_alt_chars: "c \<in> set (hex_alt k n) \<Longrightarrow> c = 120 \<or> 48 \<le> c \<and> c \<le> 57 \<or> 97 \<le> c \<and> c \<le> 102"
  using hex_fixed_chars [of c k n] by (auto simp: hex_alt_def lit_def)

lemma trim_blank_hex: "trim (32 # hex_alt k n) = hex_alt k n" and trim_hex: "trim (hex_alt k n) = hex_alt k n"
proof -
  have ne: "hex_alt k n \<noteq> []" by (simp add: hex_alt_def)
  have "\<not> is_space c" if "c \<in> set (hex_alt k n)" for c
    using hex_alt_chars [OF that] by (auto simp: is_space_def)
  with ne show "trim (hex_alt k n) = hex_alt k n" by (intro trim_id) simp
  then show "trim (32 # hex_alt k n) = hex_alt k n" by (simp add: trim_def is_space_def)
qed

lemma byte_list_Suc: "byte_list (Suc i) bs = concat (map (\<lambda>b. 44 # 32 # hex_alt 2 (uint b)) bs)"
  by (induction bs arbitrary: i) (simp_all add: lit_def)

lemma split_byte_list:
  "split_on 44 (hex_alt 2 (uint b) @ byte_list (Suc i) bs) =
    hex_alt 2 (uint b) # map (\<lambda>b. 32 # hex_alt 2 (uint b)) bs"
proof -
  have no_comma: "44 \<notin> set (hex_alt 2 n)" for n using hex_alt_chars [of 44 2 n] by auto
  have "split_on 44 (h @ concat (map (\<lambda>b. 44 # 32 # hex_alt 2 (uint b)) bs)) =
      h # map (\<lambda>b. 32 # hex_alt 2 (uint b)) bs" if "44 \<notin> set h" for h
    using that
  proof (induction bs arbitrary: h)
    case Nil
    then show ?case by (simp add: split_on_single)
  next
    case (Cons b bs)
    have "44 \<notin> set (32 # hex_alt 2 (uint b))" using no_comma by simp
    from Cons.IH [OF this] show ?case using Cons.prems by (simp add: split_on_append)
  qed
  from this [OF no_comma] show ?thesis by (simp add: byte_list_Suc)
qed

lemma rust_hex_byte: "rust_hex 255 (hex_alt 2 (uint (b :: u8))) = Some (uint b)"
  using rust_hex_word [of 2 b] by simp

lemma rust_bytes_map:
  "(\<And>b. trim (f b) = hex_alt 2 (uint (b :: u8))) \<Longrightarrow> rust_bytes (map f bs) = Some bs"
  by (induction bs) (simp_all add: rust_hex_byte)

lemma rust_byte_list: "rust_bytes (if byte_list 0 bs = [] then [] else split_on 44 (byte_list 0 bs)) = Some bs"
proof (cases bs)
  case (Cons b bs')
  then show ?thesis
    using rust_bytes_map [of "\<lambda>b. 32 # hex_alt 2 (uint b)" bs']
    by (simp add: split_byte_list trim_hex trim_blank_hex rust_hex_byte) (simp add: hex_alt_def)
qed simp

fun variant_name :: "od_value \<Rightarrow> rstr" where
  "variant_name (Boolean _) = lit ''Boolean''"
| "variant_name (Unsigned8 _) = lit ''Unsigned8''"
| "variant_name (Unsigned16 _) = lit ''Unsigned16''"
| "variant_name (Unsigned32 _) = lit ''Unsigned32''"
| "variant_name (Unsigned64 _) = lit ''Unsigned64''"
| "variant_name (Integer8 _) = lit ''Integer8''"
| "variant_name (Integer16 _) = lit ''Integer16''"
| "variant_name (Integer32 _) = lit ''Integer32''"
| "variant_name (Integer64 _) = lit ''Integer64''"
| "variant_name (Real32 _) = lit ''Real32''"
| "variant_name (Real64 _) = lit ''Real64''"
| "variant_name (VisibleString _) = lit ''VisibleString''"
| "variant_name (OctetString _) = lit ''OctetString''"
| "variant_name (Domain _) = lit ''Domain''"

definition byte_string_arg :: "byte_string \<Rightarrow> rstr" where
  "byte_string_arg s =
     lit ''canopen_rs::ByteString::from_bytes(&['' @ byte_list 0 (as_bytes s) @ lit '']).unwrap()''"

fun variant_arg :: "float_printer \<Rightarrow> od_value \<Rightarrow> rstr" where
  "variant_arg D (Boolean b) = (if b then lit ''true'' else lit ''false'')"
| "variant_arg D (Unsigned8 x) = hex_alt 2 (uint x)"
| "variant_arg D (Unsigned16 x) = hex_alt 4 (uint x)"
| "variant_arg D (Unsigned32 x) = hex_alt 8 (uint x)"
| "variant_arg D (Unsigned64 x) = hex_alt 16 (uint x)"
| "variant_arg D (Integer8 x) = show_int (sint x)"
| "variant_arg D (Integer16 x) = show_int (sint x)"
| "variant_arg D (Integer32 x) = show_int (sint x)"
| "variant_arg D (Integer64 x) = show_int (sint x)"
| "variant_arg D (Real32 x) = debug_f32 D x @ lit ''f32''"
| "variant_arg D (Real64 x) = debug_f64 D x @ lit ''f64''"
| "variant_arg D (VisibleString s) = byte_string_arg s"
| "variant_arg D (OctetString s) = byte_string_arg s"
| "variant_arg D (Domain s) = byte_string_arg s"

lemma value_literal_call:
  "value_literal D v = lit ''canopen_rs::Value::'' @ variant_name v @ lit ''('' @ variant_arg D v @ lit '')''"
  by (cases v) (simp_all add: lit_def string_literal_def byte_string_arg_def)

text \<open>
  The text that a float is printed as is read back by the reader of literals as that float. It is for
  every finite number; the text of the others starts with a letter and is no literal.
\<close>

fun float_literal_ok :: "float_parser \<Rightarrow> float_printer \<Rightarrow> od_value \<Rightarrow> bool" where
  "float_literal_ok FP D (Real32 x) \<longleftrightarrow> rust_float (parse_f32 FP) (debug_f32 D x) = Some x"
| "float_literal_ok FP D (Real64 x) \<longleftrightarrow> rust_float (parse_f64 FP) (debug_f64 D x) = Some x"
| "float_literal_ok FP D _ \<longleftrightarrow> True"

lemma rust_float_number: "number_text t \<Longrightarrow> rust_float parse t = parse t"
  by (auto simp: rust_float_def number_text_def split: list.splits)

lemma rust_float_not_finite: "t \<in> not_finite_texts \<Longrightarrow> rust_float parse t = None"
  by (auto simp: rust_float_def not_finite_texts_def lit_def strip_prefix_def)

lemma read_byte_string: "wf_bs s \<Longrightarrow> rust_byte_string (byte_string_arg s) = Some (Done s)"
  using rust_byte_list [of "as_bytes s"]
  by (simp add: rust_byte_string_def byte_string_arg_def from_bytes_as_bytes)

lemma read_signed:
  "from_str_radix (- (2 ^ (LENGTH('a) - 1))) (2 ^ (LENGTH('a) - 1) - 1) 10 (show_int (sint (w :: 'a::len word))) =
    Some (sint w)"
  using sint_ge [of w] sint_lt [of w] by (intro from_str_radix_show) simp_all

lemma read_variant:
  assumes "wf_value v" and "float_literal_ok FP D v"
  shows "rust_variant FP (variant_name v) (variant_arg D v) = Some (Done v)"
proof (cases v)
  case (Unsigned8 x)
  then show ?thesis using rust_hex_word [of 2 x] by (simp add: rust_variant_def)
next
  case (Unsigned16 x)
  then show ?thesis using rust_hex_word [of 4 x] by (simp add: rust_variant_def)
next
  case (Unsigned32 x)
  then show ?thesis using rust_hex_word [of 8 x] by (simp add: rust_variant_def)
next
  case (Unsigned64 x)
  then show ?thesis using rust_hex_word [of 16 x] by (simp add: rust_variant_def)
next
  case (Integer8 x)
  then show ?thesis using read_signed [of x] by (simp add: rust_variant_def)
next
  case (Integer16 x)
  then show ?thesis using read_signed [of x] by (simp add: rust_variant_def)
next
  case (Integer32 x)
  then show ?thesis using read_signed [of x] by (simp add: rust_variant_def)
next
  case (Integer64 x)
  then show ?thesis using read_signed [of x] by (simp add: rust_variant_def)
qed (use assms in \<open>auto simp: rust_variant_def read_byte_string\<close>)

lemma variant_name_plain: "40 \<notin> set (variant_name v)"
  by (cases v) (simp_all add: lit_def)

lemma rust_value_literal:
  "rust_value FP (value_literal D v) = rust_variant FP (variant_name v) (variant_arg D v)"
proof -
  have "split_once (lit ''('') (variant_name v @ lit ''('' @ variant_arg D v @ lit '')'') =
      Some (variant_name v, variant_arg D v @ lit '')'')"
    using split_once_str [OF variant_name_plain [of v], of "[]"] by (simp add: lit_def)
  then show ?thesis by (simp add: rust_value_def value_literal_call)
qed

lemma read_access:
  "rust_access (v @ lit '', access: canopen_rs::AccessType::'' @ access_variant a @ lit '' }).unwrap();'') =
    Some (v, a)"
  by (cases a) (simp_all add: rust_access_def Let_def lit_def strip_suffix_def strip_prefix_def)

lemma read_insert:
  "rust_insert FP (insert_line D ob) =
    map_option (run_map (\<lambda>v. (ob_address ob, \<lparr>e_value = v, e_access = ob_access ob\<rparr>)))
      (rust_value FP (value_literal D (ob_default_value ob)))"
proof -
  let ?i = "hex_alt 4 (uint (index (ob_address ob)))" and ?j = "hex_alt 2 (uint (subindex (ob_address ob)))"
  have "44 \<notin> set ?i" "41 \<notin> set ?j" using hex_alt_chars by fastforce+
  then have "split_once (lit '', '') (?i @ lit '', '' @ s) = Some (?i, s)"
    "split_once (lit ''), canopen_rs::Entry { value: '') (?j @ lit ''), canopen_rs::Entry { value: '' @ s) = Some (?j, s)"
    for s by (auto intro!: split_once_lit)
  moreover have "rust_hex 0xFFFF ?i = Some (uint (index (ob_address ob)))"
    "rust_hex 0xFF ?j = Some (uint (subindex (ob_address ob)))"
    using rust_hex_word [of 4 "index (ob_address ob)"] rust_hex_word [of 2 "subindex (ob_address ob)"] by simp_all
  ultimately show ?thesis
    unfolding rust_insert_def insert_line_def by (simp add: read_access)
qed

lemma access_variant_plain: "10 \<notin> set (access_variant a)"
  by (cases a) (simp_all add: lit_def)

lemma show_int_plain: "10 \<notin> set (show_int n)"
  using show_int_chars [of 10 n] by auto

lemma byte_list_plain: "10 \<notin> set (byte_list i bs)"
  using hex_alt_chars [of 10] by (induction bs arbitrary: i) (auto simp: lit_def)

text \<open>The lines of a generated file.\<close>

lemma generated_lines:
  assumes "\<And>v. 10 \<notin> set (value_literal D v)" and "10 \<notin> set fn_name"
  shows "str_lines (generate_object_dictionary D e fn_name) =
    lit ''/// Object dictionary generated from an EDS by canopen-host.'' #
    (lit ''pub fn '' @ fn_name @ lit ''() -> canopen_rs::ObjectDictionary<'' @
       show_int (int (length (eds_objects e))) @ lit ''> {'') #
    lit ''    let mut od = canopen_rs::ObjectDictionary::new();'' #
    map (insert_line D) (eds_objects e) @ [lit ''    od'', lit ''}'']"
    (is "_ = ?doc # ?head # ?init # ?body")
proof -
  have lines: "generate_object_dictionary D e fn_name = concat (map (\<lambda>l. l @ [10]) (?doc # ?head # ?init # ?body))"
    by (simp add: generate_object_dictionary_def comp_def)
  have head: "10 \<notin> set ?head" "last ?head \<noteq> 13" "?head \<noteq> []"
    using assms(2) show_int_plain by (auto simp: lit_def)
  have rest: "10 \<notin> set ?doc" "last ?doc \<noteq> 13" "10 \<notin> set ?init" "last ?init \<noteq> 13"
    "10 \<notin> set (lit ''    od'')" "last (lit ''    od'') \<noteq> 13" "10 \<notin> set (lit ''}'')" "last (lit ''}'') \<noteq> 13"
    by (simp_all add: lit_def)
  have "10 \<notin> set (insert_line D ob) \<and> insert_line D ob \<noteq> [] \<and> last (insert_line D ob) \<noteq> 13" for ob
    using hex_alt_chars [of 10] assms(1) access_variant_plain by (auto simp: insert_line_def lit_def)
  then show ?thesis unfolding lines by (intro str_lines_concat) (use head rest in auto)
qed

text \<open>Running a generated file is running its body on an empty container of its capacity.\<close>

lemma run_generated_body:
  assumes "\<And>v. 10 \<notin> set (value_literal D v)" and "10 \<notin> set fn_name" and "40 \<notin> set fn_name"
  shows "run_generated FP M (generate_object_dictionary D e fn_name) =
    (let N = M (length (eds_objects e))
     in map_option (Pair fn_name)
          (rust_body FP N (map (insert_line D) (eds_objects e) @ [lit ''    od'', lit ''}'']) (od_new N)))"
proof -
  let ?n = "length (eds_objects e)"
  have doc: "take 3 (lit ''/// Object dictionary generated from an EDS by canopen-host.'') = lit ''///''"
    by (simp add: lit_def)
  have name: "split_once (lit ''() -> canopen_rs::ObjectDictionary<'')
      (fn_name @ lit ''() -> canopen_rs::ObjectDictionary<'' @ s) = Some (fn_name, s)" for s
    using assms(3) by (intro split_once_lit) simp
  have num: "digits_value 10 0 (show_int (int ?n)) = Some (int ?n)"
    by (simp add: show_int_def digits_value_dec)
  show ?thesis
    unfolding run_generated_def generated_lines [OF assms(1,2)] by (simp add: doc name num Let_def)
qed

context float_text
begin

lemma finite_literal: "value_finite v \<Longrightarrow> float_literal_ok FP D v"
  using f32_text f64_text by (cases v) (simp_all add: rust_float_number)

lemma read_value:
  assumes "wf_value v"
  shows "rust_value FP (value_literal D v) = (if value_finite v then Some (Done v) else None)"
proof (cases "value_finite v")
  case True
  then show ?thesis by (simp add: rust_value_literal read_variant [OF assms finite_literal])
next
  case False
  then show ?thesis unfolding rust_value_literal
    using f32_not_finite f64_not_finite
    by (cases v) (simp_all add: rust_variant_def rust_float_not_finite)
qed

lemma value_literal_plain: "10 \<notin> set (value_literal D v)"
proof -
  have "10 \<notin> set (debug_f32 D x)" for x using f32_text f32_not_finite number_text_plain not_finite_plain by blast
  moreover have "10 \<notin> set (debug_f64 D x)" for x using f64_text f64_not_finite number_text_plain not_finite_plain by blast
  ultimately show ?thesis
    using hex_alt_chars [of 10] show_int_plain byte_list_plain
    by (cases v) (auto simp: lit_def string_literal_def)
qed

text \<open>
  A body whose insertions all succeed at run time is Rust exactly when its values are finite, and then
  it does the same insertions.
\<close>

lemma read_body:
  assumes "\<And>ob. ob \<in> set obs \<Longrightarrow> wf_value (ob_default_value ob)" and "insert_objects M obs od = Inr od'"
  shows "rust_body FP M (map (insert_line D) obs @ [lit ''    od'', lit ''}'']) od =
    (if \<forall>ob \<in> set obs. value_finite (ob_default_value ob) then Some (Done od') else None)"
  using assms
proof (induction obs arbitrary: od)
  case (Cons ob obs)
  have "insert_line D ob \<noteq> lit ''    od''" by (simp add: insert_line_def lit_def)
  then show ?case using Cons
    by (auto simp: read_insert read_value ob_entry_def split: sum.splits)
qed simp

lemma run_generated_result:
  assumes "\<And>ob. ob \<in> set (eds_objects e) \<Longrightarrow> wf_value (ob_default_value ob)"
    and "eds_object_dictionary (M (length (eds_objects e))) e = Inr od"
    and "10 \<notin> set fn_name" and "40 \<notin> set fn_name"
  shows "run_generated FP M (generate_object_dictionary D e fn_name) =
    (if \<forall>ob \<in> set (eds_objects e). value_finite (ob_default_value ob) then Some (fn_name, Done od) else None)"
proof -
  let ?N = "M (length (eds_objects e))"
  have "insert_objects ?N (eds_objects e) (od_new ?N) = Inr od"
    using assms(2) by (simp add: eds_object_dictionary_def)
  note body = read_body [OF assms(1) this]
  show ?thesis by (simp add: run_generated_body [OF value_literal_plain assms(3,4)] Let_def body)
qed

end

text \<open>The dictionary loaded at run time always fits a container of as many entries as the file has objects.\<close>

lemma loaded_dictionary:
  assumes "object_map M (length (eds_objects e))"
  obtains od where "eds_object_dictionary M e = Inr od"
    and "lm_get M od = map_of (rev (map (\<lambda>ob. (ob_address ob, ob_entry ob)) (eds_objects e)))"
proof -
  let ?es = "map (\<lambda>ob. (ob_address ob, ob_entry ob)) (eds_objects e)"
  obtain od r where all: "insert_all M ?es (od_new M) = (od, r)" by fastforce
  have new: "lm_get M (od_new M) = Map.empty"
    using assms by (simp add: od_new_def object_map_def linear_map.get_new)
  have "card (fst ` set ?es) \<le> length (eds_objects e)" by (metis card_image_le card_length finite_set le_trans length_map)
  then have "r = Inr () \<and> lm_get M od = map_of (rev ?es)"
    using object_map.insert_all_result [OF assms _ all] new by simp
  then show ?thesis using that all by (simp add: eds_object_dictionary_def insert_objects_all rev_map)
qed

text \<open>C28: The generated source builds the dictionary of its file, exactly when it is Rust. For every
  description file that parses, loading it at run time into a container of as many entries as it has
  objects gives the dictionary that holds the last description of every address. The source written for
  it compiles if and only if no object of it has a default that is NaN or infinite, which
  \<open>DefaultValue=nan\<close> is; then the function read back from the source has the requested name, fails no
  \<open>unwrap\<close> and returns that same dictionary. The printer and the reader of floats are any for which a
  finite number is printed as a decimal number and read back, and the others by their names.\<close>

theorem codegen_builds_dictionary:
  assumes "\<And>n. object_map (M n) n" and "float_text FP D" and "eds_parse FP txt = Done (Inr e)"
    and "10 \<notin> set fn_name" and "40 \<notin> set fn_name"
  shows "\<exists>od. eds_object_dictionary (M (length (eds_objects e))) e = Inr od \<and>
    lm_get (M (length (eds_objects e))) od =
      map_of (rev (map (\<lambda>ob. (ob_address ob, ob_entry ob)) (eds_objects e))) \<and>
    run_generated FP M (generate_object_dictionary D e fn_name) =
      (if \<forall>ob \<in> set (eds_objects e). value_finite (ob_default_value ob) then Some (fn_name, Done od) else None)"
proof -
  obtain od where od: "eds_object_dictionary (M (length (eds_objects e))) e = Inr od"
    and get: "lm_get (M (length (eds_objects e))) od =
      map_of (rev (map (\<lambda>ob. (ob_address ob, ob_entry ob)) (eds_objects e)))"
    using loaded_dictionary [OF assms(1)] by blast
  have "\<And>ob. ob \<in> set (eds_objects e) \<Longrightarrow> wf_value (ob_default_value ob)"
    using eds_parse_ok [OF assms(3)] by (simp add: ob_ok_def)
  from float_text.run_generated_result [where M = M and e = e, OF assms(2) this od assms(4,5)] od get show ?thesis by blast
qed

text \<open>A file with floats of both widths, and one with a default that is not a number.\<close>

definition float_eds :: rstr where
  "float_eds = lit (''[2001]'' @ [CHR 0x0A] @ ''DataType=0x0011'' @ [CHR 0x0A] @ ''AccessType=rw'' @ [CHR 0x0A] @
     ''DefaultValue=-0.25'' @ [CHR 0x0A] @ ''[2000]'' @ [CHR 0x0A] @ ''DataType=0x0008'' @ [CHR 0x0A] @
     ''AccessType=ro'' @ [CHR 0x0A] @ ''DefaultValue=1.5'' @ [CHR 0x0A])"

definition float_eds_result :: eds where
  "float_eds_result = \<lparr>eds_vendor_name = None, eds_product_name = None, eds_node_id = None,
     eds_objects =
       [\<lparr>ob_address = Address 0x2000 0, ob_parameter_name = [], ob_data_type = DT_Real32,
         ob_access = Ro, ob_default_value = Real32 0x3FC00000, ob_pdo_mappable = False\<rparr>,
        \<lparr>ob_address = Address 0x2001 0, ob_parameter_name = [], ob_data_type = DT_Real64,
         ob_access = Rw, ob_default_value = Real64 0xBFD0000000000000, ob_pdo_mappable = False\<rparr>]\<rparr>"

definition nan_eds :: rstr where
  "nan_eds = lit (''[2000]'' @ [CHR 0x0A] @ ''DataType=0x0008'' @ [CHR 0x0A] @ ''DefaultValue=nan'' @ [CHR 0x0A])"

definition nan_eds_result :: eds where
  "nan_eds_result = \<lparr>eds_vendor_name = None, eds_product_name = None, eds_node_id = None,
     eds_objects =
       [\<lparr>ob_address = Address 0x2000 0, ob_parameter_name = [], ob_data_type = DT_Real32,
         ob_access = Ro, ob_default_value = Real32 0x7FC00000, ob_pdo_mappable = False\<rparr>]\<rparr>"

lemma float_eds_parses: "eds_parse exact_floats float_eds = Done (Inr float_eds_result)"
proof -
  let ?f32 = "[(lit ''accesstype'', lit ''ro''), (lit ''datatype'', lit ''0x0008''), (lit ''defaultvalue'', lit ''1.5'')]"
  let ?f64 = "[(lit ''accesstype'', lit ''rw''), (lit ''datatype'', lit ''0x0011''), (lit ''defaultvalue'', lit ''-0.25'')]"
  let ?secs = "[(lit ''2000'', ?f32), (lit ''2001'', ?f64)]"
  have ini: "parse_ini float_eds = Done ?secs" "node_id_field ?secs = Done None"
    "bt_get ?secs (lit ''deviceinfo'') = None"
    by code_simp+
  have fields: "bt_get ?f32 (lit ''datatype'') = Some (lit ''0x0008'')"
    "bt_get ?f32 (lit ''accesstype'') = Some (lit ''ro'')" "bt_get ?f32 (lit ''parametervalue'') = None"
    "bt_get ?f32 (lit ''defaultvalue'') = Some (lit ''1.5'')" "bt_get ?f32 (lit ''parametername'') = None"
    "bt_get ?f32 (lit ''pdomapping'') = None" "bt_get ?f64 (lit ''datatype'') = Some (lit ''0x0011'')"
    "bt_get ?f64 (lit ''accesstype'') = Some (lit ''rw'')" "bt_get ?f64 (lit ''parametervalue'') = None"
    "bt_get ?f64 (lit ''defaultvalue'') = Some (lit ''-0.25'')" "bt_get ?f64 (lit ''parametername'') = None"
    "bt_get ?f64 (lit ''pdomapping'') = None"
    by code_simp+
  have "parse_object_section (lit ''2000'') = Some (Address 0x2000 0)"
    "parse_object_section (lit ''2001'') = Some (Address 0x2001 0)"
    "eval_int_expr (lit ''0x0008'') 0 = Done (Some 8)" "eval_int_expr (lit ''0x0011'') 0 = Done (Some 17)"
    "from_index 8 = Some DT_Real32" "from_index 17 = Some DT_Real64"
    "access_from_str (lit ''ro'') = Inr Ro" "access_from_str (lit ''rw'') = Inr Rw"
    "trim (lit ''1.5'') = lit ''1.5''" "trim (lit ''-0.25'') = lit ''-0.25''"
    "Address 0x2000 0 \<le> Address 0x2001 0"
    by code_simp+
  with fields show ?thesis
    by (simp add: eds_parse_def ini parse_section_def value_from_str_def is_variable_def
        exact_reads_f32 exact_reads_f64 float_eds_result_def)
qed

lemma nan_eds_parses: "eds_parse exact_floats nan_eds = Done (Inr nan_eds_result)"
proof -
  let ?flds = "[(lit ''datatype'', lit ''0x0008''), (lit ''defaultvalue'', lit ''nan'')]"
  let ?secs = "[(lit ''2000'', ?flds)]"
  have ini: "parse_ini nan_eds = Done ?secs" "node_id_field ?secs = Done None"
    "bt_get ?secs (lit ''deviceinfo'') = None"
    by code_simp+
  have "bt_get ?flds (lit ''datatype'') = Some (lit ''0x0008'')" "bt_get ?flds (lit ''accesstype'') = None"
    "bt_get ?flds (lit ''parametervalue'') = None" "bt_get ?flds (lit ''defaultvalue'') = Some (lit ''nan'')"
    "bt_get ?flds (lit ''parametername'') = None" "bt_get ?flds (lit ''pdomapping'') = None"
    "parse_object_section (lit ''2000'') = Some (Address 0x2000 0)"
    "eval_int_expr (lit ''0x0008'') 0 = Done (Some 8)" "from_index 8 = Some DT_Real32"
    "trim (lit ''nan'') = lit ''nan''"
    by code_simp+
  then show ?thesis
    by (simp add: eds_parse_def ini parse_section_def value_from_str_def is_variable_def
        exact_reads_nan nan_eds_result_def)
qed

theorem codegen_builds_dictionary_witness:
  "(\<exists>od. run_generated exact_floats assoc_ops
      (generate_object_dictionary exact_printer float_eds_result (lit ''device_od'')) =
      Some (lit ''device_od'', Done od) \<and>
    lm_get (assoc_ops 2) od (Address 0x2000 0) = Some (entry_ro (Real32 0x3FC00000)) \<and>
    lm_get (assoc_ops 2) od (Address 0x2001 0) = Some (entry_rw (Real64 0xBFD0000000000000))) \<and>
   run_generated exact_floats assoc_ops
      (generate_object_dictionary exact_printer nan_eds_result (lit ''device_od'')) = None"
proof -
  have names: "10 \<notin> set (lit ''device_od'')" "40 \<notin> set (lit ''device_od'')" by (simp_all add: lit_def)
  note run = codegen_builds_dictionary
    [where fn_name = "lit ''device_od''", OF assoc_od.object_map_axioms exact.float_text_axioms _ names]
  have "value_finite (Real32 0x3FC00000)" "value_finite (Real64 0xBFD0000000000000)" "\<not> value_finite (Real32 0x7FC00000)"
    by code_simp+
  then show ?thesis using run [OF float_eds_parses] run [OF nan_eds_parses]
    by (auto simp: float_eds_result_def nan_eds_result_def ob_entry_def entry_ro_def entry_rw_def
        simp del: value_finite.simps)
qed

end
