(* ===== verification/Byte_Text.thy ===== *)
theory Byte_Text
  imports Eds
begin

text \<open>
  The text of byte strings (\<open>from_str\<close> and \<open>as_str\<close> of \<^verbatim>\<open>core/src/datatypes.rs\<close>): UTF-8 decoding accepts
  exactly the encodings of texts, so a VISIBLE_STRING reads back as what was stored.
\<close>

section \<open>UTF-8 decoding\<close>

definition is_scalar :: "int \<Rightarrow> bool" where
  "is_scalar c \<longleftrightarrow> 0 \<le> c \<and> c < 0xD800 \<or> 0xE000 \<le> c \<and> c < 0x110000"

text \<open>\<open>continuations k acc bs\<close> reads \<open>k\<close> continuation bytes, six bits each.\<close>

fun continuations :: "nat \<Rightarrow> int \<Rightarrow> u8 list \<Rightarrow> (int \<times> u8 list) option" where
  "continuations 0 acc bs = Some (acc, bs)"
| "continuations (Suc k) acc [] = None"
| "continuations (Suc k) acc (b # bs) =
     (if 0x80 \<le> uint b \<and> uint b < 0xC0 then continuations k (acc * 64 + (uint b - 0x80)) bs else None)"

text \<open>The first character: no overlong form, no surrogate, nothing above U+10FFFF.\<close>

definition shortest :: "int \<Rightarrow> (int \<times> u8 list) option \<Rightarrow> (int \<times> u8 list) option" where
  "shortest lo r =
     (case r of Some (c, rest) \<Rightarrow> if lo \<le> c \<and> is_scalar c then Some (c, rest) else None | None \<Rightarrow> None)"

fun utf8_first :: "u8 list \<Rightarrow> (int \<times> u8 list) option" where
  "utf8_first [] = None"
| "utf8_first (a # bs) =
     (let x = uint a in
      if x < 0x80 then Some (x, bs)
      else if x < 0xC0 then None
      else if x < 0xE0 then shortest 0x80 (continuations 1 (x - 0xC0) bs)
      else if x < 0xF0 then shortest 0x800 (continuations 2 (x - 0xE0) bs)
      else if x < 0xF8 then shortest 0x10000 (continuations 3 (x - 0xF0) bs)
      else None)"

lemma continuations_length: "continuations k acc bs = Some (c, rest) \<Longrightarrow> length rest \<le> length bs"
  by (induction k acc bs rule: continuations.induct) (auto split: if_splits)

lemma utf8_first_length: "utf8_first bs = Some (c, rest) \<Longrightarrow> length rest < length bs"
  by (cases bs) (auto simp: Let_def shortest_def split: if_splits option.splits dest!: continuations_length)

text \<open>\<open>core::str::from_utf8\<close>.\<close>

function utf8_decode :: "u8 list \<Rightarrow> rstr option" where
  "utf8_decode bs =
     (if bs = [] then Some []
      else
        (case utf8_first bs of
           None \<Rightarrow> None
         | Some (c, rest) \<Rightarrow> map_option ((#) c) (utf8_decode rest)))"
  by pat_completeness auto
termination
  by (relation "measure length") (auto dest: utf8_first_length)

declare utf8_decode.simps [simp del]

section \<open>Decoding inverts encoding\<close>

definition byte :: "int \<Rightarrow> u8" where
  "byte n = of_int n"

lemma uint_byte: "0 \<le> n \<Longrightarrow> n < 256 \<Longrightarrow> uint (byte n) = n"
  unfolding byte_def by (simp add: uint_word_of_int take_bit_int_eq_self)

lemma byte_uint [simp]: "byte (uint b) = b"
  by (simp add: byte_def)

lemma utf8_char_byte:
  "utf8_char c =
     (if c < 0x80 then [byte c]
      else if c < 0x800 then [byte (0xC0 + c div 64), byte (0x80 + c mod 64)]
      else if c < 0x10000 then
        [byte (0xE0 + c div 64 div 64), byte (0x80 + c div 64 mod 64), byte (0x80 + c mod 64)]
      else [byte (0xF0 + c div 64 div 64 div 64), byte (0x80 + c div 64 div 64 mod 64),
            byte (0x80 + c div 64 mod 64), byte (0x80 + c mod 64)])"
  unfolding utf8_char_def byte_def by (simp add: zdiv_zmult2_eq [symmetric])

lemma continuations_byte [simp]:
  "continuations (Suc k) acc (byte (0x80 + n mod 64) # bs) = continuations k (acc * 64 + n mod 64) bs"
proof -
  have "0 \<le> n mod 64" "n mod 64 < 64" by simp_all
  moreover from this have "uint (byte (0x80 + n mod 64)) = 0x80 + n mod 64" by (intro uint_byte) linarith+
  ultimately show ?thesis by simp
qed

lemma split_64:
  assumes "n = x * 64 + p" and "0 \<le> p" and "p < 64"
  shows "n div 64 = x" and "n mod 64 = (p :: int)"
  using assms by simp_all

lemma div_64_less: "(n :: int) < 64 * m \<Longrightarrow> n div 64 < m"
  by (simp add: div_less_iff_less_mult mult.commute)

lemma utf8_first_char:
  assumes "is_scalar c"
  shows "utf8_first (utf8_char c @ bs) = Some (c, bs)"
proof -
  have c: "0 \<le> c" "c < 0x110000" using assms by (auto simp: is_scalar_def)
  define d where "d = c div 64"
  define e where "e = d div 64"
  define f where "f = e div 64"
  have nonneg: "0 \<le> d" "0 \<le> e" "0 \<le> f" using c by (simp_all add: d_def e_def f_def)
  have join: "d * 64 + c mod 64 = c" "e * 64 + d mod 64 = d" "f * 64 + e mod 64 = e"
    by (simp_all add: d_def e_def f_def)
  consider "c < 0x80" | "0x80 \<le> c" "c < 0x800" | "0x800 \<le> c" "c < 0x10000" | "0x10000 \<le> c" by linarith
  then show ?thesis
  proof cases
    case 1
    then show ?thesis using c by (simp add: utf8_char_byte uint_byte)
  next
    case 2
    then have "d < 32" unfolding d_def by (intro div_64_less) simp
    then have "uint (byte (0xC0 + d)) = 0xC0 + d" using nonneg by (intro uint_byte) linarith+
    then show ?thesis using 2 \<open>d < 32\<close> nonneg assms join
      by (simp add: utf8_char_byte shortest_def flip: d_def del: continuations.simps(3))
  next
    case 3
    then have "d < 1024" unfolding d_def by (intro div_64_less) simp
    then have "e < 16" unfolding e_def by (intro div_64_less) simp
    then have "uint (byte (0xE0 + e)) = 0xE0 + e" using nonneg by (intro uint_byte) linarith+
    then show ?thesis using 3 \<open>e < 16\<close> nonneg assms join
      by (simp add: utf8_char_byte shortest_def numeral_2_eq_2 flip: d_def e_def del: continuations.simps(3))
  next
    case 4
    have "d < 0x4400" unfolding d_def using c by (intro div_64_less) simp
    then have "e < 0x110" unfolding e_def by (intro div_64_less) simp
    then have "f < 8" unfolding f_def by (intro div_64_less) simp
    then have "uint (byte (0xF0 + f)) = 0xF0 + f" using nonneg by (intro uint_byte) linarith+
    then show ?thesis using 4 \<open>f < 8\<close> nonneg assms join
      by (simp add: utf8_char_byte shortest_def numeral_3_eq_3 flip: d_def e_def f_def del: continuations.simps(3))
  qed
qed

lemma utf8_char_ne: "utf8_char c \<noteq> []"
  by (simp add: utf8_char_def)

lemma utf8_decode_utf8: "\<forall>c \<in> set s. is_scalar c \<Longrightarrow> utf8_decode (utf8 s) = Some s"
proof (induction s)
  case Nil
  then show ?case by (simp add: utf8_decode.simps utf8_def)
next
  case (Cons c s)
  then show ?case
    using utf8_first_char [of c "utf8 s"] utf8_char_ne [of c]
    by (subst utf8_decode.simps) (simp add: utf8_def)
qed

lemma continuations_Suc:
  assumes "continuations (Suc k) acc bs = Some (c, rest)"
  obtains p bs' where "0 \<le> p" "p < 64" "bs = byte (0x80 + p) # bs'" "continuations k (acc * 64 + p) bs' = Some (c, rest)"
proof -
  obtain b bs' where b: "bs = b # bs'" using assms by (cases bs) auto
  moreover have "b = byte (0x80 + (uint b - 0x80))" by simp
  ultimately show ?thesis using assms that [of "uint b - 0x80" bs'] by (auto split: if_splits)
qed

lemma utf8_first_sound:
  assumes "utf8_first bs = Some (c, rest)"
  shows "is_scalar c \<and> bs = utf8_char c @ rest"
proof -
  obtain a bs' where bs: "bs = a # bs'" using assms by (cases bs) auto
  have a: "0 \<le> uint a" "a = byte (uint a)" by simp_all
  consider (one) "uint a < 0x80" | (two) "0xC0 \<le> uint a" "uint a < 0xE0" "\<not> uint a < 0x80"
    | (three) "0xE0 \<le> uint a" "uint a < 0xF0" | (four) "0xF0 \<le> uint a" "uint a < 0xF8"
    using assms unfolding bs by (auto simp: Let_def split: if_splits)
  then show ?thesis
  proof cases
    case one
    then show ?thesis using assms a(1) unfolding bs by (auto simp: utf8_char_byte is_scalar_def)
  next
    case two
    then have r: "continuations (Suc 0) (uint a - 0xC0) bs' = Some (c, rest)" "0x80 \<le> c" "is_scalar c"
      using assms unfolding bs by (auto simp: shortest_def split: option.splits if_splits)
    from r(1) obtain p where p: "0 \<le> p" "p < 64" and bs': "bs' = byte (0x80 + p) # rest"
      and c: "c = (uint a - 0xC0) * 64 + p"
      by (elim continuations_Suc) simp
    have "c < 0x800" unfolding c using two p by simp
    then show ?thesis using r(2,3) unfolding bs bs' utf8_char_byte split_64 [OF c p] by simp
  next
    case three
    then have r: "continuations (Suc (Suc 0)) (uint a - 0xE0) bs' = Some (c, rest)" "0x800 \<le> c" "is_scalar c"
      using assms unfolding bs by (auto simp: shortest_def numeral_2_eq_2 split: option.splits if_splits)
    from r(1) obtain p q where p: "0 \<le> p" "p < 64" and q: "0 \<le> q" "q < 64"
      and bs': "bs' = byte (0x80 + p) # byte (0x80 + q) # rest"
      and c: "c = ((uint a - 0xE0) * 64 + p) * 64 + q"
      by (elim continuations_Suc) simp
    note c1 = split_64 [OF c q]
    note c2 = split_64 [OF c1(1) p]
    have "c < 0x10000" unfolding c using three p q by simp
    then show ?thesis using r(2,3) unfolding bs bs' utf8_char_byte c1(2) c2 by simp
  next
    case four
    then have r: "continuations (Suc (Suc (Suc 0))) (uint a - 0xF0) bs' = Some (c, rest)" "0x10000 \<le> c" "is_scalar c"
      using assms unfolding bs by (auto simp: shortest_def numeral_3_eq_3 split: option.splits if_splits)
    from r(1) obtain p q t where p: "0 \<le> p" "p < 64" and q: "0 \<le> q" "q < 64" and t: "0 \<le> t" "t < 64"
      and bs': "bs' = byte (0x80 + p) # byte (0x80 + q) # byte (0x80 + t) # rest"
      and c: "c = (((uint a - 0xF0) * 64 + p) * 64 + q) * 64 + t"
      by (elim continuations_Suc) simp
    note c1 = split_64 [OF c t]
    note c2 = split_64 [OF c1(1) q]
    note c3 = split_64 [OF c2(1) p]
    show ?thesis using r(2,3) unfolding bs bs' utf8_char_byte c1(2) c2(2) c3 by simp
  qed
qed

lemma utf8_decode_sound: "utf8_decode bs = Some s \<Longrightarrow> bs = utf8 s \<and> (\<forall>c \<in> set s. is_scalar c)"
proof (induction bs arbitrary: s rule: utf8_decode.induct)
  case (1 bs)
  show ?case
  proof (cases "bs = []")
    case True
    then show ?thesis using "1.prems" by (simp add: utf8_decode.simps utf8_def)
  next
    case False
    then obtain c rest t where f: "utf8_first bs = Some (c, rest)" "utf8_decode rest = Some t" "s = c # t"
      using "1.prems" by (subst (asm) utf8_decode.simps) (auto split: option.splits)
    then show ?thesis using "1.IH" [OF False f(1) refl f(2)] utf8_first_sound [OF f(1)]
      by (simp add: utf8_def)
  qed
qed

section \<open>Texts of byte strings\<close>

definition bs_from_str :: "rstr \<Rightarrow> core_error + byte_string" where
  "bs_from_str s = from_bytes (utf8 s)"

definition bs_as_str :: "byte_string \<Rightarrow> rstr option" where
  "bs_as_str s = utf8_decode (as_bytes s)"

lemma bs_as_str_exact:
  "bs_as_str b = Some s \<longleftrightarrow> as_bytes b = utf8 s \<and> (\<forall>c \<in> set s. is_scalar c)"
  using utf8_decode_utf8 [of s] utf8_decode_sound [of "as_bytes b" s] by (auto simp: bs_as_str_def)

lemma bs_str_roundtrip:
  assumes "bs_from_str s = Inr b" and "\<forall>c \<in> set s. is_scalar c"
  shows "bs_as_str b = Some s"
  using assms from_bytes_Inr(1) [of "utf8 s" b] by (simp add: bs_from_str_def bs_as_str_exact)

lemma utf8_append: "utf8 (s @ t) = utf8 s @ utf8 t"
  by (simp add: utf8_def)

text \<open>No encoding of a character starts another one, so a prefix of bytes that is a text is a prefix of the text.\<close>

lemma utf8_prefix:
  assumes "utf8 t @ x = utf8 u" and "\<forall>c \<in> set t. is_scalar c" and "\<forall>c \<in> set u. is_scalar c"
  shows "\<exists>rest. u = t @ rest"
  using assms
proof (induction t arbitrary: u)
  case (Cons c t)
  have t: "utf8_char c @ utf8 t @ x = utf8 u" using Cons.prems(1) by (simp add: utf8_def)
  then obtain d u' where u: "u = d # u'" using utf8_char_ne [of c] by (cases u) (simp_all add: utf8_def)
  have "utf8_first (utf8 u) = Some (d, utf8 u')" using utf8_first_char [of d] Cons.prems(3) by (simp add: u utf8_def)
  moreover have "utf8_first (utf8 u) = Some (c, utf8 t @ x)"
    using utf8_first_char [of c] Cons.prems(2) by (simp flip: t)
  ultimately have "c = d" "utf8 t @ x = utf8 u'" by simp_all
  then show ?case using Cons.IH [of u'] Cons.prems u by simp
qed simp

text \<open>The text of a VISIBLE_STRING survives the way from the file into the device. The default value is
  stored as its UTF-8 bytes, cut at 32; the device reads the bytes back as a text exactly if the cut
  falls between two characters, and then as the longest part of the text that fits. A cut inside a
  character leaves bytes that are no text at all.\<close>

lemma eds_visible_string_text:
  assumes "\<forall>c \<in> set (trim s). is_scalar c"
  shows "\<exists>b. value_from_str FP DT_VisibleString s nid = Done (Some (VisibleString b)) \<and>
    (\<forall>t. bs_as_str b = Some t \<longleftrightarrow>
      (\<exists>rest. trim s = t @ rest \<and> length (utf8 t) = min (length (utf8 (trim s))) MAX_STRING_LEN))"
proof -
  let ?bytes = "utf8 (trim s)"
  let ?n = "min (length ?bytes) MAX_STRING_LEN"
  obtain b where b: "from_bytes (take ?n ?bytes) = Inr b" "as_bytes b = take ?n ?bytes"
    using from_bytes_ok [of "take ?n ?bytes"] by auto
  have "bs_as_str b = Some t \<longleftrightarrow> (\<exists>rest. trim s = t @ rest \<and> length (utf8 t) = ?n)" for t
  proof
    assume "bs_as_str b = Some t"
    then have t: "take ?n ?bytes = utf8 t" "\<forall>c \<in> set t. is_scalar c" using b(2) by (simp_all add: bs_as_str_exact)
    then have "utf8 t @ drop ?n ?bytes = ?bytes" by (metis append_take_drop_id)
    moreover have "length (utf8 t) = ?n" using arg_cong [OF t(1), where f = length] by simp
    ultimately show "\<exists>rest. trim s = t @ rest \<and> length (utf8 t) = ?n"
      using utf8_prefix [OF _ t(2) assms] by blast
  next
    assume "\<exists>rest. trim s = t @ rest \<and> length (utf8 t) = ?n"
    then obtain rest where r: "trim s = t @ rest" "length (utf8 t) = ?n" by blast
    then have "take ?n ?bytes = utf8 t" by (metis append_eq_conv_conj utf8_append)
    then show "bs_as_str b = Some t" using r(1) assms b(2) by (simp add: bs_as_str_exact)
  qed
  then show ?thesis using b(1) by (auto simp: value_from_str_def is_variable_def Let_def)
qed

text \<open>The cut may fall inside a character.\<close>

lemma eds_visible_string_cut:
  "\<exists>b. value_from_str example_floats DT_VisibleString (replicate 31 97 @ [0xE9]) 0 =
      Done (Some (VisibleString b)) \<and> bs_as_str b = None"
proof -
  let ?s = "replicate 31 97 @ [0xE9 :: int]"
  have trim: "trim ?s = ?s" by (rule trim_id) (simp add: is_space_def)
  have a: "length (utf8 t) = length t" if "set t \<subseteq> {97}" for t
    using that by (induction t) (auto simp: utf8_def utf8_char_def)
  have len: "length (utf8 ?s) = 33" by (simp add: utf8_append a) (simp add: utf8_def utf8_char_def)
  have "\<forall>c \<in> set (trim ?s). is_scalar c" unfolding trim by (simp add: is_scalar_def)
  from eds_visible_string_text [OF this, of example_floats 0] obtain b where
    b: "value_from_str example_floats DT_VisibleString ?s 0 = Done (Some (VisibleString b))"
    "\<And>t. bs_as_str b = Some t \<longleftrightarrow> (\<exists>rest. ?s = t @ rest \<and> length (utf8 t) = 32)"
    unfolding trim len by auto
  have "length (utf8 t) \<noteq> 32" if "?s = t @ rest" for t rest
  proof (cases rest rule: rev_cases)
    case Nil
    then show ?thesis using that len by simp
  next
    case (snoc r c)
    then have r: "replicate 31 97 = t @ r" using that by simp
    have "set t \<subseteq> {97}" using arg_cong [OF r, where f = set] by auto
    moreover have "length t \<le> 31" using arg_cong [OF r, where f = length] by simp
    ultimately show ?thesis using a by simp
  qed
  then have "bs_as_str b = None" using b(2) by (metis option.exhaust)
  then show ?thesis using b(1) by blast
qed

end
