(* ===== verification/Transport.thy ===== *)
theory Transport
  imports Node_Reach Rust_Str
begin

text \<open>
  \<^verbatim>\<open>core/src/transport.rs\<close> and \<^verbatim>\<open>host/src/transport.rs\<close>: CANopen frames on a CAN driver, and whole SDO
  transactions over a socket. The driver's frame type (the crates \<^verbatim>\<open>embedded-can\<close> and \<^verbatim>\<open>socketcan\<close>) and
  the socket are arguments; \<open>can_frames\<close> states the documented behaviour of the frames. Receiving
  may block forever, so it is a partial function whose value \<open>None\<close> means that it does not return.
  The theorems put a device node at the other end of the bus: a read and a write of the host reach it
  and return, whatever other traffic there is.
\<close>

section \<open>CAN frames\<close>

datatype can_id = Standard u16 | Extended u32

text \<open>\<open>fr_standard_id\<close> is \<open>StandardId::new\<close> with the raw value of the identifier.\<close>

record 'f frame_ops =
  fr_standard_id :: "u16 \<Rightarrow> u16 option"
  fr_new :: "can_id \<Rightarrow> u8 list \<Rightarrow> 'f option"
  fr_id :: "'f \<Rightarrow> can_id"
  fr_data :: "'f \<Rightarrow> u8 list"
  fr_is_data :: "'f \<Rightarrow> bool"

definition frame_from :: "'f frame_ops \<Rightarrow> u16 \<Rightarrow> u8 list \<Rightarrow> 'f option" where
  "frame_from F cob_id data =
     (case fr_standard_id F cob_id of None \<Rightarrow> None | Some i \<Rightarrow> fr_new F (Standard i) data)"

definition frame_cob_id :: "'f frame_ops \<Rightarrow> 'f \<Rightarrow> u16 option" where
  "frame_cob_id F f = (case fr_id F f of Standard i \<Rightarrow> Some i | Extended _ \<Rightarrow> None)"

locale can_frames =
  fixes F :: "'f frame_ops"
  assumes standard_id: "fr_standard_id F c = (if c \<le> 0x7FF then Some c else None)"
    and new_None: "fr_new F i data = None \<longleftrightarrow> 8 < length data"
    and new_Some: "fr_new F i data = Some f \<Longrightarrow> fr_id F f = i \<and> fr_data F f = data \<and> fr_is_data F f"
begin

lemma frame_from_None: "frame_from F cob_id data = None \<longleftrightarrow> 0x7FF < cob_id \<or> 8 < length data"
  by (auto simp: frame_from_def standard_id new_None)

lemma frame_from_Some:
  "frame_from F cob_id data = Some f \<Longrightarrow>
   frame_cob_id F f = Some cob_id \<and> fr_id F f = Standard cob_id \<and> fr_data F f = data \<and> fr_is_data F f"
  by (auto simp: frame_from_def standard_id frame_cob_id_def dest: new_Some split: if_splits)

lemma frame_from_ok:
  assumes "cob_id \<le> 0x7FF" and "length data \<le> 8"
  obtains f where "frame_from F cob_id data = Some f" "frame_cob_id F f = Some cob_id"
    "fr_data F f = data" "fr_is_data F f" "fr_id F f = Standard cob_id"
  using assms frame_from_None [of cob_id data] frame_from_Some [of cob_id data] by fastforce

end

section \<open>Received frames and errors\<close>

record received =
  rc_cob_id :: u16
  rc_buf :: "u8 list"
  rc_len :: nat

definition received_new :: "u16 \<Rightarrow> u8 list \<Rightarrow> received" where
  "received_new cob_id bytes =
     (let len = min (length bytes) 8
      in \<lparr>rc_cob_id = cob_id, rc_buf = copy_at 0 (take len bytes) (zeros 8), rc_len = len\<rparr>)"

definition received_data :: "received \<Rightarrow> u8 list" where
  "received_data r = take (rc_len r) (rc_buf r)"

definition received_payload :: "received \<Rightarrow> u8 list" where
  "received_payload r = rc_buf r"

text \<open>An I/O error is one of the socket, or the rejection of a frame that cannot be built.\<close>

datatype 'e io_error = SocketError 'e | InvalidInput

datatype 'e sdo_error = SdoIo "'e io_error" | SdoAborted u32 | NoValue

text \<open>The display texts, given the texts of the I/O errors.\<close>

fun sdo_error_text :: "('e io_error \<Rightarrow> rstr) \<Rightarrow> 'e sdo_error \<Rightarrow> rstr" where
  "sdo_error_text io (SdoIo e) = lit ''SDO transport I/O error: '' @ io e"
| "sdo_error_text io (SdoAborted code) =
     lit ''SDO transfer aborted (code 0x'' @ hex_fixed 8 (uint code) @ lit '')''"
| "sdo_error_text io NoValue = lit ''SDO transfer completed without a value''"

section \<open>The socket\<close>

record ('s, 'f, 'e) can_socket =
  sk_frames :: "'f frame_ops"
  sk_write :: "'s \<Rightarrow> 'f \<Rightarrow> 's \<times> ('e + unit)"
  sk_read :: "'s \<Rightarrow> 's \<times> ('e + 'f)"

definition send_frame :: "('s, 'f, 'e) can_socket \<Rightarrow> u16 \<Rightarrow> u8 list \<Rightarrow> 's \<Rightarrow> 's \<times> ('e io_error + unit)" where
  "send_frame K cob_id data s =
     (case frame_from (sk_frames K) cob_id data of
        None \<Rightarrow> (s, Inl InvalidInput)
      | Some f \<Rightarrow> (case sk_write K s f of (s', r) \<Rightarrow> (s', map_sum SocketError id r)))"

partial_function (option) recv ::
  "('s, 'f, 'e) can_socket \<Rightarrow> 's \<Rightarrow> ('s \<times> ('e io_error + received)) option" where
  "recv K s =
     (case sk_read K s of
        (s', Inl e) \<Rightarrow> Some (s', Inl (SocketError e))
      | (s', Inr f) \<Rightarrow>
          if \<not> fr_is_data (sk_frames K) f then recv K s'
          else (case frame_cob_id (sk_frames K) f of
                  None \<Rightarrow> recv K s'
                | Some c \<Rightarrow> Some (s', Inr (received_new c (fr_data (sk_frames K) f)))))"

definition send_nmt :: "('s, 'f, 'e) can_socket \<Rightarrow> nmt_command \<Rightarrow> node_id \<Rightarrow> 's \<Rightarrow>
    's \<times> ('e io_error + unit)" where
  "send_nmt K c target s = send_frame K NMT_COMMAND_COB_ID (encode_command c target) s"

partial_function (option) recv_on ::
  "('s, 'f, 'e) can_socket \<Rightarrow> u16 \<Rightarrow> 's \<Rightarrow> ('s \<times> ('e io_error + received)) option" where
  "recv_on K cob_id s =
     Option.bind (recv K s) (\<lambda>(s', r).
       case r of
         Inl e \<Rightarrow> Some (s', Inl e)
       | Inr f \<Rightarrow> if rc_cob_id f = cob_id then Some (s', Inr f) else recv_on K cob_id s')"

text \<open>
  The two transactions differ in what a completed transfer gives: \<open>finish\<close> is \<open>ok_or(NoValue)\<close> of the
  value for a read, and \<open>Ok(())\<close> for a write.
\<close>

partial_function (option) transaction ::
  "('s, 'f, 'e) can_socket \<Rightarrow> ('b, u8) vec_ops \<Rightarrow> (od_value option \<Rightarrow> 'e sdo_error + 'r) \<Rightarrow>
   'b sdo_client \<Rightarrow> sdo_payload \<Rightarrow> 's \<Rightarrow> ('s \<times> ('e sdo_error + 'r)) run option" where
  "transaction K B finish cl request s =
     (case send_frame K (cl_request_cob_id cl) request s of
        (s1, Inl e) \<Rightarrow> Some (Done (s1, Inl (SdoIo e)))
      | (s1, Inr _) \<Rightarrow>
          Option.bind (recv_on K (cl_response_cob_id cl) s1) (\<lambda>(s2, r).
            case r of
              Inl e \<Rightarrow> Some (Done (s2, Inl (SdoIo e)))
            | Inr reply \<Rightarrow>
                (case on_response B cl (received_payload reply) of
                   Panic \<Rightarrow> Some Panic
                 | Done (cl', ev) \<Rightarrow>
                     (case ev of
                        Send nxt \<Rightarrow> transaction K B finish cl' nxt s2
                      | Complete v \<Rightarrow> Some (Done (s2, finish v))
                      | Aborted code \<Rightarrow> Some (Done (s2, Inl (SdoAborted code)))))))"

definition sdo_read ::
  "('s, 'f, 'e) can_socket \<Rightarrow> ('b, u8) vec_ops \<Rightarrow> node_id \<Rightarrow> address \<Rightarrow> data_type \<Rightarrow> 's \<Rightarrow>
   ('s \<times> ('e sdo_error + od_value)) run option" where
  "sdo_read K B n a dt s =
     (case client_read (sdo_client_new n) a dt of
        (cl, request) \<Rightarrow>
          transaction K B (\<lambda>v. case v of Some x \<Rightarrow> Inr x | None \<Rightarrow> Inl NoValue) cl request s)"

definition sdo_write ::
  "('s, 'f, 'e) can_socket \<Rightarrow> ('b, u8) vec_ops \<Rightarrow> node_id \<Rightarrow> address \<Rightarrow> od_value \<Rightarrow> 's \<Rightarrow>
   ('s \<times> ('e sdo_error + unit)) run option" where
  "sdo_write K B n a v s =
     (case client_write (sdo_client_new n) a v of
        Panic \<Rightarrow> Some Panic
      | Done (cl, request) \<Rightarrow> transaction K B (\<lambda>_. Inr ()) cl request s)"

section \<open>A device on the bus\<close>

text \<open>
  The other end of the wire: a device node answers the frames written to the bus, and other traffic
  (\<open>wd_noise\<close>, one list per written frame) arrives before its answers. An empty queue is a timeout.
\<close>

record ('n, 'f) bus_world =
  wd_node :: 'n
  wd_queue :: "'f list"
  wd_noise :: "'f list list"

definition bus_write :: "('m, 'b, 'p, 'r, 't, 'h, 'v) node_ops \<Rightarrow> 'f frame_ops \<Rightarrow>
    (('m, 'b, 'r, 't, 'h) node, 'f) bus_world \<Rightarrow> 'f \<Rightarrow>
    (('m, 'b, 'r, 't, 'h) node, 'f) bus_world \<times> (unit + unit)" where
  "bus_write E F w f =
     (case frame_cob_id F f of
        None \<Rightarrow> (w, Inr ())
      | Some c \<Rightarrow>
          (case on_frame E c (fr_data F f) (wd_node w) of
             Panic \<Rightarrow> (w, Inr ())
           | Done (nd, out) \<Rightarrow>
               (w\<lparr>wd_node := nd, wd_noise := drop 1 (wd_noise w),
                  wd_queue := wd_queue w @ concat (take 1 (wd_noise w)) @
                    (case out of
                       None \<Rightarrow> []
                     | Some tx \<Rightarrow>
                         (case frame_from F (tx_cob_id tx) (tx_data tx) of None \<Rightarrow> [] | Some g \<Rightarrow> [g]))\<rparr>,
                Inr ())))"

definition bus_read :: "('n, 'f) bus_world \<Rightarrow> ('n, 'f) bus_world \<times> (unit + 'f)" where
  "bus_read w =
     (case wd_queue w of [] \<Rightarrow> (w, Inl ()) | f # q \<Rightarrow> (w\<lparr>wd_queue := q\<rparr>, Inr f))"

definition bus_socket :: "('m, 'b, 'p, 'r, 't, 'h, 'v) node_ops \<Rightarrow> 'f frame_ops \<Rightarrow>
    ((('m, 'b, 'r, 't, 'h) node, 'f) bus_world, 'f, unit) can_socket" where
  "bus_socket E F = \<lparr>sk_frames = F, sk_write = bus_write E F, sk_read = bus_read\<rparr>"

text \<open>Traffic that is not for the client: remote and error frames, and other identifiers.\<close>

definition quiet :: "'f frame_ops \<Rightarrow> u16 \<Rightarrow> 'f list \<Rightarrow> bool" where
  "quiet F c fs \<longleftrightarrow> (\<forall>f \<in> set fs. \<not> fr_is_data F f \<or> frame_cob_id F f \<noteq> Some c)"

text \<open>A node that serves SDO.\<close>

definition serving :: "('m, 'b, 'p, 'r, 't, 'h, 'v) node_ops \<Rightarrow> ('m, 'b, 'r, 't, 'h) node \<Rightarrow> bool" where
  "serving E nd \<longleftrightarrow> wf_node E nd \<and> device_id (nd_id nd) \<and> \<not> lss_unconfigured nd \<and>
     (node_state nd = PreOperational \<or> node_state nd = Operational)"

lemma received_new_8: "length d = 8 \<Longrightarrow>
    rc_cob_id (received_new c d) = c \<and> received_payload (received_new c d) = d"
  by (simp add: received_new_def received_payload_def copy_at_def)

lemma rc_cob_id_new [simp]: "rc_cob_id (received_new c d) = c"
  by (simp add: received_new_def Let_def)

lemma request_cob_id_cases:
  assumes "device_id n"
  shows "request_cob_id n \<noteq> LSS_MASTER_COB_ID" and "request_cob_id n \<noteq> NMT_COMMAND_COB_ID"
    and "request_cob_id n \<le> 0x7FF" and "response_cob_id n \<le> 0x7FF"
proof -
  have "unat (request_cob_id n) = 0x600 + unat (raw n)" "unat (response_cob_id n) = 0x580 + unat (raw n)"
    and "unat (raw n) \<le> 127"
    using assms unat_cob_of [of "0x600" n] unat_cob_of [of "0x580" n]
    by (simp_all add: request_cob_id_def response_cob_id_def cob_of_def device_id_nat)
  then show "request_cob_id n \<noteq> LSS_MASTER_COB_ID" "request_cob_id n \<noteq> NMT_COMMAND_COB_ID"
    "request_cob_id n \<le> 0x7FF" "response_cob_id n \<le> 0x7FF"
    by (auto simp: word_le_nat_alt)
qed

locale device_bus = node_env E N + can_frames F
  for E :: "('m, 'b, 'p, 'r, 't, 'h, 'v) node_ops" and N :: nat and F :: "'f frame_ops"
begin

lemma recv_on_step:
  assumes "wd_queue w = f # q" and "\<not> fr_is_data F f \<or> frame_cob_id F f \<noteq> Some c"
  shows "recv_on (bus_socket E F) c w = recv_on (bus_socket E F) c (w\<lparr>wd_queue := q\<rparr>)"
proof -
  have read: "sk_read (bus_socket E F) w = (w\<lparr>wd_queue := q\<rparr>, Inr f)" "sk_frames (bus_socket E F) = F"
    using assms(1) by (simp_all add: bus_socket_def bus_read_def)
  consider "\<not> fr_is_data F f \<or> frame_cob_id F f = None"
    | c' where "fr_is_data F f" "frame_cob_id F f = Some c'" "c' \<noteq> c"
    using assms(2) by (cases "frame_cob_id F f") auto
  then show ?thesis
  proof cases
    case 1
    then have "recv (bus_socket E F) w = recv (bus_socket E F) (w\<lparr>wd_queue := q\<rparr>)"
      using read by (subst recv.simps) auto
    then show ?thesis
      by (simp only: recv_on.simps [of _ c w] recv_on.simps [of _ c "w\<lparr>wd_queue := q\<rparr>"])
  next
    case 2
    then have "recv (bus_socket E F) w = Some (w\<lparr>wd_queue := q\<rparr>, Inr (received_new c' (fr_data F f)))"
      using read by (subst recv.simps) simp
    then show ?thesis using 2 by (subst recv_on.simps) simp
  qed
qed

lemma recv_on_quiet:
  assumes "wd_queue w = q @ [g]" and "quiet F c q" and "fr_is_data F g" and "frame_cob_id F g = Some c"
  shows "recv_on (bus_socket E F) c w = Some (w\<lparr>wd_queue := []\<rparr>, Inr (received_new c (fr_data F g)))"
  using assms
proof (induction q arbitrary: w)
  case Nil
  then have "recv (bus_socket E F) w = Some (w\<lparr>wd_queue := []\<rparr>, Inr (received_new c (fr_data F g)))"
    by (subst recv.simps) (simp add: bus_socket_def bus_read_def)
  then show ?case by (subst recv_on.simps) simp
next
  case (Cons f q)
  then show ?case using recv_on_step [of w f "q @ [g]" c] by (simp add: quiet_def)
qed

lemma serve_request:
  assumes "serving E nd" and "length p = 8"
    and "srv_handle (no_od E) (no_bytes E) (nd_od nd) (nd_sdo nd) p = Done (od', srv', Some resp)"
  shows "on_frame E (request_cob_id (nd_id nd)) p nd =
      Done (nd\<lparr>nd_od := od', nd_sdo := srv'\<rparr>, Some (tx_new (response_cob_id (nd_id nd)) resp))"
    and "serving E (nd\<lparr>nd_od := od', nd_sdo := srv'\<rparr>)" and "length resp = 8"
proof -
  have wf: "wf_node E nd" "wf_od (no_od E) (nd_od nd)" "wf_srv (no_bytes E) (nd_sdo nd)"
    "srv_node (nd_sdo nd) = nd_id nd"
    using assms(1) by (simp_all add: serving_def wf_node_def)
  have post: "wf_od (no_od E) od'" "wf_srv (no_bytes E) srv'" "srv_node srv' = nd_id nd" "length resp = 8"
    using srv_handle_safe [OF wf(2,3) assms(2)] assms(3) wf(4) by auto
  then show "length resp = 8" by simp
  show "serving E (nd\<lparr>nd_od := od', nd_sdo := srv'\<rparr>)"
    using assms(1) post wf_node_od(4) [OF wf(1)] by (simp add: serving_def lss_unconfigured_def node_state_def)
  have "copy_at 0 p (zeros 8) = p" using assms(2) by (simp add: copy_at_def)
  then show "on_frame E (request_cob_id (nd_id nd)) p nd =
      Done (nd\<lparr>nd_od := od', nd_sdo := srv'\<rparr>, Some (tx_new (response_cob_id (nd_id nd)) resp))"
    using assms post wf(4) request_cob_id_cases [of "nd_id nd"]
    by (simp add: on_frame_def on_sdo_def serving_def node_state_def srv_request_cob_id_def
        srv_response_cob_id_def)
qed

text \<open>One exchange: a request written to the bus and the answer read back.\<close>

lemma exchange:
  assumes "serving E (wd_node w)" and "length p = 8"
    and "srv_handle (no_od E) (no_bytes E) (nd_od (wd_node w)) (nd_sdo (wd_node w)) p =
      Done (od', srv', Some resp)"
    and "quiet F (response_cob_id (nd_id (wd_node w))) (wd_queue w)"
    and "\<forall>fs \<in> set (wd_noise w). quiet F (response_cob_id (nd_id (wd_node w))) fs"
  shows "\<exists>w1 w2. send_frame (bus_socket E F) (request_cob_id (nd_id (wd_node w))) p w = (w1, Inr ()) \<and>
    recv_on (bus_socket E F) (response_cob_id (nd_id (wd_node w))) w1 =
      Some (w2, Inr (received_new (response_cob_id (nd_id (wd_node w))) resp)) \<and>
    wd_node w2 = (wd_node w)\<lparr>nd_od := od', nd_sdo := srv'\<rparr> \<and> wd_queue w2 = [] \<and>
    set (wd_noise w2) \<subseteq> set (wd_noise w)"
proof -
  let ?nd = "wd_node w" and ?c = "response_cob_id (nd_id (wd_node w))"
  note s = serve_request [OF assms(1-3)]
  have dev: "device_id (nd_id ?nd)" using assms(1) by (simp add: serving_def)
  note ids = request_cob_id_cases [OF dev]
  obtain f where f: "frame_from F (request_cob_id (nd_id ?nd)) p = Some f"
    "frame_cob_id F f = Some (request_cob_id (nd_id ?nd))" "fr_data F f = p"
    using frame_from_ok [OF ids(3), of p] assms(2) by auto
  obtain g where g: "frame_from F ?c resp = Some g" "frame_cob_id F g = Some ?c" "fr_data F g = resp"
    "fr_is_data F g"
    using frame_from_ok [OF ids(4), of resp] s(3) by auto
  define w1 where "w1 = w\<lparr>wd_node := ?nd\<lparr>nd_od := od', nd_sdo := srv'\<rparr>, wd_noise := drop 1 (wd_noise w),
      wd_queue := wd_queue w @ concat (take 1 (wd_noise w)) @ [g]\<rparr>"
  have "send_frame (bus_socket E F) (request_cob_id (nd_id ?nd)) p w = (w1, Inr ())"
    using f g s by (simp add: send_frame_def bus_socket_def bus_write_def w1_def)
  moreover have "quiet F ?c (wd_queue w @ concat (take 1 (wd_noise w)))"
    using assms(4,5) by (cases "wd_noise w") (auto simp: quiet_def)
  then have "recv_on (bus_socket E F) ?c w1 =
      Some (w1\<lparr>wd_queue := []\<rparr>, Inr (received_new ?c (fr_data F g)))"
    using g by (intro recv_on_quiet) (auto simp: w1_def)
  moreover have "set (wd_noise (w1\<lparr>wd_queue := []\<rparr>)) \<subseteq> set (wd_noise w)"
    using set_drop_subset [of 1 "wd_noise w"] by (simp add: w1_def)
  ultimately show ?thesis
    using g(3) by (intro exI [of _ w1] exI [of _ "w1\<lparr>wd_queue := []\<rparr>"]) (simp add: w1_def)
qed

end

section \<open>Whole transactions\<close>

text \<open>What a transaction returns for the event that ends the loop of client and server.\<close>

fun outcome :: "(od_value option \<Rightarrow> 'e sdo_error + 'x) \<Rightarrow> sdo_event \<Rightarrow> 'e sdo_error + 'x" where
  "outcome finish (Complete v) = finish v"
| "outcome finish (Aborted code) = Inl (SdoAborted code)"
| "outcome finish (Send p) = Inl NoValue"

text \<open>
  What a transaction relies on: a socket whose other end is a node (\<open>dev s\<close>) that serves SDO. In a state
  that is \<open>ready\<close> a request is sent and its answer received, and the link is \<open>idle\<close> again.
\<close>

locale sdo_link = sdo_env M N B
  for M :: "'m od_ops" and N :: nat and B :: "('b, u8) vec_ops" +
  fixes K :: "('s, 'f, 'e) can_socket" and dev :: "'s \<Rightarrow> ('m, 'b, 'r, 't, 'h) node"
    and ready :: "'s \<Rightarrow> bool" and idle :: "'s \<Rightarrow> bool"
  assumes ready_wf: "ready s \<Longrightarrow> wf_od M (nd_od (dev s))"
    and idle_ready: "idle s \<Longrightarrow> ready s"
    and link_exchange: "ready s \<Longrightarrow> length p = 8 \<Longrightarrow>
      srv_handle M B (nd_od (dev s)) (nd_sdo (dev s)) p = Done (od', srv', Some resp) \<Longrightarrow>
      length resp = 8 \<and>
      (\<exists>s1 s2. send_frame K (request_cob_id (nd_id (dev s))) p s = (s1, Inr ()) \<and>
        recv_on K (response_cob_id (nd_id (dev s))) s1 =
          Some (s2, Inr (received_new (response_cob_id (nd_id (dev s))) resp)) \<and>
        dev s2 = (dev s)\<lparr>nd_od := od', nd_sdo := srv'\<rparr> \<and> idle s2)"
begin

lemma transaction_loop:
  assumes "sdo_loop fuel M B (nd_od (dev s)) (nd_sdo (dev s)) cl p = Some (Done (od', srv', cl', ev))"
    and "ready s" and "wf_client cl" and "cl_node cl = nd_id (dev s)" and "length p = 8"
  shows "\<exists>s'. transaction K B finish cl p s = Some (Done (s', outcome finish ev)) \<and>
    dev s' = (dev s)\<lparr>nd_od := od', nd_sdo := srv'\<rparr> \<and> idle s'"
  using assms
proof (induction fuel arbitrary: s cl p)
  case 0
  then show ?case by simp
next
  case (Suc fuel)
  let ?c = "response_cob_id (nd_id (dev s))"
  obtain od1 srv1 resp where h: "srv_handle M B (nd_od (dev s)) (nd_sdo (dev s)) p =
      Done (od1, srv1, Some resp)"
    using Suc.prems(1) by (auto split: run.splits prod.splits option.splits)
  obtain cl1 ev1 where c: "on_response B cl resp = Done (cl1, ev1)"
    using Suc.prems(1) by (auto simp: h split: run.splits prod.splits)
  have post: "wf_client cl1" "cl_node cl1 = cl_node cl"
    "case ev1 of Send p \<Rightarrow> length p = 8 | _ \<Rightarrow> True"
    using on_response_post [OF Suc.prems(3), of B resp] c
    by (auto simp: client_post_def split: sdo_event.splits)
  obtain s1 s2 where x: "send_frame K (request_cob_id (nd_id (dev s))) p s = (s1, Inr ())"
    "recv_on K ?c s1 = Some (s2, Inr (received_new ?c resp))"
    "dev s2 = (dev s)\<lparr>nd_od := od1, nd_sdo := srv1\<rparr>" "idle s2" "length resp = 8"
    using link_exchange [OF Suc.prems(2,5) h] by blast
  have step: "transaction K B finish cl p s =
      (case ev1 of
         Send nxt \<Rightarrow> transaction K B finish cl1 nxt s2
       | Complete v \<Rightarrow> Some (Done (s2, finish v))
       | Aborted code \<Rightarrow> Some (Done (s2, Inl (SdoAborted code))))"
    using x(1,2) c received_new_8 [OF x(5), of ?c] Suc.prems(4)
    by (subst transaction.simps) (simp add: cl_request_cob_id_def cl_response_cob_id_def)
  show ?case
  proof (cases ev1)
    case (Send nxt)
    have "sdo_loop fuel M B (nd_od (dev s2)) (nd_sdo (dev s2)) cl1 nxt = Some (Done (od', srv', cl', ev))"
      using Suc.prems(1) by (simp add: h c Send x(3))
    then obtain s' where "transaction K B finish cl1 nxt s2 = Some (Done (s', outcome finish ev))"
      "dev s' = (dev s2)\<lparr>nd_od := od', nd_sdo := srv'\<rparr>" "idle s'"
      using Suc.IH [of s2 cl1 nxt] idle_ready [OF x(4)] post Suc.prems(4) x(3) by (auto simp: Send)
    then show ?thesis using step x(3) by (simp add: Send)
  next
    case (Complete v)
    then show ?thesis using Suc.prems(1) step x(3,4) by (auto simp: h c)
  next
    case (Aborted code)
    then show ?thesis using Suc.prems(1) step x(3,4) by (auto simp: h c)
  qed
qed

lemma link_read:
  assumes "ready s"
  shows "\<exists>s' srv'. sdo_read K B (nd_id (dev s)) a dt s =
      Some (Done (s', outcome (\<lambda>v. case v of Some x \<Rightarrow> Inr x | None \<Rightarrow> Inl NoValue)
        (read_result M (nd_od (dev s)) a dt))) \<and>
    dev s' = (dev s)\<lparr>nd_sdo := srv'\<rparr> \<and> idle s'"
proof -
  obtain cl :: "'b sdo_client" and p where cl: "client_read (sdo_client_new (nd_id (dev s))) a dt = (cl, p)" by fastforce
  have ok: "wf_client cl" "cl_node cl = nd_id (dev s)" "length p = 8"
    using cl by (auto simp: client_read_def sdo_client_new_def wf_client_def frame_simps)
  obtain srv' cl' where "sdo_loop 6 M B (nd_od (dev s)) (nd_sdo (dev s)) cl p =
      Some (Done (nd_od (dev s), srv', cl', read_result M (nd_od (dev s)) a dt))"
    using read_session [OF ready_wf [OF assms], of 6 "nd_sdo (dev s)" "sdo_client_new (nd_id (dev s))" a dt]
    by (auto simp: sdo_read_session_def cl)
  from transaction_loop [OF this assms ok, of "\<lambda>v. case v of Some x \<Rightarrow> Inr x | None \<Rightarrow> Inl NoValue"]
  show ?thesis by (auto simp: sdo_read_def cl)
qed

lemma link_write:
  assumes "ready s" and "wf_value v"
  shows "\<exists>s' srv'. sdo_write K B (nd_id (dev s)) a v s =
      Some (Done (s', outcome (\<lambda>_. Inr ()) (snd (write_result M (nd_od (dev s)) a (encode_payload v))))) \<and>
    dev s' = (dev s)\<lparr>nd_od := fst (write_result M (nd_od (dev s)) a (encode_payload v)), nd_sdo := srv'\<rparr> \<and>
    idle s'"
proof -
  obtain cl :: "'b sdo_client" and p where cl: "client_write (sdo_client_new (nd_id (dev s))) a v = Done (cl, p)"
    "wf_client cl" "cl_node cl = nd_id (dev s)" "length p = 8"
    using client_write_post [OF assms(2), of "sdo_client_new (nd_id (dev s))" a]
    by (auto simp: sdo_client_new_def)
  obtain srv' cl' where "sdo_loop 6 M B (nd_od (dev s)) (nd_sdo (dev s)) cl p =
      Some (Done (fst (write_result M (nd_od (dev s)) a (encode_payload v)), srv', cl',
        snd (write_result M (nd_od (dev s)) a (encode_payload v))))"
    using write_session [OF assms(2), of 6 "nd_od (dev s)" "nd_sdo (dev s)" "sdo_client_new (nd_id (dev s))" a]
    by (auto simp: sdo_write_session_def cl)
  from transaction_loop [OF this assms(1) cl(2-4), of "\<lambda>_. Inr ()"]
  show ?thesis by (auto simp: sdo_write_def cl)
qed

text \<open>Reads and writes of objects that are there.\<close>

lemma link_read_ok:
  assumes "ready s" and "od_read M (nd_od (dev s)) a = Inr v"
  shows "\<exists>s' srv'. sdo_read K B (nd_id (dev s)) a (data_type_of v) s = Some (Done (s', Inr v)) \<and>
    dev s' = (dev s)\<lparr>nd_sdo := srv'\<rparr> \<and> idle s'"
proof -
  obtain e where e: "lm_get M (nd_od (dev s)) a = Some e" "is_readable (e_access e)" "e_value e = v"
    using assms(2) by (auto simp: od_read_def split: option.splits if_splits)
  then have "wf_value v" using ready_wf [OF assms(1)] by (auto simp: wf_od_def)
  then have "read_result M (nd_od (dev s)) a (data_type_of v) = Complete (Some v)"
    using e by (simp add: read_result_def read_event_def decode_le_encode_payload)
  then show ?thesis using link_read [OF assms(1), of a "data_type_of v"] by simp
qed

lemma link_write_ok:
  assumes "ready s" and "wf_value v" and "lm_get M (nd_od (dev s)) a = Some e"
    and "is_writable (e_access e)" and "data_type_of (e_value e) = data_type_of v"
  shows "\<exists>s' od' srv'. sdo_write K B (nd_id (dev s)) a v s = Some (Done (s', Inr ())) \<and>
    dev s' = (dev s)\<lparr>nd_od := od', nd_sdo := srv'\<rparr> \<and>
    lm_get M od' = (lm_get M (nd_od (dev s)))(a \<mapsto> e\<lparr>e_value := v\<rparr>) \<and> idle s'"
proof -
  have "write_result M (nd_od (dev s)) a (encode_payload v) =
      (lm_put M (nd_od (dev s)) a (e\<lparr>e_value := v\<rparr>), Complete None)"
    using assms(2-5) by (simp add: write_result_def decode_le_encode_payload)
  then show ?thesis
    using link_write [OF assms(1,2), of a] get_put_Some [OF assms(3), of "e\<lparr>e_value := v\<rparr>"] by auto
qed

end

text \<open>The bus of a device is such a link.\<close>

definition bus_ready :: "('m, 'b, 'p, 'r, 't, 'h, 'v) node_ops \<Rightarrow> 'f frame_ops \<Rightarrow>
    (('m, 'b, 'r, 't, 'h) node, 'f) bus_world \<Rightarrow> bool" where
  "bus_ready E F w \<longleftrightarrow> serving E (wd_node w) \<and> quiet F (response_cob_id (nd_id (wd_node w))) (wd_queue w) \<and>
     (\<forall>fs \<in> set (wd_noise w). quiet F (response_cob_id (nd_id (wd_node w))) fs)"

definition bus_idle :: "('m, 'b, 'p, 'r, 't, 'h, 'v) node_ops \<Rightarrow> 'f frame_ops \<Rightarrow>
    (('m, 'b, 'r, 't, 'h) node, 'f) bus_world \<Rightarrow> bool" where
  "bus_idle E F w \<longleftrightarrow> bus_ready E F w \<and> wd_queue w = []"

sublocale device_bus \<subseteq> bus_link: sdo_link "no_od E" N "no_bytes E" "bus_socket E F" wd_node
  "bus_ready E F" "bus_idle E F"
proof
  show "wf_od (no_od E) (nd_od (wd_node w))" if "bus_ready E F w" for w
    using that by (simp add: bus_ready_def serving_def wf_node_def)
  show "bus_ready E F w" if "bus_idle E F w" for w using that by (simp add: bus_idle_def)
  show "length resp = 8 \<and>
      (\<exists>s1 s2. send_frame (bus_socket E F) (request_cob_id (nd_id (wd_node w))) p w = (s1, Inr ()) \<and>
        recv_on (bus_socket E F) (response_cob_id (nd_id (wd_node w))) s1 =
          Some (s2, Inr (received_new (response_cob_id (nd_id (wd_node w))) resp)) \<and>
        wd_node s2 = (wd_node w)\<lparr>nd_od := od', nd_sdo := srv'\<rparr> \<and> bus_idle E F s2)"
    if w: "bus_ready E F w" and p: "length p = 8"
      and h: "srv_handle (no_od E) (no_bytes E) (nd_od (wd_node w)) (nd_sdo (wd_node w)) p = Done (od', srv', Some resp)"
    for w p od' srv' resp
  proof -
    have w': "serving E (wd_node w)" "quiet F (response_cob_id (nd_id (wd_node w))) (wd_queue w)"
      "\<forall>fs \<in> set (wd_noise w). quiet F (response_cob_id (nd_id (wd_node w))) fs"
      using w by (simp_all add: bus_ready_def)
    obtain w1 w2 where x: "send_frame (bus_socket E F) (request_cob_id (nd_id (wd_node w))) p w = (w1, Inr ())"
      "recv_on (bus_socket E F) (response_cob_id (nd_id (wd_node w))) w1 =
        Some (w2, Inr (received_new (response_cob_id (nd_id (wd_node w))) resp))"
      "wd_node w2 = (wd_node w)\<lparr>nd_od := od', nd_sdo := srv'\<rparr>" "wd_queue w2 = []"
      "set (wd_noise w2) \<subseteq> set (wd_noise w)"
      using exchange [OF w'(1) p h w'(2,3)] by blast
    have "bus_idle E F w2"
      using x(3-5) w'(3) serve_request(2) [OF w'(1) p h] by (auto simp: bus_idle_def bus_ready_def quiet_def)
    then show ?thesis using x(1-3) serve_request(3) [OF w'(1) p h] by blast
  qed
qed

context device_bus
begin

lemma bus_read_result:
  assumes "serving E (wd_node w)"
    and "quiet F (response_cob_id (nd_id (wd_node w))) (wd_queue w)"
    and "\<forall>fs \<in> set (wd_noise w). quiet F (response_cob_id (nd_id (wd_node w))) fs"
  shows "\<exists>w'. sdo_read (bus_socket E F) (no_bytes E) (nd_id (wd_node w)) a dt w =
      Some (Done (w', outcome (\<lambda>v. case v of Some x \<Rightarrow> Inr x | None \<Rightarrow> Inl NoValue)
        (read_result (no_od E) (nd_od (wd_node w)) a dt))) \<and>
    nd_od (wd_node w') = nd_od (wd_node w) \<and> wd_queue w' = []"
proof -
  have "bus_ready E F w" using assms by (simp add: bus_ready_def)
  from bus_link.link_read [OF this, of a dt] show ?thesis by (auto simp: bus_idle_def)
qed

lemma bus_write_result:
  assumes "serving E (wd_node w)" and "wf_value v"
    and "quiet F (response_cob_id (nd_id (wd_node w))) (wd_queue w)"
    and "\<forall>fs \<in> set (wd_noise w). quiet F (response_cob_id (nd_id (wd_node w))) fs"
  shows "\<exists>w'. sdo_write (bus_socket E F) (no_bytes E) (nd_id (wd_node w)) a v w =
      Some (Done (w', outcome (\<lambda>_. Inr ())
        (snd (write_result (no_od E) (nd_od (wd_node w)) a (encode_payload v))))) \<and>
    nd_od (wd_node w') = fst (write_result (no_od E) (nd_od (wd_node w)) a (encode_payload v)) \<and>
    wd_queue w' = []"
proof -
  have "bus_ready E F w" using assms by (simp add: bus_ready_def)
  from bus_link.link_write [OF this assms(2), of a] show ?thesis by (auto simp: bus_idle_def)
qed

end

section \<open>Properties\<close>

record example_frame =
  xf_id :: can_id
  xf_data :: "u8 list"
  xf_is_data :: bool

definition example_frames :: "example_frame frame_ops" where
  "example_frames = \<lparr>
     fr_standard_id = (\<lambda>c. if c \<le> 0x7FF then Some c else None),
     fr_new = (\<lambda>i d. if length d \<le> 8 then Some \<lparr>xf_id = i, xf_data = d, xf_is_data = True\<rparr> else None),
     fr_id = xf_id, fr_data = xf_data, fr_is_data = xf_is_data\<rparr>"

interpretation plain_frames: can_frames example_frames
  by unfold_locales (auto simp: example_frames_def split: if_splits)

interpretation list_bus: device_bus "list_node_ops N" N example_frames for N
  unfolding device_bus_def
  by (intro conjI list_node.node_env_axioms plain_frames.can_frames_axioms)

text \<open>C4: A host that reads an object of a device over the bus gets the device's answer. Whatever other
  traffic arrives in between (remote frames, extended identifiers, other channels), the call returns,
  never panics and leaves the dictionary as it was; it returns the stored value when the object is
  readable and of the requested type, and the abort code of the reason otherwise.\<close>

theorem transport_sdo_read:
  assumes "device_bus E N F" and "serving E (wd_node w)"
    and "quiet F (response_cob_id (nd_id (wd_node w))) (wd_queue w)"
    and "\<forall>fs \<in> set (wd_noise w). quiet F (response_cob_id (nd_id (wd_node w))) fs"
  shows "\<exists>w' r. sdo_read (bus_socket E F) (no_bytes E) (nd_id (wd_node w)) a dt w = Some (Done (w', r)) \<and>
    nd_od (wd_node w') = nd_od (wd_node w) \<and> wd_queue w' = [] \<and>
    r = (case lm_get (no_od E) (nd_od (wd_node w)) a of
           None \<Rightarrow> Inl (SdoAborted (abort_code ObjectDoesNotExist))
         | Some e \<Rightarrow>
             if \<not> is_readable (e_access e) then Inl (SdoAborted (abort_code ReadOfWriteOnly))
             else (case decode_le dt (encode_payload (e_value e)) of
                     Inr v \<Rightarrow> Inr v | Inl _ \<Rightarrow> Inl (SdoAborted ABORT_GENERAL))) \<and>
    (\<forall>v. od_read (no_od E) (nd_od (wd_node w)) a = Inr v \<and> data_type_of v = dt \<longrightarrow> r = Inr v)"
proof -
  have wf: "wf_od (no_od E) (nd_od (wd_node w))" using assms(2) by (simp add: serving_def wf_node_def)
  from device_bus.bus_read_result [OF assms, of a dt] obtain w' where
    "sdo_read (bus_socket E F) (no_bytes E) (nd_id (wd_node w)) a dt w =
      Some (Done (w', outcome (\<lambda>v. case v of Some x \<Rightarrow> Inr x | None \<Rightarrow> Inl NoValue)
        (read_result (no_od E) (nd_od (wd_node w)) a dt)))"
    "nd_od (wd_node w') = nd_od (wd_node w)" "wd_queue w' = []" by blast
  then show ?thesis
    using wf by (fastforce simp: read_result_def read_event_def od_read_def wf_od_def
        decode_le_encode_payload split: option.splits sum.splits if_splits)
qed

definition example_bus ::
  "(((address \<times> entry) list, u8 list, mapping_entry list rpdo_slot list,
    mapping_entry list tpdo_slot list, u32 list) node, example_frame) bus_world" where
  "example_bus = \<lparr>wd_node = (node_new (list_node_ops 4) (NodeId 0x10) example_od)\<lparr>nd_nmt := \<lparr>sm_state = PreOperational\<rparr>\<rparr>,
     wd_queue = [\<lparr>xf_id = Standard 0x705, xf_data = [5], xf_is_data = True\<rparr>],
     wd_noise = [[\<lparr>xf_id = Extended 0x590, xf_data = [1], xf_is_data = True\<rparr>,
                  \<lparr>xf_id = Standard 0x590, xf_data = [], xf_is_data = False\<rparr>]]\<rparr>"

lemma example_bus_serves:
  "serving (list_node_ops 4) (wd_node example_bus)"
  "quiet example_frames (response_cob_id (nd_id (wd_node example_bus))) (wd_queue example_bus)"
  "\<forall>fs \<in> set (wd_noise example_bus).
     quiet example_frames (response_cob_id (nd_id (wd_node example_bus))) fs"
proof -
  have "wf_node (list_node_ops 4) (node_new (list_node_ops 4) (NodeId 0x10) example_od)"
    by (rule list_node.wf_node_new) (simp add: example_od_wf)
  then show "serving (list_node_ops 4) (wd_node example_bus)"
    by (simp add: serving_def example_bus_def wf_node_od(2) device_id_def lss_unconfigured_def node_state_def)
      (simp add: node_new_def)
  show "quiet example_frames (response_cob_id (nd_id (wd_node example_bus))) (wd_queue example_bus)"
    "\<forall>fs \<in> set (wd_noise example_bus).
      quiet example_frames (response_cob_id (nd_id (wd_node example_bus))) fs"
    by (simp_all add: example_bus_def quiet_def example_frames_def frame_cob_id_def node_new_def
        response_cob_id_def)
qed

theorem transport_sdo_read_witness:
  "\<exists>w'. sdo_read (bus_socket (list_node_ops 4) example_frames) (list_ops MAX_STRING_LEN) (NodeId 0x10)
      (Address 0x1018 4) DT_Unsigned64 example_bus = Some (Done (w', Inr (Unsigned64 0x1122334455667788)))"
  using transport_sdo_read [OF list_bus.device_bus_axioms example_bus_serves, of "Address 0x1018 4" DT_Unsigned64]
  by (auto simp: example_bus_def node_new_def od_read_def example_od_def)

text \<open>C5: A host that writes an object of a device over the bus changes exactly that object. Whatever
  other traffic arrives in between, the call returns without a panic: with success, and then the
  device's dictionary holds the value, or with the abort code of the reason and no change.\<close>

theorem transport_sdo_write:
  assumes "device_bus E N F" and "serving E (wd_node w)" and "wf_value v"
    and "quiet F (response_cob_id (nd_id (wd_node w))) (wd_queue w)"
    and "\<forall>fs \<in> set (wd_noise w). quiet F (response_cob_id (nd_id (wd_node w))) fs"
  shows "\<exists>w' r. sdo_write (bus_socket E F) (no_bytes E) (nd_id (wd_node w)) a v w = Some (Done (w', r)) \<and>
    wd_queue w' = [] \<and>
    (case lm_get (no_od E) (nd_od (wd_node w)) a of
       None \<Rightarrow> r = Inl (SdoAborted (abort_code ObjectDoesNotExist)) \<and> nd_od (wd_node w') = nd_od (wd_node w)
     | Some e \<Rightarrow>
         if \<not> is_writable (e_access e)
         then r = Inl (SdoAborted (abort_code WriteOfReadOnly)) \<and> nd_od (wd_node w') = nd_od (wd_node w)
         else (case decode_le (data_type_of (e_value e)) (encode_payload v) of
                 Inl _ \<Rightarrow> r = Inl (SdoAborted (abort_code DataTypeMismatchLengthHigh)) \<and>
                   nd_od (wd_node w') = nd_od (wd_node w)
               | Inr x \<Rightarrow> r = Inr () \<and> lm_get (no_od E) (nd_od (wd_node w')) =
                   (lm_get (no_od E) (nd_od (wd_node w)))(a \<mapsto> e\<lparr>e_value := x\<rparr>)))"
proof -
  have map: "linear_map (no_od E) N"
    using assms(1) by (simp add: device_bus_def node_env_def sdo_env_def object_map_def)
  from device_bus.bus_write_result [OF assms, of a] obtain w' where
    "sdo_write (bus_socket E F) (no_bytes E) (nd_id (wd_node w)) a v w =
      Some (Done (w', outcome (\<lambda>_. Inr ())
        (snd (write_result (no_od E) (nd_od (wd_node w)) a (encode_payload v)))))"
    "nd_od (wd_node w') = fst (write_result (no_od E) (nd_od (wd_node w)) a (encode_payload v))"
    "wd_queue w' = []" by blast
  then show ?thesis
    using linear_map.get_put_Some [OF map]
    by (auto simp: write_result_def split: option.splits sum.splits)
qed

theorem transport_sdo_write_witness:
  "\<exists>w'. sdo_write (bus_socket (list_node_ops 4) example_frames) (list_ops MAX_STRING_LEN) (NodeId 0x10)
      (Address 0x1017 0) (Unsigned16 500) example_bus = Some (Done (w', Inr ())) \<and>
    lm_get (assoc_ops 4) (nd_od (wd_node w')) (Address 0x1017 0) = Some (entry_rw (Unsigned16 500))"
proof -
  have get: "map_of (nd_od (wd_node example_bus)) (Address 0x1017 0) = Some (entry_rw (Unsigned16 1000))"
    by (simp add: example_bus_def node_new_def example_od_def)
  have dec: "decode_le DT_Unsigned16 (encode_payload (Unsigned16 500)) = Inr (Unsigned16 500)"
    using decode_le_encode_payload [of "Unsigned16 500"] by (simp del: encode_payload.simps)
  have nd: "nd_id (wd_node example_bus) = NodeId 0x10" by (simp add: example_bus_def node_new_def)
  from transport_sdo_write [OF list_bus.device_bus_axioms example_bus_serves(1) _ example_bus_serves(2,3),
      of "Unsigned16 500" "Address 0x1017 0"]
  show ?thesis by (auto simp: get dec nd is_writable_def entry_rw_def simp del: encode_payload.simps)
qed

end
