(* ===== verification/Cli.thy ===== *)
theory Cli
  imports Eds_Roundtrip Transport
begin

text \<open>
  \<^verbatim>\<open>cli/src/main.rs\<close>: the parsers of the command line arguments, the classifier of the monitor, and the
  bus commands on an open socket. An error is its top-level message (the context that \<^verbatim>\<open>anyhow\<close> adds);
  opening the interface and printing are in Cli_Output.
\<close>

section \<open>Arguments\<close>

text \<open>\<open>trim_start_matches p s\<close> drops \<open>p\<close> from the front of \<open>s\<close> as often as it is there.\<close>

lemma strip_prefix_length: "strip_prefix p s = Some r \<Longrightarrow> length s = length p + length r"
proof -
  assume r: "strip_prefix p s = Some r"
  then have s: "take (length p) s = p" "r = drop (length p) s"
    by (simp_all add: strip_prefix_def split: if_splits)
  have "length (take (length p) s) = length p" unfolding s(1) ..
  then show ?thesis by (simp add: s(2))
qed

function trim_start_matches :: "rstr \<Rightarrow> rstr \<Rightarrow> rstr" where
  "trim_start_matches p s =
     (case strip_prefix p s of
        None \<Rightarrow> s
      | Some r \<Rightarrow> if p = [] then s else trim_start_matches p r)"
  by pat_completeness auto
termination
  by (relation "measure (\<lambda>(p, s). length s)") (auto dest: strip_prefix_length)

declare trim_start_matches.simps [simp del]

definition quoted :: "rstr \<Rightarrow> rstr" where
  "quoted s = [39] @ s @ [39]"

definition parse_object :: "rstr \<Rightarrow> rstr + address" where
  "parse_object s =
     (let (idx, sub) = (case split_once (lit '':'') s of Some p \<Rightarrow> p | None \<Rightarrow> (s, lit ''0'')) in
      case u16_from_str_radix 16 (trim_start_matches (lit ''0x'') idx) of
        None \<Rightarrow> Inl (lit ''invalid object index '' @ quoted idx @ lit '' (expected hex)'')
      | Some i \<Rightarrow>
          (case u8_from_str_radix 16 (trim_start_matches (lit ''0x'') sub) of
             None \<Rightarrow> Inl (lit ''invalid subindex '' @ quoted sub @ lit '' (expected hex)'')
           | Some j \<Rightarrow> Inr (Address i j)))"

definition parse_datatype :: "rstr \<Rightarrow> rstr + data_type" where
  "parse_datatype s =
     (let t = ascii_lower s in
      if t = lit ''u8'' then Inr DT_Unsigned8
      else if t = lit ''u16'' then Inr DT_Unsigned16
      else if t = lit ''u32'' then Inr DT_Unsigned32
      else if t = lit ''u64'' then Inr DT_Unsigned64
      else if t = lit ''i8'' then Inr DT_Integer8
      else if t = lit ''i16'' then Inr DT_Integer16
      else if t = lit ''i32'' then Inr DT_Integer32
      else if t = lit ''i64'' then Inr DT_Integer64
      else if t = lit ''f32'' then Inr DT_Real32
      else if t = lit ''f64'' then Inr DT_Real64
      else if t = lit ''bool'' then Inr DT_Boolean
      else Inl (lit ''unknown data type '' @ quoted t @
        lit '' (use u8|u16|u32|u64|i8|i16|i32|i64|f32|f64|bool)''))"

definition parse_int :: "rstr \<Rightarrow> rstr + int" where
  "parse_int s0 =
     (let s = trim s0 in
      case (case strip_prefix (lit ''0x'') s of None \<Rightarrow> strip_prefix (lit ''0X'') s | h \<Rightarrow> h) of
        Some hex \<Rightarrow>
          (case i128_from_str_radix 16 hex of
             Some n \<Rightarrow> Inr n | None \<Rightarrow> Inl (lit ''invalid hex '' @ quoted s))
      | None \<Rightarrow>
          (case i128_from_str_radix 10 s of
             Some n \<Rightarrow> Inr n | None \<Rightarrow> Inl (lit ''invalid integer '' @ quoted s)))"

definition parse_value :: "float_parser \<Rightarrow> data_type \<Rightarrow> rstr \<Rightarrow> rstr + od_value" where
  "parse_value FP dt v =
     (if dt = DT_Boolean then
        Inr (Boolean (let t = ascii_lower (trim v) in t = lit ''true'' \<or> t = lit ''1''))
      else if dt = DT_Real32 then
        (case parse_f32 FP (trim v) of Some x \<Rightarrow> Inr (Real32 x) | None \<Rightarrow> Inl (lit ''invalid f32''))
      else if dt = DT_Real64 then
        (case parse_f64 FP (trim v) of Some x \<Rightarrow> Inr (Real64 x) | None \<Rightarrow> Inl (lit ''invalid f64''))
      else if is_variable dt then Inl (lit ''unsupported data type for writing'')
      else
        (case parse_int v of
           Inl e \<Rightarrow> Inl e
         | Inr n \<Rightarrow>
             (case int_value dt n of
                Some x \<Rightarrow> Inr x | None \<Rightarrow> Inl (lit ''unsupported data type for writing''))))"

definition parse_nmt_command :: "rstr \<Rightarrow> rstr + nmt_command" where
  "parse_nmt_command s =
     (let t = ascii_lower s in
      if t = lit ''start'' then Inr StartRemoteNode
      else if t = lit ''stop'' then Inr StopRemoteNode
      else if t \<in> {lit ''preop'', lit ''pre-op'', lit ''pre-operational''} then Inr EnterPreOperational
      else if t \<in> {lit ''reset'', lit ''reset-node''} then Inr ResetNode
      else if t \<in> {lit ''reset-comm'', lit ''reset-communication''} then Inr ResetCommunication
      else Inl (lit ''unknown NMT command '' @ quoted t @ lit '' (use start|stop|preop|reset|reset-comm)''))"

definition cli_node_id :: "u8 \<Rightarrow> rstr + node_id" where
  "cli_node_id node =
     (case node_id_new node of
        Inr n \<Rightarrow> Inr n
      | Inl _ \<Rightarrow> Inl (lit ''node id '' @ show_int (uint node) @ lit '' out of range (1..=127)''))"

text \<open>A short label for the function of a COB-ID; the first matching arm counts.\<close>

definition classify :: "u16 \<Rightarrow> string" where
  "classify c =
     (if c = 0x000 then ''NMT''
      else if c = 0x080 then ''SYNC''
      else if 0x081 \<le> c \<and> c \<le> 0x0FF then ''EMCY''
      else if c = 0x100 then ''TIME''
      else if 0x180 \<le> c \<and> c \<le> 0x57F then ''PDO''
      else if 0x580 \<le> c \<and> c \<le> 0x5FF then ''SDO tx''
      else if 0x600 \<le> c \<and> c \<le> 0x67F then ''SDO rx''
      else if 0x700 \<le> c \<and> c \<le> 0x77F then ''heartbeat''
      else if c = 0x7E4 \<or> c = 0x7E5 then ''LSS''
      else '''')"

section \<open>Bus commands\<close>

text \<open>
  The commands on an open socket, with the text of an I/O error as an argument; a \<open>?\<close> on an argument
  that does not parse ends the command before anything is sent.
\<close>

definition cli_read ::
  "('s, 'f, 'e) can_socket \<Rightarrow> ('b, u8) vec_ops \<Rightarrow> ('e io_error \<Rightarrow> rstr) \<Rightarrow> u8 \<Rightarrow> rstr \<Rightarrow> rstr \<Rightarrow> 's \<Rightarrow>
   ('s \<times> (rstr + od_value)) run option" where
  "cli_read K B io node obj dt s =
     (case cli_node_id node of
        Inl e \<Rightarrow> Some (Done (s, Inl e))
      | Inr n \<Rightarrow>
     (case parse_object obj of
        Inl e \<Rightarrow> Some (Done (s, Inl e))
      | Inr a \<Rightarrow>
     (case parse_datatype dt of
        Inl e \<Rightarrow> Some (Done (s, Inl e))
      | Inr ty \<Rightarrow>
          map_option (run_map (map_prod id (map_sum
              (\<lambda>e. lit ''SDO read failed: '' @ sdo_error_text io e) id)))
            (sdo_read K B n a ty s))))"

definition cli_write ::
  "('s, 'f, 'e) can_socket \<Rightarrow> ('b, u8) vec_ops \<Rightarrow> float_parser \<Rightarrow> ('e io_error \<Rightarrow> rstr) \<Rightarrow> u8 \<Rightarrow> rstr \<Rightarrow>
   rstr \<Rightarrow> rstr \<Rightarrow> 's \<Rightarrow> ('s \<times> (rstr + unit)) run option" where
  "cli_write K B FP io node obj dt v s =
     (case parse_datatype dt of
        Inl e \<Rightarrow> Some (Done (s, Inl e))
      | Inr ty \<Rightarrow>
     (case cli_node_id node of
        Inl e \<Rightarrow> Some (Done (s, Inl e))
      | Inr n \<Rightarrow>
     (case parse_object obj of
        Inl e \<Rightarrow> Some (Done (s, Inl e))
      | Inr a \<Rightarrow>
     (case parse_value FP ty v of
        Inl e \<Rightarrow> Some (Done (s, Inl e))
      | Inr x \<Rightarrow>
          map_option (run_map (map_prod id (map_sum
              (\<lambda>e. lit ''SDO write failed: '' @ sdo_error_text io e) id)))
            (sdo_write K B n a x s)))))"

definition cli_nmt :: "('s, 'f, 'e) can_socket \<Rightarrow> ('e io_error \<Rightarrow> rstr) \<Rightarrow> rstr \<Rightarrow> u8 \<Rightarrow> 's \<Rightarrow>
    's \<times> (rstr + unit)" where
  "cli_nmt K io c node s =
     (case (if node = 0 then Inr BROADCAST else cli_node_id node) of
        Inl e \<Rightarrow> (s, Inl e)
      | Inr target \<Rightarrow>
          (case parse_nmt_command c of
             Inl e \<Rightarrow> (s, Inl e)
           | Inr command \<Rightarrow> map_prod id (map_sum io id) (send_nmt K command target s)))"

section \<open>Lemmas\<close>

lemma trim_start_hex: "trim_start_matches (lit ''0x'') (hex_fixed (Suc k) n) = hex_fixed (Suc k) n"
proof -
  have "strip_prefix (lit ''0x'') (hex_fixed (Suc k) n) = None"
  proof (rule ccontr)
    assume "strip_prefix (lit ''0x'') (hex_fixed (Suc k) n) \<noteq> None"
    then have "set (lit ''0x'') \<subseteq> set (hex_fixed (Suc k) n)"
      by (metis option.discI set_take_subset strip_prefix_def)
    then have "120 \<in> set (hex_fixed (Suc k) n)" by (simp add: lit_def)
    then show False using hex_fixed_chars [of 120 "Suc k" n] by simp
  qed
  then show ?thesis by (subst trim_start_matches.simps) simp
qed

lemma trim_start_0x: "trim_start_matches (lit ''0x'') (lit ''0x'' @ hex_fixed (Suc k) n) = hex_fixed (Suc k) n"
  by (subst trim_start_matches.simps) (simp add: trim_start_hex del: hex_fixed.simps)

lemma parse_object_hex:
  "parse_object (hex_fixed 4 (uint (index a)) @ lit '':'' @ hex_fixed 2 (uint (subindex a))) = Inr a"
  "parse_object (lit ''0x'' @ hex_fixed 4 (uint (index a)) @ lit '':'' @ lit ''0x'' @ hex_fixed 2 (uint (subindex a))) =
    Inr a"
  "parse_object (lit ''0x'' @ hex_fixed 4 (uint (index a)) @ lit '':'' @ hex_fixed 2 (uint (subindex a))) = Inr a"
proof -
  have bounds: "uint (index a) < 65536" "uint (subindex a) < 256"
    using unsigned_less [of "index a"] unsigned_less [of "subindex a"] by simp_all
  then have n: "from_str_radix 0 65535 16 (hex_fixed 4 (uint (index a))) = Some (uint (index a))"
    "from_str_radix 0 255 16 (hex_fixed 2 (uint (subindex a))) = Some (uint (subindex a))"
    by (auto intro!: from_str_radix_hex)
  have c: "58 \<notin> set (hex_fixed 4 (uint (index a)))" "58 \<notin> set (lit ''0x'' @ hex_fixed 4 (uint (index a)))"
    by (auto simp: lit_def dest: hex_fixed_chars)
  have t: "trim_start_matches (lit ''0x'') (hex_fixed 4 m) = hex_fixed 4 m"
    "trim_start_matches (lit ''0x'') (hex_fixed 2 m) = hex_fixed 2 m"
    "trim_start_matches (lit ''0x'') (lit ''0x'' @ hex_fixed 4 m) = hex_fixed 4 m"
    "trim_start_matches (lit ''0x'') (lit ''0x'' @ hex_fixed 2 m) = hex_fixed 2 m" for m
    using trim_start_hex [of 3] trim_start_hex [of 1] trim_start_0x [of 3] trim_start_0x [of 1]
    by (simp_all only: numeral_eq_Suc pred_numeral_simps Num.BitM.simps One_nat_def)
  have colon: "lit '':'' = [58]" by (simp add: lit_def)
  show "parse_object (hex_fixed 4 (uint (index a)) @ lit '':'' @ hex_fixed 2 (uint (subindex a))) = Inr a"
    using split_once_char [OF c(1)] n
    by (simp add: parse_object_def colon t u16_from_str_radix_def u8_from_str_radix_def)
  show "parse_object (lit ''0x'' @ hex_fixed 4 (uint (index a)) @ lit '':'' @ lit ''0x'' @ hex_fixed 2 (uint (subindex a))) =
    Inr a"
    using split_once_char [OF c(2), of "lit ''0x'' @ hex_fixed 2 (uint (subindex a))"] n
    by (simp add: parse_object_def colon t u16_from_str_radix_def u8_from_str_radix_def)
  show "parse_object (lit ''0x'' @ hex_fixed 4 (uint (index a)) @ lit '':'' @ hex_fixed 2 (uint (subindex a))) = Inr a"
    using split_once_char [OF c(2), of "hex_fixed 2 (uint (subindex a))"] n
    by (simp add: parse_object_def colon t u16_from_str_radix_def u8_from_str_radix_def)
qed

fun type_name :: "data_type \<Rightarrow> string" where
  "type_name DT_Unsigned8 = ''u8''"
| "type_name DT_Unsigned16 = ''u16''"
| "type_name DT_Unsigned32 = ''u32''"
| "type_name DT_Unsigned64 = ''u64''"
| "type_name DT_Integer8 = ''i8''"
| "type_name DT_Integer16 = ''i16''"
| "type_name DT_Integer32 = ''i32''"
| "type_name DT_Integer64 = ''i64''"
| "type_name DT_Real32 = ''f32''"
| "type_name DT_Real64 = ''f64''"
| "type_name DT_Boolean = ''bool''"
| "type_name _ = []"

lemma parse_datatype_name: "\<not> is_variable dt \<Longrightarrow> parse_datatype (lit (type_name dt)) = Inr dt"
  by (cases dt) (simp_all add: parse_datatype_def Let_def ascii_lower_def lit_def is_variable_def)

lemma parse_int_show:
  assumes "I128_MIN \<le> n" and "n \<le> I128_MAX"
  shows "parse_int (show_int n) = Inr n"
proof -
  have "\<not> is_space (hd (show_int n))" "\<not> is_space (last (show_int n))"
    using show_int_chars [of "hd (show_int n)" n] show_int_chars [of "last (show_int n)" n]
    by (auto simp: is_space_def)
  then have "trim (show_int n) = show_int n" by (intro trim_id) simp
  moreover have no_prefix: "strip_prefix p (show_int n) = None" if "120 \<in> set p \<or> 88 \<in> set p" for p
  proof (rule ccontr)
    assume "strip_prefix p (show_int n) \<noteq> None"
    then have "set p \<subseteq> set (show_int n)" by (metis option.discI set_take_subset strip_prefix_def)
    then show False using that show_int_chars [of 120 n] show_int_chars [of 88 n] by auto
  qed
  have "strip_prefix (lit ''0x'') (show_int n) = None" "strip_prefix (lit ''0X'') (show_int n) = None"
    by (rule no_prefix; simp add: lit_def)+
  moreover have "i128_from_str_radix 10 (show_int n) = Some n"
    unfolding i128_from_str_radix_def using assms by (intro from_str_radix_show) simp_all
  ultimately show ?thesis by (simp add: parse_int_def)
qed

lemma int_value_Some: "int_bits v \<noteq> None \<Longrightarrow> \<exists>x. int_value (data_type_of v) n = Some x"
  by (cases v) auto

lemma cli_read_value:
  assumes "device_bus E N F" and "serving E (wd_node w)"
    and "quiet F (response_cob_id (nd_id (wd_node w))) (wd_queue w)"
    and "\<forall>fs \<in> set (wd_noise w). quiet F (response_cob_id (nd_id (wd_node w))) fs"
    and "od_read (no_od E) (nd_od (wd_node w)) a = Inr v" and "\<not> is_variable (data_type_of v)"
    and "obj = hex_fixed 4 (uint (index a)) @ lit '':'' @ hex_fixed 2 (uint (subindex a))"
  shows "\<exists>w'. cli_read (bus_socket E F) (no_bytes E) io (raw (nd_id (wd_node w))) obj
        (lit (type_name (data_type_of v))) w = Some (Done (w', Inr v)) \<and>
      nd_od (wd_node w') = nd_od (wd_node w)"
proof -
  let ?nd = "wd_node w"
  have "device_id (nd_id ?nd)" using assms(2) by (simp add: serving_def)
  then have nid: "cli_node_id (raw (nd_id ?nd)) = Inr (nd_id ?nd)"
    by (simp add: cli_node_id_def node_id_new_raw)
  have "wf_od (no_od E) (nd_od ?nd)" using assms(2) by (simp add: serving_def wf_node_def)
  then have "read_result (no_od E) (nd_od ?nd) a (data_type_of v) = Complete (Some v)"
    using assms(5)
    by (auto simp: od_read_def read_result_def read_event_def wf_od_def decode_le_encode_payload
        split: option.splits if_splits)
  with device_bus.bus_read_result [OF assms(1-4), of a "data_type_of v"] obtain w' where
    "sdo_read (bus_socket E F) (no_bytes E) (nd_id ?nd) a (data_type_of v) w = Some (Done (w', Inr v))"
    "nd_od (wd_node w') = nd_od ?nd" by auto
  then show ?thesis
    using nid parse_object_hex(1) [of a] parse_datatype_name [OF assms(6)]
    by (simp add: cli_read_def assms(7))
qed

section \<open>Properties\<close>

text \<open>C29: The read command end to end. For a device that serves SDO on the bus, \<open>canopen read\<close> with its
  node-id, the index and subindex in hexadecimal and the name of the object's type returns the value
  the device's dictionary holds, whatever other traffic there is; with a node-id outside 1 to 127 it
  sends nothing.\<close>

theorem cli_read_end_to_end:
  assumes "device_bus E N F" and "serving E (wd_node w)"
    and "quiet F (response_cob_id (nd_id (wd_node w))) (wd_queue w)"
    and "\<forall>fs \<in> set (wd_noise w). quiet F (response_cob_id (nd_id (wd_node w))) fs"
    and "od_read (no_od E) (nd_od (wd_node w)) a = Inr v" and "\<not> is_variable (data_type_of v)"
    and "obj = hex_fixed 4 (uint (index a)) @ lit '':'' @ hex_fixed 2 (uint (subindex a))"
  shows "(\<exists>w'. cli_read (bus_socket E F) (no_bytes E) io (raw (nd_id (wd_node w))) obj
        (lit (type_name (data_type_of v))) w = Some (Done (w', Inr v)) \<and>
      nd_od (wd_node w') = nd_od (wd_node w)) \<and>
    (\<forall>node. node = 0 \<or> 127 < node \<longrightarrow>
      cli_read (bus_socket E F) (no_bytes E) io node obj (lit (type_name (data_type_of v))) w =
        Some (Done (w, Inl (lit ''node id '' @ show_int (uint node) @ lit '' out of range (1..=127)''))))"
  using cli_read_value [OF assms] by (auto simp: cli_read_def cli_node_id_def node_id_new_def)

theorem cli_read_end_to_end_witness:
  "\<exists>w'. cli_read (bus_socket (list_node_ops 4) example_frames) (list_ops MAX_STRING_LEN) (\<lambda>_. []) 0x10
      (hex_fixed 4 0x1017 @ lit '':'' @ hex_fixed 2 0) (lit ''u16'') example_bus =
    Some (Done (w', Inr (Unsigned16 1000)))"
  using cli_read_end_to_end [OF list_bus.device_bus_axioms example_bus_serves, of "Address 0x1017 0"
      "Unsigned16 1000" _ "\<lambda>_. []", OF _ _ refl]
  by (auto simp: example_bus_def node_new_def od_read_def example_od_def entry_rw_def is_readable_def
      is_variable_def)

text \<open>C30: The write command end to end. \<open>canopen write\<close> of the decimal text of an integer to a writable
  object of the named integer type stores that integer, reduced to the width of the type, in exactly
  that object of the device; an integer that does not fit is not rejected.\<close>

theorem cli_write_end_to_end:
  assumes "device_bus E N F" and "serving E (wd_node w)"
    and "quiet F (response_cob_id (nd_id (wd_node w))) (wd_queue w)"
    and "\<forall>fs \<in> set (wd_noise w). quiet F (response_cob_id (nd_id (wd_node w))) fs"
    and "lm_get (no_od E) (nd_od (wd_node w)) a = Some e" and "is_writable (e_access e)"
    and "int_bits (e_value e) \<noteq> None" and "data_type_of (e_value e) \<noteq> DT_Boolean"
    and "I128_MIN \<le> n" and "n \<le> I128_MAX"
    and "obj = hex_fixed 4 (uint (index a)) @ lit '':'' @ hex_fixed 2 (uint (subindex a))"
  shows "\<exists>w' x. cli_write (bus_socket E F) (no_bytes E) FP io (raw (nd_id (wd_node w))) obj
        (lit (type_name (data_type_of (e_value e)))) (show_int n) w = Some (Done (w', Inr ())) \<and>
      int_value (data_type_of (e_value e)) n = Some x \<and>
      lm_get (no_od E) (nd_od (wd_node w')) = (lm_get (no_od E) (nd_od (wd_node w)))(a \<mapsto> e\<lparr>e_value := x\<rparr>)"
proof -
  let ?nd = "wd_node w" and ?dt = "data_type_of (e_value e)"
  have "device_id (nd_id ?nd)" using assms(2) by (simp add: serving_def)
  then have nid: "cli_node_id (raw (nd_id ?nd)) = Inr (nd_id ?nd)"
    by (simp add: cli_node_id_def node_id_new_raw)
  obtain x where x: "int_value ?dt n = Some x" using int_value_Some [OF assms(7)] by blast
  then have type: "data_type_of x = ?dt" "wf_value x" using int_value_type by blast+
  obtain k where "int_bits (e_value e) = Some k" using assms(7) by blast
  note dt = int_value_bits [OF this]
  then have parse: "parse_value FP ?dt (show_int n) = Inr x"
    using assms(8) x parse_int_show [OF assms(9,10)] by (simp add: parse_value_def)
  have map: "linear_map (no_od E) N"
    using assms(1) by (simp add: device_bus_def node_env_def sdo_env_def object_map_def)
  have "write_result (no_od E) (nd_od ?nd) a (encode_payload x) =
      (lm_put (no_od E) (nd_od ?nd) a (e\<lparr>e_value := x\<rparr>), Complete None)"
    using assms(5,6) decode_le_encode_payload [OF type(2)] type(1) by (simp add: write_result_def)
  with device_bus.bus_write_result [OF assms(1,2) type(2) assms(3,4), of a] obtain w' where
    "sdo_write (bus_socket E F) (no_bytes E) (nd_id ?nd) a x w = Some (Done (w', Inr ()))"
    "nd_od (wd_node w') = lm_put (no_od E) (nd_od ?nd) a (e\<lparr>e_value := x\<rparr>)" by auto
  moreover note linear_map.get_put_Some [OF map assms(5)]
  ultimately show ?thesis
    using nid x parse parse_object_hex(1) [of a] parse_datatype_name [of ?dt] dt
    by (simp add: cli_write_def assms(11))
qed

theorem cli_write_end_to_end_witness:
  "\<exists>w' x. cli_write (bus_socket (list_node_ops 4) example_frames) (list_ops MAX_STRING_LEN) example_floats
      (\<lambda>_. []) 0x10 (hex_fixed 4 0x1017 @ lit '':'' @ hex_fixed 2 0) (lit ''u16'') (show_int 70000) example_bus =
    Some (Done (w', Inr ())) \<and> int_value DT_Unsigned16 70000 = Some x \<and>
    lm_get (assoc_ops 4) (nd_od (wd_node w')) =
      (lm_get (assoc_ops 4) (nd_od (wd_node example_bus)))(Address 0x1017 0 \<mapsto> entry_rw x)"
  using cli_write_end_to_end [OF list_bus.device_bus_axioms example_bus_serves, of "Address 0x1017 0"
      "entry_rw (Unsigned16 1000)" 70000 _ example_floats "\<lambda>_. []", OF _ _ _ _ _ _ refl]
  by (simp add: example_bus_def node_new_def example_od_def entry_rw_def is_writable_def)

text \<open>The write command never rejects the text of a boolean: everything but \<open>true\<close> and \<open>1\<close>, in any
  case and with surrounding blanks, is written as false.\<close>

lemma cli_bool_never_rejected:
  "\<exists>b. parse_value FP DT_Boolean v = Inr (Boolean b) \<and>
    (b \<longleftrightarrow> ascii_lower (trim v) \<in> {lit ''true'', lit ''1''})"
  by (simp add: parse_value_def Let_def)

end
