(* ===== verification/Cli_Output.thy ===== *)
theory Cli_Output
  imports Cli Eds_Codegen Byte_Text
begin

text \<open>
  \<^verbatim>\<open>cli/src/main.rs\<close>: the program around the bus commands of Cli. What it prints is a text, opening
  files and interfaces is an argument. The listing of a description file, the generated source, the
  answers of the bus commands and the lines of the monitor are built as the code formats them; a
  reader of the monitor's lines shows that its log is a faithful record of the traffic.
\<close>

section \<open>Formatting\<close>

text \<open>\<open>{:<w}\<close> and \<open>{:>w}\<close>: a text longer than the width is written in full.\<close>

definition pad_right :: "nat \<Rightarrow> rstr \<Rightarrow> rstr" where
  "pad_right w s = s @ replicate (w - length s) 32"

definition pad_left :: "nat \<Rightarrow> rstr \<Rightarrow> rstr" where
  "pad_left w s = replicate (w - length s) 32 @ s"

text \<open>\<open>{:x}\<close> and \<open>{:X}\<close>: no leading zeros, with the digits of either case.\<close>

definition hex_upper :: "int \<Rightarrow> int" where
  "hex_upper d = (if d < 10 then 48 + d else 55 + d)"

function hex_min :: "(int \<Rightarrow> int) \<Rightarrow> int \<Rightarrow> rstr" where
  "hex_min dg n = (if n < 16 then [dg n] else hex_min dg (n div 16) @ [dg (n mod 16)])"
  by pat_completeness auto
termination
  by (relation "measure (\<lambda>(dg, n). nat n)") auto

declare hex_min.simps [simp del]

text \<open>\<open>{b:02X}\<close>.\<close>

definition hex_byte :: "u8 \<Rightarrow> rstr" where
  "hex_byte b = [hex_upper (uint b div 16), hex_upper (uint b mod 16)]"

fun join :: "rstr \<Rightarrow> rstr list \<Rightarrow> rstr" where
  "join sep [] = []"
| "join sep [s] = s"
| "join sep (s # ss) = s @ sep @ join sep ss"

definition println :: "rstr \<Rightarrow> rstr" where
  "println s = s @ [10]"

section \<open>Debug texts\<close>

text \<open>
  \<open>{:?}\<close> of a \<open>str\<close>: control characters and the two delimiters are escaped, and the characters beyond
  ASCII that the Unicode tables of the standard library (\<open>escapes\<close>) call unprintable.
\<close>

definition debug_char :: "(int \<Rightarrow> bool) \<Rightarrow> int \<Rightarrow> rstr" where
  "debug_char escapes c =
     (if c = 0 then [92, 48]
      else if c = 9 then [92, 116]
      else if c = 13 then [92, 114]
      else if c = 10 then [92, 110]
      else if c = 34 \<or> c = 92 then [92, c]
      else if c < 32 \<or> c = 127 \<or> 128 \<le> c \<and> escapes c then [92, 117, 123] @ hex_min hex_digit c @ [125]
      else [c])"

definition debug_str :: "(int \<Rightarrow> bool) \<Rightarrow> rstr \<Rightarrow> rstr" where
  "debug_str escapes s = [34] @ concat (map (debug_char escapes) s) @ [34]"

definition debug_byte_string :: "(int \<Rightarrow> bool) \<Rightarrow> byte_string \<Rightarrow> rstr" where
  "debug_byte_string escapes b =
     (case bs_as_str b of
        Some s \<Rightarrow> lit ''ByteString('' @ debug_str escapes s @ lit '')''
      | None \<Rightarrow>
          lit ''ByteString(['' @ join (lit '', '') (map (\<lambda>x. show_int (uint x)) (as_bytes b)) @ lit ''])'')"

fun debug_value :: "float_printer \<Rightarrow> (int \<Rightarrow> bool) \<Rightarrow> od_value \<Rightarrow> rstr" where
  "debug_value D U (Boolean b) = lit ''Boolean('' @ (if b then lit ''true'' else lit ''false'') @ lit '')''"
| "debug_value D U (Unsigned8 x) = lit ''Unsigned8('' @ show_int (uint x) @ lit '')''"
| "debug_value D U (Unsigned16 x) = lit ''Unsigned16('' @ show_int (uint x) @ lit '')''"
| "debug_value D U (Unsigned32 x) = lit ''Unsigned32('' @ show_int (uint x) @ lit '')''"
| "debug_value D U (Unsigned64 x) = lit ''Unsigned64('' @ show_int (uint x) @ lit '')''"
| "debug_value D U (Integer8 x) = lit ''Integer8('' @ show_int (sint x) @ lit '')''"
| "debug_value D U (Integer16 x) = lit ''Integer16('' @ show_int (sint x) @ lit '')''"
| "debug_value D U (Integer32 x) = lit ''Integer32('' @ show_int (sint x) @ lit '')''"
| "debug_value D U (Integer64 x) = lit ''Integer64('' @ show_int (sint x) @ lit '')''"
| "debug_value D U (Real32 x) = lit ''Real32('' @ debug_f32 D x @ lit '')''"
| "debug_value D U (Real64 x) = lit ''Real64('' @ debug_f64 D x @ lit '')''"
| "debug_value D U (VisibleString s) = lit ''VisibleString('' @ debug_byte_string U s @ lit '')''"
| "debug_value D U (OctetString s) = lit ''OctetString('' @ debug_byte_string U s @ lit '')''"
| "debug_value D U (Domain s) = lit ''Domain('' @ debug_byte_string U s @ lit '')''"

fun debug_data_type :: "data_type \<Rightarrow> rstr" where
  "debug_data_type DT_Boolean = lit ''Boolean''"
| "debug_data_type DT_Integer8 = lit ''Integer8''"
| "debug_data_type DT_Integer16 = lit ''Integer16''"
| "debug_data_type DT_Integer32 = lit ''Integer32''"
| "debug_data_type DT_Integer64 = lit ''Integer64''"
| "debug_data_type DT_Unsigned8 = lit ''Unsigned8''"
| "debug_data_type DT_Unsigned16 = lit ''Unsigned16''"
| "debug_data_type DT_Unsigned32 = lit ''Unsigned32''"
| "debug_data_type DT_Unsigned64 = lit ''Unsigned64''"
| "debug_data_type DT_Real32 = lit ''Real32''"
| "debug_data_type DT_Real64 = lit ''Real64''"
| "debug_data_type DT_VisibleString = lit ''VisibleString''"
| "debug_data_type DT_OctetString = lit ''OctetString''"
| "debug_data_type DT_Domain = lit ''Domain''"

section \<open>The environment\<close>

text \<open>
  An error of the operating system: its kind, its number if it has one, its text. \<open>open_error\<close> adds
  the name of the interface and, for \<open>ENODEV\<close>, a hint.
\<close>

record 'k os_error =
  oe_kind :: 'k
  oe_code :: "int option"
  oe_text :: rstr

definition open_error :: "rstr \<Rightarrow> 'k os_error \<Rightarrow> 'k os_error" where
  "open_error ifname e =
     (let hint = (if oe_code e = Some 19
                  then lit '' '' @ [8212] @ lit '' interface not found; is it up? (e.g. `sudo ip link set up '' @
                    ifname @ lit ''`)''
                  else [])
      in \<lparr>oe_kind = oe_kind e, oe_code = None,
          oe_text = lit ''opening CAN interface '' @ quoted ifname @ lit '': '' @ oe_text e @ hint\<rparr>)"

text \<open>The platform, the files, the interfaces and the texts the program relies on.\<close>

record ('s, 'k, 'e) cli_env =
  ce_linux :: bool
  ce_read_file :: "rstr \<Rightarrow> rstr + rstr"
  ce_open :: "rstr \<Rightarrow> 'k os_error + 's"
  ce_read_timeout :: "'s \<Rightarrow> 's \<times> ('e + unit)"
  ce_io_text :: "'e io_error \<Rightarrow> rstr"
  ce_float_parser :: float_parser
  ce_float_printer :: float_printer
  ce_escapes :: "int \<Rightarrow> bool"

text \<open>\<open>SocketCan::open\<close>, and \<open>open\<close> of the bus commands, which sets a read timeout of a second.\<close>

definition socket_open :: "('s, 'k, 'e) cli_env \<Rightarrow> rstr \<Rightarrow> 'k os_error + 's" where
  "socket_open W ifname = map_sum (open_error ifname) id (ce_open W ifname)"

definition opening_text :: "rstr \<Rightarrow> rstr" where
  "opening_text ifname = lit ''opening interface '' @ quoted ifname"

definition bus_open :: "('s, 'k, 'e) cli_env \<Rightarrow> rstr \<Rightarrow> rstr + 's" where
  "bus_open W ifname =
     (case socket_open W ifname of
        Inl e \<Rightarrow> Inl (opening_text ifname)
      | Inr s \<Rightarrow>
          (case ce_read_timeout W s of
             (s', Inl e) \<Rightarrow> Inl (ce_io_text W (SocketError e))
           | (s', Inr _) \<Rightarrow> Inr s'))"

section \<open>The commands\<close>

text \<open>
  A command that ends gives the socket as it leaves it, what it printed, and its result with the
  top-level message of an error.
\<close>

type_synonym 's cli_result = "('s option \<times> rstr \<times> (rstr + unit)) run option"

definition cli_failed :: "rstr \<Rightarrow> 's cli_result" where
  "cli_failed e = Some (Done (None, [], Inl e))"

definition eds_object_line :: "float_printer \<Rightarrow> (int \<Rightarrow> bool) \<Rightarrow> object_description \<Rightarrow> rstr" where
  "eds_object_line D U ob =
     lit ''  '' @ hex_alt 4 (uint (index (ob_address ob))) @ lit '':'' @
     hex_fixed 2 (uint (subindex (ob_address ob))) @ lit ''  '' @
     pad_right 10 (debug_data_type (ob_data_type ob)) @ lit '' '' @
     pad_right 6 (access_variant (ob_access ob)) @ lit '' '' @
     pad_right 24 (debug_value D U (ob_default_value ob)) @ lit '' '' @ ob_parameter_name ob"

definition eds_listing :: "float_printer \<Rightarrow> (int \<Rightarrow> bool) \<Rightarrow> eds \<Rightarrow> rstr" where
  "eds_listing D U e =
     println (lit ''vendor:  '' @ (case eds_vendor_name e of Some s \<Rightarrow> s | None \<Rightarrow> lit ''(none)'')) @
     println (lit ''product: '' @ (case eds_product_name e of Some s \<Rightarrow> s | None \<Rightarrow> lit ''(none)'')) @
     (case eds_node_id e of Some n \<Rightarrow> println (lit ''node id: '' @ hex_alt 2 (uint n)) | None \<Rightarrow> []) @
     println (show_int (int (length (eds_objects e))) @ lit '' objects:'') @
     concat (map (\<lambda>ob. println (eds_object_line D U ob)) (eds_objects e))"

definition cmd_eds :: "('s, 'k, 'e) cli_env \<Rightarrow> rstr \<Rightarrow> 's cli_result" where
  "cmd_eds W file =
     Some (run_map (\<lambda>r. case r of
         Inl _ \<Rightarrow> (None, [], Inl (lit ''reading '' @ file))
       | Inr e \<Rightarrow> (None, eds_listing (ce_float_printer W) (ce_escapes W) e, Inr ()))
       (eds_from_file (ce_float_parser W) (ce_read_file W file)))"

definition cmd_codegen :: "('s, 'k, 'e) cli_env \<Rightarrow> rstr \<Rightarrow> rstr \<Rightarrow> 's cli_result" where
  "cmd_codegen W file fn_name =
     Some (run_map (\<lambda>r. case r of
         Inl _ \<Rightarrow> (None, [], Inl (lit ''reading '' @ file))
       | Inr e \<Rightarrow> (None, generate_object_dictionary (ce_float_printer W) e fn_name, Inr ()))
       (eds_from_file (ce_float_parser W) (ce_read_file W file)))"

definition run_read :: "('s, 'k, 'e) cli_env \<Rightarrow> ('s, 'f, 'e) can_socket \<Rightarrow> ('b, u8) vec_ops \<Rightarrow>
    rstr \<Rightarrow> u8 \<Rightarrow> rstr \<Rightarrow> rstr \<Rightarrow> 's cli_result" where
  "run_read W K B ifname node obj dt =
     (case bus_open W ifname of
        Inl e \<Rightarrow> cli_failed e
      | Inr s \<Rightarrow>
          map_option (run_map (\<lambda>(s', r). case r of
              Inl e \<Rightarrow> (Some s', [], Inl e)
            | Inr v \<Rightarrow>
                (Some s', println (debug_value (ce_float_printer W) (ce_escapes W) v), Inr ())))
            (cli_read K B (ce_io_text W) node obj dt s))"

definition run_write :: "('s, 'k, 'e) cli_env \<Rightarrow> ('s, 'f, 'e) can_socket \<Rightarrow> ('b, u8) vec_ops \<Rightarrow>
    rstr \<Rightarrow> u8 \<Rightarrow> rstr \<Rightarrow> rstr \<Rightarrow> rstr \<Rightarrow> 's cli_result" where
  "run_write W K B ifname node obj dt v =
     (case bus_open W ifname of
        Inl e \<Rightarrow> cli_failed e
      | Inr s \<Rightarrow>
          map_option (run_map (\<lambda>(s', r). case r of
              Inl e \<Rightarrow> (Some s', [], Inl e)
            | Inr _ \<Rightarrow> (Some s', println (lit ''ok''), Inr ())))
            (cli_write K B (ce_float_parser W) (ce_io_text W) node obj dt v s))"

definition run_nmt :: "('s, 'k, 'e) cli_env \<Rightarrow> ('s, 'f, 'e) can_socket \<Rightarrow> rstr \<Rightarrow> rstr \<Rightarrow> u8 \<Rightarrow> 's cli_result" where
  "run_nmt W K ifname command node =
     (case bus_open W ifname of
        Inl e \<Rightarrow> cli_failed e
      | Inr s \<Rightarrow>
          (case cli_nmt K (ce_io_text W) command node s of
             (s', Inl e) \<Rightarrow> Some (Done (Some s', [], Inl e))
           | (s', Inr _) \<Rightarrow>
               Some (Done (Some s', println (lit ''sent '' @ command @ lit '' to '' @
                 (if node = 0 then lit ''all nodes'' else lit ''node '' @ hex_alt 2 (uint node))), Inr ()))))"

section \<open>The monitor\<close>

definition monitor_line :: "received \<Rightarrow> rstr" where
  "monitor_line r =
     pad_left 3 (hex_min hex_upper (uint (rc_cob_id r))) @ lit ''  ['' @
     pad_right 23 (join (lit '' '') (map hex_byte (received_data r))) @ lit ''] '' @
     lit (classify (rc_cob_id r))"

text \<open>The loop ends only with an error of the socket; \<open>out\<close> is what was printed before.\<close>

partial_function (option) monitor_loop ::
  "('s, 'f, 'e) can_socket \<Rightarrow> rstr \<Rightarrow> 's \<Rightarrow> ('s \<times> rstr \<times> (rstr + unit)) option" where
  "monitor_loop K out s =
     Option.bind (recv K s) (\<lambda>(s', r).
       case r of
         Inl e \<Rightarrow> Some (s', out, Inl (lit ''receiving frame''))
       | Inr f \<Rightarrow> monitor_loop K (out @ println (monitor_line f)) s')"

definition monitor_header :: "rstr \<Rightarrow> rstr" where
  "monitor_header ifname = println (lit ''monitoring '' @ ifname @ lit '' (Ctrl-C to stop)'' @ [8230])"

definition run_monitor :: "('s, 'k, 'e) cli_env \<Rightarrow> ('s, 'f, 'e) can_socket \<Rightarrow> rstr \<Rightarrow> 's cli_result" where
  "run_monitor W K ifname =
     (case socket_open W ifname of
        Inl e \<Rightarrow> cli_failed (opening_text ifname)
      | Inr s \<Rightarrow>
          map_option (\<lambda>(s', out, r). Done (Some s', out, r)) (monitor_loop K (monitor_header ifname) s))"

section \<open>The program\<close>

text \<open>The bus commands are compiled for Linux only; elsewhere they report that.\<close>

definition NOT_LINUX :: rstr where
  "NOT_LINUX = lit ''bus commands require Linux SocketCAN; only `canopen eds` runs here''"

definition cmd_read :: "('s, 'k, 'e) cli_env \<Rightarrow> ('s, 'f, 'e) can_socket \<Rightarrow> ('b, u8) vec_ops \<Rightarrow>
    rstr \<Rightarrow> u8 \<Rightarrow> rstr \<Rightarrow> rstr \<Rightarrow> 's cli_result" where
  "cmd_read W K B ifname node obj dt =
     (if ce_linux W then run_read W K B ifname node obj dt else cli_failed NOT_LINUX)"

definition cmd_write :: "('s, 'k, 'e) cli_env \<Rightarrow> ('s, 'f, 'e) can_socket \<Rightarrow> ('b, u8) vec_ops \<Rightarrow>
    rstr \<Rightarrow> u8 \<Rightarrow> rstr \<Rightarrow> rstr \<Rightarrow> rstr \<Rightarrow> 's cli_result" where
  "cmd_write W K B ifname node obj dt v =
     (if ce_linux W then run_write W K B ifname node obj dt v else cli_failed NOT_LINUX)"

definition cmd_nmt :: "('s, 'k, 'e) cli_env \<Rightarrow> ('s, 'f, 'e) can_socket \<Rightarrow> rstr \<Rightarrow> rstr \<Rightarrow> u8 \<Rightarrow> 's cli_result" where
  "cmd_nmt W K ifname command node =
     (if ce_linux W then run_nmt W K ifname command node else cli_failed NOT_LINUX)"

definition cmd_monitor :: "('s, 'k, 'e) cli_env \<Rightarrow> ('s, 'f, 'e) can_socket \<Rightarrow> rstr \<Rightarrow> 's cli_result" where
  "cmd_monitor W K ifname = (if ce_linux W then run_monitor W K ifname else cli_failed NOT_LINUX)"

datatype cli_command =
    CmdEds rstr
  | CmdCodegen rstr rstr
  | CmdRead rstr u8 rstr rstr
  | CmdWrite rstr u8 rstr rstr rstr
  | CmdNmt rstr rstr u8
  | CmdMonitor rstr

fun cli_main :: "('s, 'k, 'e) cli_env \<Rightarrow> ('s, 'f, 'e) can_socket \<Rightarrow> ('b, u8) vec_ops \<Rightarrow>
    cli_command \<Rightarrow> 's cli_result" where
  "cli_main W K B (CmdEds file) = cmd_eds W file"
| "cli_main W K B (CmdCodegen file fn_name) = cmd_codegen W file fn_name"
| "cli_main W K B (CmdRead ifname node obj dt) = cmd_read W K B ifname node obj dt"
| "cli_main W K B (CmdWrite ifname node obj dt v) = cmd_write W K B ifname node obj dt v"
| "cli_main W K B (CmdNmt ifname command node) = cmd_nmt W K ifname command node"
| "cli_main W K B (CmdMonitor ifname) = cmd_monitor W K ifname"

end
