(* ===== verification/Cli_Monitor.thy ===== *)
theory Cli_Monitor
  imports Cli_Output
begin

text \<open>
  The monitor of \<^verbatim>\<open>cli/src/main.rs\<close>: a reader of the lines it prints, the runs of a socket, and the theorem
  that its log is the traffic; and the read command from the arguments to the printed value.
\<close>

section \<open>Reading the log\<close>

text \<open>A reader of a line of the log: the identifier before the bracket, the bytes inside.\<close>

fun read_bytes :: "rstr list \<Rightarrow> u8 list option" where
  "read_bytes [] = Some []"
| "read_bytes (p # ps) =
     Option.bind (u8_from_str_radix 16 p) (\<lambda>b. map_option (\<lambda>bs. b # bs) (read_bytes ps))"

definition read_monitor_line :: "rstr \<Rightarrow> (u16 \<times> u8 list) option" where
  "read_monitor_line line =
     Option.bind (split_once (lit ''['') line) (\<lambda>(i, rest).
     Option.bind (split_once (lit '']'') rest) (\<lambda>(h, _).
     Option.bind (u16_from_str_radix 16 (trim i)) (\<lambda>c.
     map_option (\<lambda>bs. (c, bs)) (if trim h = [] then Some [] else read_bytes (split_on 32 (trim h))))))"

text \<open>The characters of upper-case hexadecimal.\<close>

abbreviation (input) is_hex :: "int \<Rightarrow> bool" where
  "is_hex c \<equiv> 48 \<le> c \<and> c \<le> 57 \<or> 65 \<le> c \<and> c \<le> 70"

lemma hex_upper_char: "0 \<le> d \<Longrightarrow> d < 16 \<Longrightarrow> is_hex (hex_upper d)"
  and digit_value_upper: "0 \<le> d \<Longrightarrow> d < 16 \<Longrightarrow> digit_value 16 (hex_upper d) = Some d"
  by (auto simp: hex_upper_def digit_value_def)

lemma hex_min_ne [simp]: "hex_min dg n \<noteq> []"
  by (subst hex_min.simps) simp

lemma hex_min_chars: "0 \<le> n \<Longrightarrow> c \<in> set (hex_min hex_upper n) \<Longrightarrow> is_hex c"
proof (induction "hex_upper" n rule: hex_min.induct)
  case (1 n)
  have "is_hex (hex_upper (n mod 16))" by (rule hex_upper_char) simp_all
  moreover have "c \<in> set (if n < 16 then [hex_upper n] else hex_min hex_upper (n div 16) @ [hex_upper (n mod 16)])"
    using "1.prems"(2) by (simp only: hex_min.simps [of _ n])
  moreover have "0 \<le> n div 16" using "1.prems"(1) by (simp add: pos_imp_zdiv_nonneg_iff)
  ultimately show ?case using 1 hex_upper_char [of n] by (auto split: if_splits)
qed

lemma digits_value_hex_min: "0 \<le> n \<Longrightarrow> digits_value 16 0 (hex_min hex_upper n) = Some n"
proof (induction "hex_upper" n rule: hex_min.induct)
  case (1 n)
  then show ?case
    using digit_value_upper [of "n mod 16"]
    by (subst hex_min.simps) (auto simp: digits_value_append digit_value_upper)
qed

lemma from_str_radix_digits:
  assumes "digits_value 16 0 s = Some n" and "\<forall>c \<in> set s. is_hex c" and "s \<noteq> []"
    and "0 \<le> n" and "n \<le> hi" and "lo \<le> 0"
  shows "from_str_radix lo hi 16 s = Some n"
proof -
  obtain c r where c: "s = c # r" using assms(3) by (cases s) auto
  then have "c \<noteq> 43" "c \<noteq> 45" using assms(2) by auto
  then show ?thesis using assms c by (simp add: from_str_radix_def del: digits_value.simps)
qed

lemma read_cob_id: "u16_from_str_radix 16 (hex_min hex_upper (uint c)) = Some c"
proof -
  have "uint c \<le> 65535" using uint_lt2p [of c] by simp
  then have "from_str_radix 0 65535 16 (hex_min hex_upper (uint c)) = Some (uint c)"
    using hex_min_chars [of "uint c"] by (intro from_str_radix_digits) (auto simp: digits_value_hex_min)
  then show ?thesis by (simp add: u16_from_str_radix_def)
qed

lemma uint_byte_div: "uint (b :: u8) div 16 < 16" "0 \<le> uint b div 16" "uint b \<le> 255"
  using uint_lt2p [of b] by (simp_all add: div_less_iff_less_mult pos_imp_zdiv_nonneg_iff)

lemma hex_byte_chars: "c \<in> set (hex_byte b) \<Longrightarrow> is_hex c"
proof -
  note div_bounds = uint_byte_div [of b]
  show "c \<in> set (hex_byte b) \<Longrightarrow> is_hex c"
    using div_bounds hex_upper_char [of "uint b div 16"] hex_upper_char [of "uint b mod 16"] by (auto simp: hex_byte_def)
qed

lemma read_hex_byte: "u8_from_str_radix 16 (hex_byte b) = Some b"
proof -
  note b = uint_byte_div [of b]
  have "digits_value 16 0 (hex_byte b) = Some (uint b)"
    using b digit_value_upper [of "uint b div 16"] by (simp add: hex_byte_def digit_value_upper)
  then have "from_str_radix 0 255 16 (hex_byte b) = Some (uint b)"
    using b hex_byte_chars [of _ b] by (intro from_str_radix_digits) (auto simp: hex_byte_def)
  then show ?thesis by (simp add: u8_from_str_radix_def)
qed

lemma read_bytes_hex: "read_bytes (map hex_byte bs) = Some bs"
  by (induction bs) (simp_all add: read_hex_byte)

lemma split_on_join:
  assumes "\<forall>p \<in> set ps. d \<notin> set p" and "ps \<noteq> []"
  shows "split_on d (join [d] ps) = ps"
  using assms by (induction "[d]" ps rule: join.induct) (simp_all add: split_on_single split_on_append)

lemma join_set: "set (join sep ps) \<subseteq> set sep \<union> (\<Union>p \<in> set ps. set p)"
  by (induction sep ps rule: join.induct) auto

text \<open>Padding of a text that starts and ends with a digit is trimmed off again.\<close>

lemma trim_padded:
  assumes "s = [] \<or> \<not> is_space (hd s) \<and> \<not> is_space (last s)"
  shows "trim (replicate a 32 @ s @ replicate b 32) = s"
proof -
  have blank: "is_space 32" by (simp add: is_space_def)
  have drop: "dropWhile is_space (replicate n 32 @ t) = dropWhile is_space t" for n t
    using blank by (induction n) auto
  show ?thesis
  proof (cases "s = []")
    case True
    then show ?thesis using drop [of "a + b" "[]"] by (simp add: trim_def flip: replicate_add)
  next
    case False
    then have "dropWhile is_space (s @ replicate b 32) = s @ replicate b 32"
      using assms by (cases s) auto
    moreover have "dropWhile is_space (rev s) = rev s" using assms False by (intro dropWhile_hd) (auto simp: hd_rev)
    ultimately show ?thesis using drop [of b "rev s"] by (simp add: trim_def drop)
  qed
qed

lemma is_hex_no_space: "is_hex c \<Longrightarrow> \<not> is_space c"
  by (auto simp: is_space_def)

lemma hd_last_join:
  assumes "bs \<noteq> []"
  shows "is_hex (hd (join sep (map hex_byte bs)))" "is_hex (last (join sep (map hex_byte bs)))"
    "join sep (map hex_byte bs) \<noteq> []"
proof -
  have b: "hex_byte b \<noteq> []" "is_hex (hd (hex_byte b))" "is_hex (last (hex_byte b))" for b
    using hex_byte_chars [of _ b] by (auto simp: hex_byte_def)
  have "is_hex (hd (join sep (map hex_byte bs))) \<and> is_hex (last (join sep (map hex_byte bs))) \<and>
      join sep (map hex_byte bs) \<noteq> []"
    using assms
  proof (induction bs)
    case (Cons x bs)
    then show ?case using b [of x] by (cases bs) (auto simp: hd_append last_append)
  qed simp
  then show "is_hex (hd (join sep (map hex_byte bs)))" "is_hex (last (join sep (map hex_byte bs)))"
    "join sep (map hex_byte bs) \<noteq> []" by auto
qed

lemma read_monitor_line:
  "read_monitor_line (monitor_line r @ rest) = Some (rc_cob_id r, received_data r)"
proof -
  let ?i = "hex_min hex_upper (uint (rc_cob_id r))" and ?bs = "received_data r"
  let ?h = "join (lit '' '') (map hex_byte ?bs)"
  have i: "\<forall>c \<in> set ?i. is_hex c" using hex_min_chars [of "uint (rc_cob_id r)"] by auto
  have h: "\<forall>c \<in> set ?h. is_hex c \<or> c = 32"
    using join_set [of "lit '' ''" "map hex_byte ?bs"] hex_byte_chars by (fastforce simp: lit_def)
  have lits: "lit ''['' = [91]" "lit '']'' = [93]" "lit ''  [''= [32, 32, 91]" "lit ''] ''= [93, 32]"
    "lit '' '' = [32]"
    by (simp_all add: lit_def)
  have "91 \<notin> set (pad_left 3 ?i @ [32, 32])" using i by (auto simp: pad_left_def)
  from split_once_char [OF this, of "pad_right 23 ?h @ 93 # 32 # lit (classify (rc_cob_id r)) @ rest"]
  have 1: "split_once (lit ''['') (monitor_line r @ rest) =
      Some (pad_left 3 ?i @ [32, 32], pad_right 23 ?h @ 93 # 32 # lit (classify (rc_cob_id r)) @ rest)"
    by (simp add: monitor_line_def lits)
  have "93 \<notin> set (pad_right 23 ?h)" using h by (auto simp: pad_right_def)
  note 2 = split_once_char [OF this, of "32 # lit (classify (rc_cob_id r)) @ rest"]
  have "trim (replicate (3 - length ?i) 32 @ ?i @ replicate 2 32) = ?i"
    using i by (intro trim_padded) (auto simp: is_hex_no_space)
  then have 3: "trim (pad_left 3 ?i @ [32, 32]) = ?i" by (simp add: pad_left_def numeral_2_eq_2)
  have "trim (replicate 0 32 @ ?h @ replicate (23 - length ?h) 32) = ?h"
    using hd_last_join [of ?bs "lit '' ''"] by (intro trim_padded) (cases "?bs = []"; simp add: is_hex_no_space)
  then have 4: "trim (pad_right 23 ?h) = ?h" by (simp add: pad_right_def)
  have 5: "read_bytes (split_on 32 ?h) = Some ?bs" if "?bs \<noteq> []"
  proof -
    have "split_on 32 ?h = map hex_byte ?bs"
      unfolding lits using that hex_byte_chars [of 32] by (intro split_on_join) auto
    then show ?thesis by (simp add: read_bytes_hex)
  qed
  have 6: "(if trim (pad_right 23 ?h) = [] then Some []
      else read_bytes (split_on 32 (trim (pad_right 23 ?h)))) = Some ?bs"
    unfolding 4 using hd_last_join(3) [of ?bs "lit '' ''"] 5 by (cases "?bs = []") simp_all
  show ?thesis
    by (simp add: read_monitor_line_def 1 2 [folded lits(2)] 3 6 read_cob_id split del: if_split)
qed


text \<open>The lines of a log are told apart by their line feeds.\<close>

lemma lit_code:
  "10 \<in> set (lit s) \<longleftrightarrow> CHR 0x0A \<in> set s" "13 \<in> set (lit s) \<longleftrightarrow> CHR 0x0D \<in> set s"
proof -
  have "(of_char c = (10 :: int)) = (c = CHR 0x0A)" "(of_char c = (13 :: int)) = (c = CHR 0x0D)" for c
    using of_char_eq_iff [where 'a = int, of c "CHR 0x0A"] of_char_eq_iff [where 'a = int, of c "CHR 0x0D"] by simp_all
  then show "10 \<in> set (lit s) \<longleftrightarrow> CHR 0x0A \<in> set s" "13 \<in> set (lit s) \<longleftrightarrow> CHR 0x0D \<in> set s"
    by (auto simp: lit_def image_iff)
qed

lemma classify_chars: "10 \<notin> set (lit (classify c)) \<and> 13 \<notin> set (lit (classify c))"
proof -
  define ok where "ok = (\<lambda>s. CHR 0x0A \<notin> set s \<and> CHR 0x0D \<notin> set s)"
  have ifs: "ok x \<Longrightarrow> ok y \<Longrightarrow> ok (if b then x else y)" for b x y by simp
  have "ok (classify c)" unfolding classify_def by (intro ifs) (simp_all add: ok_def)
  then show ?thesis unfolding ok_def lit_code .
qed

lemma monitor_line_chars:
  assumes "c \<in> set (monitor_line r)"
  shows "c \<noteq> 10 \<and> c \<noteq> 13"
proof -
  let ?i = "hex_min hex_upper (uint (rc_cob_id r))" and ?h = "join (lit '' '') (map hex_byte (received_data r))"
  have "lit ''  ['' = [32, 32, 91]" "lit ''] '' = [93, 32]" by (simp_all add: lit_def)
  then have "set (monitor_line r) \<subseteq>
      {32, 91, 93} \<union> set ?i \<union> set ?h \<union> set (lit (classify (rc_cob_id r)))"
    by (auto simp: monitor_line_def pad_left_def pad_right_def)
  moreover have "set ?h \<subseteq> {32} \<union> (\<Union>b. set (hex_byte b))"
    using join_set [of "lit '' ''" "map hex_byte (received_data r)"] by (auto simp: lit_def)
  moreover have "c \<notin> set (lit (classify (rc_cob_id r)))" if "c = 10 \<or> c = 13"
    using that classify_chars [of "rc_cob_id r"] by blast
  ultimately have "c = 32 \<or> c = 91 \<or> c = 93 \<or> c \<in> set ?i \<or> (\<exists>b. c \<in> set (hex_byte b)) \<or>
      c \<noteq> 10 \<and> c \<noteq> 13"
    using assms by auto
  then show ?thesis
    using hex_min_chars [of "uint (rc_cob_id r)" c] hex_byte_chars [of c] by (elim disjE exE) auto
qed

text \<open>The log of a sequence of received frames.\<close>

definition monitor_log :: "received list \<Rightarrow> rstr" where
  "monitor_log rs = concat (map (\<lambda>r. println (monitor_line r)) rs)"

lemma str_lines_log: "str_lines (monitor_log rs) = map monitor_line rs"
  unfolding monitor_log_def
proof (induction rs)
  case (Cons r rs)
  have "10 \<notin> set (monitor_line r)" using monitor_line_chars [of 10 r] by auto
  moreover have "strip_suffix [13] (monitor_line r) = None"
    using monitor_line_chars [of 13 r] set_take_subset [of 1 "rev (monitor_line r)"]
    by (auto simp: strip_suffix_def strip_prefix_def split: if_splits)
  ultimately show ?case using Cons str_lines_append [of "monitor_line r"] by (simp add: println_def)
qed simp

section \<open>What the monitor reports\<close>

text \<open>\<open>reads K s fs t\<close>: from the state \<open>s\<close> the socket delivers the frames \<open>fs\<close> and is then in the state \<open>t\<close>.\<close>

inductive reads :: "('s, 'f, 'e) can_socket \<Rightarrow> 's \<Rightarrow> 'f list \<Rightarrow> 's \<Rightarrow> bool" for K where
  reads_none: "reads K s [] s"
| reads_frame: "sk_read K s = (s', Inr f) \<Longrightarrow> reads K s' fs t \<Longrightarrow> reads K s (f # fs) t"

definition canopen_frames :: "'f frame_ops \<Rightarrow> 'f list \<Rightarrow> received list" where
  "canopen_frames F fs =
     List.map_filter (\<lambda>f. if fr_is_data F f
       then map_option (\<lambda>c. received_new c (fr_data F f)) (frame_cob_id F f) else None) fs"

lemma recv_skip:
  assumes "sk_read K s = (s', Inr f)"
    and "canopen_frames (sk_frames K) [f] = []"
  shows "recv K s = recv K s'"
  using assms by (subst recv.simps) (auto simp: canopen_frames_def List.map_filter_def split: if_splits)

lemma recv_take:
  assumes "sk_read K s = (s', Inr f)" and "canopen_frames (sk_frames K) [f] = [r]"
  shows "recv K s = Some (s', Inr r)"
  using assms by (subst recv.simps) (auto simp: canopen_frames_def List.map_filter_def split: if_splits)

lemma canopen_frames_Cons:
  "canopen_frames F (f # fs) = canopen_frames F [f] @ canopen_frames F fs"
  "canopen_frames F [f] = [] \<or> (\<exists>r. canopen_frames F [f] = [r])"
  "canopen_frames F [] = []"
  by (auto simp: canopen_frames_def List.map_filter_def)

lemma monitor_loop_reads:
  assumes "reads K s fs t" and "sk_read K t = (t', Inl e)"
  shows "monitor_loop K out s =
    Some (t', out @ monitor_log (canopen_frames (sk_frames K) fs),
      Inl (lit ''receiving frame''))"
  using assms
proof (induction arbitrary: out rule: reads.induct)
  case (reads_none s)
  then have "recv K s = Some (t', Inl (SocketError e))" by (subst recv.simps) simp
  then show ?case by (subst monitor_loop.simps) (simp add: canopen_frames_Cons monitor_log_def)
next
  case (reads_frame s s' f fs t)
  note IH = reads_frame.IH [OF reads_frame.prems]
  consider "canopen_frames (sk_frames K) [f] = []" | r where "canopen_frames (sk_frames K) [f] = [r]"
    using canopen_frames_Cons(2) [of "sk_frames K" f] by blast
  then show ?case
  proof cases
    case 1
    then have "monitor_loop K out s = monitor_loop K out s'"
      using recv_skip [OF reads_frame.hyps(1)]
      by (simp only: monitor_loop.simps [of K out s] monitor_loop.simps [of K out s'])
    then show ?thesis using 1 IH canopen_frames_Cons(1) [of _ f fs] by (simp add: monitor_log_def)
  next
    case 2
    have "monitor_loop K out s = monitor_loop K (out @ println (monitor_line r)) s'"
      using recv_take [OF reads_frame.hyps(1) 2] by (subst monitor_loop.simps) simp
    then show ?thesis using 2 IH canopen_frames_Cons(1) [of _ f fs] by (simp add: monitor_log_def)
  qed
qed

lemma reads_append: "reads K s fs t \<Longrightarrow> reads K t gs u \<Longrightarrow> reads K s (fs @ gs) u"
  by (induction rule: reads.induct) (auto intro: reads.intros)

text \<open>The other way round: \<open>recv\<close> and the loop return only after such a run of the socket.\<close>

lemma recv_reads:
  assumes "recv K s = Some y"
  shows "case snd y of
      Inr _ \<Rightarrow> \<exists>fs. reads K s fs (fst y)
    | Inl _ \<Rightarrow> \<exists>fs t e. reads K s fs t \<and> sk_read K t = (fst y, Inl e)"
proof (induction rule: recv.raw_induct [OF _ assms, consumes 0, case_names step])
  case (step loop K s y)
  obtain s1 x where x: "sk_read K s = (s1, x)" by (cases "sk_read K s")
  show ?case
  proof (cases x)
    case (Inl e)
    then have "y = (s1, Inl (SocketError e))" using step.hyps x by simp
    then show ?thesis using Inl x reads_none by fastforce
  next
    case (Inr f)
    then have one: "reads K s (f # fs) t" if "reads K s1 fs t" for fs t
      using x that by (auto intro: reads_frame)
    consider "loop K s1 = Some y" | r' where "y = (s1, Inr r')"
      using step.hyps Inr x by (auto split: if_splits option.splits)
    then show ?thesis
    proof cases
      case 1
      show ?thesis using step.IH [OF 1] one by (cases "snd y") (fastforce, fastforce)
    next
      case 2
      then show ?thesis using one [OF reads_none] by auto
    qed
  qed
qed

lemma monitor_loop_ends:
  assumes "monitor_loop K out s = Some y"
  shows "\<exists>fs t e. reads K s fs t \<and> sk_read K t = (fst y, Inl e)"
proof (induction rule: monitor_loop.raw_induct [OF _ assms, consumes 0, case_names step])
  case (step loop K out s y)
  obtain s1 r where r: "recv K s = Some (s1, r)"
    using step.hyps by (cases "recv K s") auto
  note rr = recv_reads [OF r]
  show ?case
  proof (cases r)
    case (Inl e)
    then obtain fs t e' where "reads K s fs t" "sk_read K t = (s1, Inl e')" using rr by auto
    moreover have "fst y = s1" using Inl step.hyps r by auto
    ultimately show ?thesis by blast
  next
    case (Inr f)
    then have "loop K (out @ println (monitor_line f)) s1 = Some y" using step.hyps r by simp
    from step.IH [OF this] obtain gs t e where gs: "reads K s1 gs t" and e: "sk_read K t = (fst y, Inl e)" by blast
    obtain fs where "reads K s fs s1" using rr Inr by auto
    from reads_append [OF this gs] show ?thesis using e by blast
  qed
qed
section \<open>Reading, listing and opening\<close>

text \<open>The read command prints the value that the device holds.\<close>

lemma main_read_prints:
  assumes "device_bus E N F" and "serving E (wd_node w)"
    and "quiet F (response_cob_id (nd_id (wd_node w))) (wd_queue w)"
    and "\<forall>fs \<in> set (wd_noise w). quiet F (response_cob_id (nd_id (wd_node w))) fs"
    and "od_read (no_od E) (nd_od (wd_node w)) a = Inr v" and "\<not> is_variable (data_type_of v)"
    and "obj = hex_fixed 4 (uint (index a)) @ lit '':'' @ hex_fixed 2 (uint (subindex a))"
    and "ce_open W ifname = Inr w" and "ce_read_timeout W w = (w, Inr ())" and "ce_linux W"
  shows "\<exists>w'. cli_main W (bus_socket E F) (no_bytes E)
      (CmdRead ifname (raw (nd_id (wd_node w))) obj (lit (type_name (data_type_of v)))) =
    Some (Done (Some w', println (debug_value (ce_float_printer W) (ce_escapes W) v), Inr ()))"
  using cli_read_value [OF assms(1-7), of "ce_io_text W"] assms(8-)
  by (auto simp: cmd_read_def run_read_def bus_open_def socket_open_def)

text \<open>The address of a listed object is an argument that the read and write commands accept.\<close>

lemma eds_line_address:
  "parse_object (take 9 (drop 2 (eds_object_line D U ob))) = Inr (ob_address ob)"
proof -
  have "take 9 (drop 2 (eds_object_line D U ob)) =
      lit ''0x'' @ hex_fixed 4 (uint (index (ob_address ob))) @ lit '':'' @ hex_fixed 2 (uint (subindex (ob_address ob)))"
    by (simp add: eds_object_line_def hex_alt_def lit_def)
  then show ?thesis by (simp add: parse_object_hex(3))
qed

text \<open>
  A bus command on an interface that does not open prints nothing and names the interface; off Linux
  it does not look at the interface at all, and the commands on files work on every platform.
\<close>

lemma main_bus_fails:
  assumes "c \<in> {CmdRead ifname node obj dt, CmdWrite ifname node obj dt v, CmdNmt ifname cmd node, CmdMonitor ifname}"
  shows "ce_linux W \<Longrightarrow> ce_open W ifname = Inl e \<Longrightarrow>
      cli_main W K B c = Some (Done (None, [], Inl (opening_text ifname)))"
    and "\<not> ce_linux W \<Longrightarrow> cli_main W K B c = Some (Done (None, [], Inl NOT_LINUX))"
  using assms
  by (auto simp: cmd_read_def cmd_write_def cmd_nmt_def cmd_monitor_def run_read_def run_write_def run_nmt_def
      run_monitor_def bus_open_def socket_open_def cli_failed_def)

lemma main_codegen_everywhere:
  "cli_main (W\<lparr>ce_linux := l\<rparr>) K B (CmdCodegen file fn_name) = cli_main W K B (CmdCodegen file fn_name)"
  "cli_main (W\<lparr>ce_linux := l\<rparr>) K B (CmdEds file) = cli_main W K B (CmdEds file)"
  by (cases W; simp add: cmd_codegen_def cmd_eds_def)+

section \<open>Properties\<close>

text \<open>C31: The monitor's log is the traffic. The monitor returns exactly when the interface delivers some
  frames and then fails; by then it has printed its header and one line for each CANopen data frame
  (remote, error and extended frames are left out), in the order they arrived, and its result is the
  error. Reading the lines of a log back gives the identifier and the data of exactly its frames.\<close>

theorem monitor_log_faithful:
  assumes "ce_linux W" and "ce_open W ifname = Inr s"
  shows "(cli_main W K B (CmdMonitor ifname) = Some res \<longleftrightarrow>
      (\<exists>fs t t' e. reads K s fs t \<and> sk_read K t = (t', Inl e) \<and>
        res = Done (Some t', monitor_header ifname @ monitor_log (canopen_frames (sk_frames K) fs),
          Inl (lit ''receiving frame'')))) \<and>
    map read_monitor_line (str_lines (monitor_log rs)) = map (\<lambda>r. Some (rc_cob_id r, received_data r)) rs"
    (is "?runs \<and> ?reads")
proof
  have main: "cli_main W K B (CmdMonitor ifname) =
      map_option (\<lambda>(s', out, r). Done (Some s', out, r)) (monitor_loop K (monitor_header ifname) s)"
    using assms by (simp add: cmd_monitor_def run_monitor_def socket_open_def)
  show ?runs
  proof
    assume "cli_main W K B (CmdMonitor ifname) = Some res"
    then obtain y where y: "monitor_loop K (monitor_header ifname) s = Some y"
      "res = (case y of (s', out, r) \<Rightarrow> Done (Some s', out, r))" unfolding main by auto
    obtain fs t e where fs: "reads K s fs t" "sk_read K t = (fst y, Inl e)" using monitor_loop_ends [OF y(1)] by blast
    have "res = Done (Some (fst y), monitor_header ifname @ monitor_log (canopen_frames (sk_frames K) fs),
        Inl (lit ''receiving frame''))"
      using monitor_loop_reads [OF fs, of "monitor_header ifname"] y by (cases y) auto
    then show "\<exists>fs t t' e. reads K s fs t \<and> sk_read K t = (t', Inl e) \<and>
        res = Done (Some t', monitor_header ifname @ monitor_log (canopen_frames (sk_frames K) fs),
          Inl (lit ''receiving frame''))" using fs by blast
  next
    assume "\<exists>fs t t' e. reads K s fs t \<and> sk_read K t = (t', Inl e) \<and>
        res = Done (Some t', monitor_header ifname @ monitor_log (canopen_frames (sk_frames K) fs),
          Inl (lit ''receiving frame''))"
    then show "cli_main W K B (CmdMonitor ifname) = Some res" unfolding main using monitor_loop_reads by fastforce
  qed
  show ?reads using read_monitor_line [of _ "[]"] by (simp add: str_lines_log comp_def)
qed

text \<open>A bus that has a heartbeat, a remote frame and an SDO answer to deliver, and an environment that opens it.\<close>

definition example_traffic :: "example_frame list" where
  "example_traffic = [\<lparr>xf_id = Standard 0x705, xf_data = [5], xf_is_data = True\<rparr>,
     \<lparr>xf_id = Standard 0x590, xf_data = [], xf_is_data = False\<rparr>,
     \<lparr>xf_id = Standard 0x590, xf_data = [0x4B, 0x17, 0x10, 0, 0xE8, 3, 0, 0], xf_is_data = True\<rparr>]"

definition example_env :: "'s \<Rightarrow> ('s, unit, unit) cli_env" where
  "example_env s = \<lparr>ce_linux = True, ce_read_file = (\<lambda>_. Inl []), ce_open = (\<lambda>_. Inr s), ce_read_timeout = (\<lambda>s. (s, Inr ())),
     ce_io_text = (\<lambda>_. []), ce_float_parser = exact_floats, ce_float_printer = exact_printer,
     ce_escapes = (\<lambda>_. False)\<rparr>"

lemma reads_queue:
  "reads (bus_socket E F) w (wd_queue w) (w\<lparr>wd_queue := []\<rparr>)"
proof (induction "wd_queue w" arbitrary: w)
  case Nil
  then have "w\<lparr>wd_queue := []\<rparr> = w" by simp
  then show ?case using Nil reads_none by metis
next
  case (Cons f q)
  have "reads (bus_socket E F) (w\<lparr>wd_queue := q\<rparr>) q (w\<lparr>wd_queue := []\<rparr>)"
    using Cons.hyps(1) [of "w\<lparr>wd_queue := q\<rparr>"] by simp
  moreover have "sk_read (bus_socket E F) w = (w\<lparr>wd_queue := q\<rparr>, Inr f)"
    using Cons.hyps(2) by (simp add: bus_socket_def bus_read_def flip: Cons.hyps(2))
  ultimately show ?case using Cons.hyps(2) by (metis reads_frame)
qed

theorem monitor_log_faithful_witness:
  "\<exists>w. cli_main (example_env (example_bus\<lparr>wd_queue := example_traffic\<rparr>)) (bus_socket (list_node_ops 4) example_frames)
      (list_ops MAX_STRING_LEN) (CmdMonitor (lit ''vcan0'')) =
    Some (Done (Some w, monitor_header (lit ''vcan0'') @
      monitor_log [received_new 0x705 [5], received_new 0x590 [0x4B, 0x17, 0x10, 0, 0xE8, 3, 0, 0]],
      Inl (lit ''receiving frame''))) \<and>
    map read_monitor_line (str_lines (monitor_log [received_new 0x705 [5]])) = [Some (0x705, [5])]"
proof -
  let ?w = "example_bus\<lparr>wd_queue := example_traffic\<rparr>"
  let ?K = "bus_socket (list_node_ops 4) example_frames"
  have op: "ce_linux (example_env ?w)" "ce_open (example_env ?w) (lit ''vcan0'') = Inr ?w" by (simp_all add: example_env_def)
  note run = monitor_log_faithful [OF op, of ?K "list_ops MAX_STRING_LEN"]
  have "reads ?K ?w example_traffic (?w\<lparr>wd_queue := []\<rparr>)" using reads_queue [of _ _ ?w] by simp
  moreover have "sk_read ?K (?w\<lparr>wd_queue := []\<rparr>) = (?w\<lparr>wd_queue := []\<rparr>, Inl ())"
    by (simp add: bus_socket_def bus_read_def)
  moreover have "canopen_frames (sk_frames ?K) example_traffic =
      [received_new 0x705 [5], received_new 0x590 [0x4B, 0x17, 0x10, 0, 0xE8, 3, 0, 0]]"
    by (simp add: canopen_frames_def List.map_filter_def example_traffic_def bus_socket_def example_frames_def frame_cob_id_def)
  ultimately show ?thesis
    using run [THEN conjunct1] run [THEN conjunct2, of "[received_new 0x705 [5]]"]
    by (fastforce simp: received_new_def received_data_def copy_at_def)
qed

end
