(* ===== verification/Sdo_Peer.thy ===== *)
theory Sdo_Peer
  imports Transport
begin

text \<open>
  The SDO client and the host's transactions against any peer, not only a correct server. The client
  never panics and a peer can keep it busy for a bounded number of responses, except with data segments
  that carry no data: those it accepts without end. It does not compare the address of an answer with
  the one it asked for, so a host takes the late answer of an earlier request for the current one.
\<close>

section \<open>Any sequence of responses\<close>

text \<open>The responses are handed to the client until it completes or aborts.\<close>

fun client_feed :: "('b, u8) vec_ops \<Rightarrow> 'b sdo_client \<Rightarrow> sdo_payload list \<Rightarrow>
    ('b sdo_client \<times> sdo_event list) run" where
  "client_feed B c [] = Done (c, [])"
| "client_feed B c (p # ps) =
     run_bind (on_response B c p) (\<lambda>(c', ev).
       case ev of
         Send _ \<Rightarrow> run_map (\<lambda>(c'', evs). (c'', ev # evs)) (client_feed B c' ps)
       | _ \<Rightarrow> Done (c', [ev]))"

definition empty_segment :: "sdo_payload \<Rightarrow> bool" where
  "empty_segment p \<longleftrightarrow> (case decode_data_segment p of Inr seg \<Rightarrow> seg_data seg = [] | Inl _ \<Rightarrow> False)"

text \<open>How many requests a state can still send when no segment is empty.\<close>

fun client_budget :: "('b, u8) vec_ops \<Rightarrow> 'b client_state \<Rightarrow> nat" where
  "client_budget B Idle = 0"
| "client_budget B DownloadExpedited = 0"
| "client_budget B (DownloadInit data len) = max 1 ((len + 6) div 7)"
| "client_budget B (DownloadSeg data len pos t) = (len - pos + 6) div 7"
| "client_budget B (UploadInit dt) = Suc MAX_STRING_LEN"
| "client_budget B (UploadSeg dt buf t) = MAX_STRING_LEN - v_len B buf"

fun uploading :: "'b client_state \<Rightarrow> bool" where
  "uploading (UploadInit dt) \<longleftrightarrow> True"
| "uploading (UploadSeg dt buf t) \<longleftrightarrow> True"
| "uploading _ \<longleftrightarrow> False"

context byte_vec
begin

lemma on_response_upload_budget:
  assumes "on_response V c p = Done (c', Send q)" and "uploading (cl_state c)" and "N = MAX_STRING_LEN"
  shows "uploading (cl_state c')"
    and "Suc (client_budget V (cl_state c')) \<le>
      client_budget V (cl_state c) + (if empty_segment p then 1 else 0)"
proof -
  have "uploading (cl_state c') \<and> Suc (client_budget V (cl_state c')) \<le>
      client_budget V (cl_state c) + (if empty_segment p then 1 else 0)"
  proof (cases "cl_state c")
    case (UploadInit dt)
    then show ?thesis using assms(1)
      by (auto simp: on_response_def on_upload_init_def Let_def slice_new split: sum.splits)
  next
    case (UploadSeg dt buf t)
    then obtain seg buf' where s: "decode_data_segment p = Inr seg" "v_extend V buf (seg_data seg) = Some buf'"
      "cl_state c' = UploadSeg dt buf' (\<not> t)"
      using assms(1) by (auto simp: on_response_def on_upload_seg_def Let_def split: sum.splits option.splits if_splits)
    then have "v_len V buf' = v_len V buf + length (seg_data seg)" "v_len V buf' \<le> MAX_STRING_LEN"
      using slice_extend [OF s(2)] extend_bound [OF s(2)] assms(3) by simp_all
    then show ?thesis using s UploadSeg by (cases "seg_data seg") (auto simp: empty_segment_def)
  qed (use assms(2) in simp_all)
  then show "uploading (cl_state c')" "Suc (client_budget V (cl_state c')) \<le>
      client_budget V (cl_state c) + (if empty_segment p then 1 else 0)" by blast+
qed

end

lemma budget_step: "0 < d \<Longrightarrow> Suc ((d - min d 7 + 6) div 7) \<le> (d + 6) div (7 :: nat)"
  by (cases "d \<le> 7") (auto simp: min_def le_div_geq)

lemma on_response_download_budget:
  assumes "on_response B c p = Done (c', Send q)" and "\<not> uploading (cl_state c)" and "wf_client c"
  shows "\<not> uploading (cl_state c')"
    and "Suc (client_budget B (cl_state c')) \<le> client_budget B (cl_state c)"
proof -
  have "\<not> uploading (cl_state c') \<and> Suc (client_budget B (cl_state c')) \<le> client_budget B (cl_state c)"
  proof (cases "cl_state c")
    case (DownloadInit data len)
    then have wf: "length data = MAX_STRING_LEN" "len \<le> MAX_STRING_LEN" using assms(3) by (auto simp: wf_client_def)
    obtain r where r: "send_download_segment (c\<lparr>cl_state := Idle\<rparr>) data len 0 False =
        Done (c\<lparr>cl_state := DownloadSeg data len (min len 7) False\<rparr>, Send r)"
      using send_download_segment_eq [OF wf, of 0 "c\<lparr>cl_state := Idle\<rparr>" False] by auto
    have "cl_state c' = DownloadSeg data len (min len 7) False"
      using assms(1) DownloadInit
      by (auto simp: on_response_def on_download_init_def Let_def r split: sum.splits)
    then show ?thesis using DownloadInit by auto
  next
    case (DownloadSeg data len pos t)
    then have wf: "length data = MAX_STRING_LEN" "len \<le> MAX_STRING_LEN" "pos \<le> len"
      using assms(3) by (auto simp: wf_client_def)
    obtain r where r: "send_download_segment (c\<lparr>cl_state := Idle\<rparr>) data len pos (\<not> t) =
        Done (c\<lparr>cl_state := DownloadSeg data len (pos + min (len - pos) 7) (\<not> t)\<rparr>, Send r)"
      using send_download_segment_eq [OF wf, of "c\<lparr>cl_state := Idle\<rparr>" "\<not> t"] by auto
    have "cl_state c' = DownloadSeg data len (pos + min (len - pos) 7) (\<not> t)" "pos < len"
      using assms(1) DownloadSeg
      by (auto simp: on_response_def on_download_seg_def Let_def r split: sum.splits if_splits)
    moreover have "Suc ((len - (pos + min (len - pos) 7) + 6) div 7) \<le> (len - pos + 6) div 7"
      using budget_step [of "len - pos"] \<open>pos < len\<close> by simp
    ultimately show ?thesis using DownloadSeg by (simp del: diff_diff_left)
  qed (use assms(1,2) in \<open>auto simp: on_response_def on_download_expedited_def Let_def split: sum.splits\<close>)
  then show "\<not> uploading (cl_state c')" "Suc (client_budget B (cl_state c')) \<le> client_budget B (cl_state c)"
    by blast+
qed

text \<open>One response, and then the rest: the client is well-formed, and each request it sends costs budget.\<close>

lemma client_feed_step:
  assumes "wf_client c"
  obtains c' ev where "on_response B c p = Done (c', ev)" "wf_client c'" "cl_node c' = cl_node c"
    "(\<exists>q. ev = Send q) \<longleftrightarrow> cl_is_busy c'"
proof -
  obtain c' ev where s: "on_response B c p = Done (c', ev)" "wf_client c'" "cl_node c' = cl_node c"
    "case ev of Send q \<Rightarrow> cl_is_busy c' \<and> length q = 8 | _ \<Rightarrow> \<not> cl_is_busy c'"
    using on_response_post [OF assms, of B p] by (auto simp: client_post_def)
  then have "(\<exists>q. ev = Send q) \<longleftrightarrow> cl_is_busy c'" by (cases ev) auto
  with s(1-3) show ?thesis by (rule that)
qed

lemma client_feed_bounded:
  assumes "byte_vec B MAX_STRING_LEN" and "wf_client c"
  shows "\<exists>c' evs. client_feed B c ps = Done (c', evs) \<and> wf_client c' \<and>
    (cl_is_busy c' \<longrightarrow> length ps \<le> client_budget B (cl_state c) +
      (if uploading (cl_state c) then length (filter empty_segment ps) else 0))"
  using assms(2)
proof (induction ps arbitrary: c)
  case Nil
  then show ?case by simp
next
  case (Cons p ps)
  obtain c1 ev where s: "on_response B c p = Done (c1, ev)" "wf_client c1"
    "(\<exists>q. ev = Send q) \<longleftrightarrow> cl_is_busy c1"
    using client_feed_step [OF Cons.prems] by metis
  show ?case
  proof (cases ev)
    case (Send q)
    obtain c' evs where r: "client_feed B c1 ps = Done (c', evs)" "wf_client c'"
      "cl_is_busy c' \<longrightarrow> length ps \<le> client_budget B (cl_state c1) +
        (if uploading (cl_state c1) then length (filter empty_segment ps) else 0)"
      using Cons.IH [OF s(2)] by blast
    show ?thesis
    proof (cases "uploading (cl_state c)")
      case True
      then show ?thesis
        using byte_vec.on_response_upload_budget [OF assms(1) s(1) [unfolded Send]] r s(1) Send by auto
    next
      case False
      then show ?thesis
        using on_response_download_budget [OF s(1) [unfolded Send] False Cons.prems] r s(1) Send by auto
    qed
  qed (use s in auto)
qed

section \<open>Empty segments\<close>

text \<open>The data segment that carries nothing and is not the last.\<close>

definition empty_segment_frame :: "bool \<Rightarrow> sdo_payload" where
  "empty_segment_frame t = segment_command 7 t False # zeros 7"

lemma decode_empty_segment:
  "decode_data_segment (empty_segment_frame t) = Inr \<lparr>seg_toggle = t, seg_last = False, seg_data = []\<rparr>"
  using decode_encode_data_segment [of "[]" t False "empty_segment_frame t"]
  by (simp add: encode_data_segment_eq empty_segment_frame_def)

text \<open>A peer that starts a segmented upload and then sends empty segments, with the toggle bit right.\<close>

definition endless_reply :: "nat \<Rightarrow> sdo_payload" where
  "endless_reply k =
     (if k = 0 then encode_upload_initiate_segmented_response (Address 0 0) 0
      else empty_segment_frame (even k))"

definition endless_peer :: "node_id \<Rightarrow> (nat, example_frame, unit) can_socket" where
  "endless_peer n = \<lparr>sk_frames = example_frames, sk_write = (\<lambda>s f. (s, Inr ())),
     sk_read = (\<lambda>k. (Suc k, Inr \<lparr>xf_id = Standard (response_cob_id n), xf_data = endless_reply k,
       xf_is_data = True\<rparr>))\<rparr>"

lemma length_endless_reply: "length (endless_reply k) = 8"
  by (simp add: endless_reply_def empty_segment_frame_def zeros_def)

lemma endless_recv:
  "recv_on (endless_peer n) (response_cob_id n) k =
    Some (Suc k, Inr (received_new (response_cob_id n) (endless_reply k)))"
proof -
  have "recv (endless_peer n) k = Some (Suc k, Inr (received_new (response_cob_id n) (endless_reply k)))"
    by (subst recv.simps) (simp add: endless_peer_def example_frames_def frame_cob_id_def)
  then show ?thesis by (subst recv_on.simps) simp
qed

text \<open>The state of the client after \<open>k\<close> replies of the endless peer.\<close>

definition endless_client :: "('b, u8) vec_ops \<Rightarrow> node_id \<Rightarrow> nat \<Rightarrow> 'b sdo_client \<Rightarrow> bool" where
  "endless_client B n k c \<longleftrightarrow> cl_node c = n \<and>
     (if k = 0 then \<exists>dt. cl_state c = UploadInit dt
      else \<exists>dt buf. cl_state c = UploadSeg dt buf (even k) \<and> v_slice B buf = [])"

context byte_vec
begin

lemma endless_step:
  assumes "endless_client V n k c"
  shows "\<exists>c' p. on_response V c (endless_reply k) = Done (c', Send p) \<and> length p = 8 \<and>
    endless_client V n (Suc k) c'"
proof (cases k)
  case 0
  then obtain dt where dt: "cl_state c = UploadInit dt" "cl_node c = n"
    using assms by (auto simp: endless_client_def)
  then have "on_response V c (endless_reply k) = Done (c\<lparr>cl_state := UploadSeg dt (v_new V) False\<rparr>,
      Send (encode_upload_segment_request False))"
    using 0 by (simp add: on_response_def Let_def on_upload_init_def endless_reply_def)
  then show ?thesis using 0 dt(2) by (simp add: endless_client_def slice_new)
next
  case (Suc j)
  then obtain dt buf where st: "cl_state c = UploadSeg dt buf (even k)" "cl_node c = n" "v_slice V buf = []"
    using assms by (auto simp: endless_client_def)
  obtain buf' where buf': "v_extend V buf [] = Some buf'" "v_slice V buf' = []"
    using extend_room [of buf "[]"] st(3) by auto
  have "on_response V c (endless_reply k) = Done (c\<lparr>cl_state := UploadSeg dt buf' (\<not> even k)\<rparr>,
      Send (encode_upload_segment_request (\<not> even k)))"
    using Suc st buf'
    by (simp add: on_response_def Let_def on_upload_seg_def endless_reply_def decode_empty_segment
        decode_segment_not_abort [OF decode_empty_segment])
  then show ?thesis using Suc st(2) buf'(2) by (simp add: endless_client_def)
qed

lemma endless_transaction:
  assumes "transaction K B finish c p k = Some y"
  shows "K = endless_peer n \<Longrightarrow> B = V \<Longrightarrow> device_id n \<Longrightarrow> endless_client V n k c \<Longrightarrow> length p = 8 \<Longrightarrow> False"
proof (induction rule: transaction.raw_induct [OF _ assms, consumes 0, case_names step])
  case (step f K B finish c p k y)
  have c: "cl_node c = n" using step.prems(4) by (simp add: endless_client_def)
  have "request_cob_id n \<le> 0x7FF" by (rule request_cob_id_cases(3) [OF step.prems(3)])
  then have send: "send_frame K (cl_request_cob_id c) p k = (k, Inr ())"
    using step.prems(1,5) c
    by (simp add: send_frame_def endless_peer_def frame_from_def example_frames_def cl_request_cob_id_def)
  obtain c' q where r: "on_response V c (endless_reply k) = Done (c', Send q)" "length q = 8"
    "endless_client V n (Suc k) c'"
    using endless_step [OF step.prems(4)] by blast
  have "f K B finish c' q (Suc k) = Some y"
    using step.hyps unfolding step.prems(1,2)
    by (simp add: send [unfolded step.prems(1)] endless_recv r(1) c cl_response_cob_id_def
        received_new_8 [OF length_endless_reply])
  then show ?case using step.IH step.prems(1-3) r(2,3) by blast
qed

end

section \<open>Late answers\<close>

text \<open>The frame with which a device's server answers an expedited read of \<open>a\<close> that gives \<open>v\<close>.\<close>

definition read_reply :: "'f frame_ops \<Rightarrow> node_id \<Rightarrow> address \<Rightarrow> od_value \<Rightarrow> 'f \<Rightarrow> bool" where
  "read_reply F n a v g \<longleftrightarrow>
     (case encode_upload_expedited_response a v of
        Inr resp \<Rightarrow> frame_from F (response_cob_id n) resp = Some g | Inl _ \<Rightarrow> False)"

definition expedited :: "od_value \<Rightarrow> bool" where
  "expedited v \<longleftrightarrow> wf_value v \<and> 1 \<le> value_size v \<and> value_size v \<le> 4"

lemma expedited_response:
  assumes "expedited v"
  shows "encode_upload_expedited_response a v = Inr (expedited_frame 0x40 a (encode_payload v))"
    and "length (expedited_frame 0x40 a (encode_payload v)) = 8"
    and "on_response B c (expedited_frame 0x40 a (encode_payload v)) =
      (if cl_state c = UploadInit (data_type_of v) then Done (c\<lparr>cl_state := Idle\<rparr>, Complete (Some v))
       else on_response B c (expedited_frame 0x40 a (encode_payload v)))"
proof -
  have v: "wf_value v" "1 \<le> value_size v" "value_size v \<le> 4" using assms by (simp_all add: expedited_def)
  then have len: "length (encode_payload v) = value_size v" by (simp add: length_encode_payload)
  show enc: "encode_upload_expedited_response a v = Inr (expedited_frame 0x40 a (encode_payload v))"
    using v by (simp add: encode_expedited_eq)
  show "length (expedited_frame 0x40 a (encode_payload v)) = 8"
    using v len by (simp add: length_expedited_frame)
  show "on_response B c (expedited_frame 0x40 a (encode_payload v)) =
      (if cl_state c = UploadInit (data_type_of v) then Done (c\<lparr>cl_state := Idle\<rparr>, Complete (Some v))
       else on_response B c (expedited_frame 0x40 a (encode_payload v)))"
    using decode_encode_upload_expedited [OF v enc] expedited_not_abort [of "encode_payload v" a] v len
    by (auto simp: on_response_def Let_def on_upload_init_def)
qed

context device_bus
begin

text \<open>The request for an object whose value is expedited, and the frame that answers it.\<close>

lemma send_read_request:
  assumes "serving E (wd_node w)" and "wd_noise w = []"
    and "od_read (no_od E) (nd_od (wd_node w)) a = Inr u" and "expedited u"
  shows "\<exists>g. send_frame (bus_socket E F) (request_cob_id (nd_id (wd_node w))) (encode_upload_request a) w =
      (w\<lparr>wd_queue := wd_queue w @ [g]\<rparr>, Inr ()) \<and> read_reply F (nd_id (wd_node w)) a u g"
proof -
  let ?nd = "wd_node w" and ?n = "nd_id (wd_node w)"
  have dev: "device_id ?n" using assms(1) by (simp add: serving_def)
  note ids = request_cob_id_cases [OF dev]
  note ur = expedited_response [OF assms(4)]
  let ?resp = "expedited_frame 0x40 a (encode_payload u)"
  have h: "srv_handle (no_od E) (no_bytes E) (nd_od ?nd) (nd_sdo ?nd) (encode_upload_request a) =
      Done (nd_od ?nd, nd_sdo ?nd, Some ?resp)"
    using assms(3,4) ur(1) by (simp add: srv_handle_dispatch(2) on_upload_initiate_def expedited_def)
  have p8: "length (encode_upload_request a) = 8" by (simp add: frame_simps)
  note s = serve_request [OF assms(1) p8 h]
  obtain f where f: "frame_from F (request_cob_id ?n) (encode_upload_request a) = Some f"
    "frame_cob_id F f = Some (request_cob_id ?n)" "fr_data F f = encode_upload_request a"
    using frame_from_ok [OF ids(3), of "encode_upload_request a"] p8 by auto
  obtain g where g: "frame_from F (response_cob_id ?n) ?resp = Some g"
    using frame_from_ok [OF ids(4), of ?resp] ur(2) by auto
  have "send_frame (bus_socket E F) (request_cob_id ?n) (encode_upload_request a) w =
      (w\<lparr>wd_queue := wd_queue w @ [g]\<rparr>, Inr ())"
    using f g s assms(2) by (cases w) (simp add: send_frame_def bus_socket_def bus_write_def)
  then show ?thesis using g ur(1) by (auto simp: read_reply_def)
qed

lemma read_reply_frame:
  assumes "read_reply F n b v g" and "expedited v"
  shows "fr_is_data F g" and "frame_cob_id F g = Some (response_cob_id n)"
    and "received_payload (received_new c (fr_data F g)) = expedited_frame 0x40 b (encode_payload v)"
proof -
  have "frame_from F (response_cob_id n) (expedited_frame 0x40 b (encode_payload v)) = Some g"
    using assms(1) expedited_response(1) [OF assms(2), of b] by (simp add: read_reply_def)
  then show "fr_is_data F g" "frame_cob_id F g = Some (response_cob_id n)"
    "received_payload (received_new c (fr_data F g)) = expedited_frame 0x40 b (encode_payload v)"
    using frame_from_Some received_new_8 [OF expedited_response(2) [OF assms(2)]] by auto
qed

text \<open>A read whose queue already holds an answer for another object.\<close>

lemma late_answer:
  assumes "serving E (wd_node w)" and "wd_queue w = [g]" and "wd_noise w = []"
    and "read_reply F (nd_id (wd_node w)) b v g" and "expedited v"
    and "od_read (no_od E) (nd_od (wd_node w)) a = Inr u" and "expedited u"
  shows "\<exists>g'. sdo_read (bus_socket E F) (no_bytes E) (nd_id (wd_node w)) a (data_type_of v) w =
      Some (Done (w\<lparr>wd_queue := [g']\<rparr>, Inr v)) \<and> read_reply F (nd_id (wd_node w)) a u g'"
proof -
  let ?n = "nd_id (wd_node w)"
  let ?cl = "\<lparr>cl_node = ?n, cl_state = UploadInit (data_type_of v)\<rparr> :: 'b sdo_client"
  obtain g' where g': "send_frame (bus_socket E F) (request_cob_id ?n) (encode_upload_request a) w =
      (w\<lparr>wd_queue := [g, g']\<rparr>, Inr ())" "read_reply F ?n a u g'"
    using send_read_request [OF assms(1,3,6,7)] assms(2) by auto
  note g = read_reply_frame [OF assms(4,5)]
  have "recv (bus_socket E F) (w\<lparr>wd_queue := [g, g']\<rparr>) = Some (w\<lparr>wd_queue := [g']\<rparr>,
      Inr (received_new (response_cob_id ?n) (fr_data F g)))"
    using g(1,2) by (subst recv.simps) (simp add: bus_socket_def bus_read_def)
  then have rcv: "recv_on (bus_socket E F) (response_cob_id ?n) (w\<lparr>wd_queue := [g, g']\<rparr>) =
      Some (w\<lparr>wd_queue := [g']\<rparr>, Inr (received_new (response_cob_id ?n) (fr_data F g)))"
    by (subst recv_on.simps) simp
  have "transaction (bus_socket E F) (no_bytes E) (\<lambda>v. case v of Some x \<Rightarrow> Inr x | None \<Rightarrow> Inl NoValue) ?cl
      (encode_upload_request a) w = Some (Done (w\<lparr>wd_queue := [g']\<rparr>, Inr v))"
    using g'(1) rcv g(3)
    by (subst transaction.simps)
      (simp add: cl_request_cob_id_def cl_response_cob_id_def expedited_response(3) [OF assms(5)])
  then show ?thesis using g'(2) by (auto simp: sdo_read_def client_read_def sdo_client_new_def)
qed

end

section \<open>Properties\<close>

text \<open>C9: No peer can panic an SDO client, and a peer can keep it busy only with empty data segments.
  Whatever responses arrive, a read is over after at most 33 of them that are not empty segments, and
  a write after at most five responses of any kind.\<close>

theorem sdo_client_bounded:
  assumes "byte_vec B MAX_STRING_LEN" and "wf_value v"
  shows "(\<exists>c' evs. client_feed B (fst (client_read (sdo_client_new n) a dt)) ps = Done (c', evs) \<and>
      (cl_is_busy c' \<longrightarrow> length ps \<le> 33 + length (filter empty_segment ps))) \<and>
    (\<exists>c p c' evs. client_write (sdo_client_new n) a v = Done (c, p) \<and> client_feed B c ps = Done (c', evs) \<and>
      (cl_is_busy c' \<longrightarrow> length ps \<le> 5))"
proof
  show "\<exists>c' evs. client_feed B (fst (client_read (sdo_client_new n) a dt)) ps = Done (c', evs) \<and>
      (cl_is_busy c' \<longrightarrow> length ps \<le> 33 + length (filter empty_segment ps))"
    using client_feed_bounded [OF assms(1), of "fst (client_read (sdo_client_new n) a dt)" ps]
    by (auto simp: client_read_def sdo_client_new_def wf_client_def)
  obtain c :: "'a sdo_client" and p where c: "client_write (sdo_client_new n) a v = Done (c, p)" "wf_client c"
    using client_write_post [OF assms(2), of "sdo_client_new n" a] by blast
  have "\<not> uploading (cl_state c) \<and> client_budget B (cl_state c) \<le> 5"
    using c(1) value_size_le [OF assms(2)] div_le_mono [of "value_size v + 6" 38 7]
    by (auto simp: client_write_def Let_def run_bind_eq_Done_iff split: if_splits)
  then show "\<exists>c p c' evs. client_write (sdo_client_new n) a v = Done (c, p) \<and>
      client_feed B c ps = Done (c', evs) \<and> (cl_is_busy c' \<longrightarrow> length ps \<le> 5)"
    using client_feed_bounded [OF assms(1) c(2), of ps] c(1) by fastforce
qed

theorem sdo_client_bounded_witness:
  "\<exists>c' evs. client_feed (list_ops MAX_STRING_LEN)
      (fst (client_read (sdo_client_new (NodeId 0x10)) (Address 0x1000 0) DT_Unsigned32))
      (replicate 34 (zeros 8)) = Done (c', evs) \<and> \<not> cl_is_busy c'"
proof -
  have "filter empty_segment (replicate 34 (zeros 8)) = []"
    by (simp add: empty_segment_def decode_data_segment_def zeros_8)
  then show ?thesis
    using sdo_client_bounded [OF bytes.byte_vec_axioms [of MAX_STRING_LEN], of "Boolean True" "NodeId 0x10"
        "Address 0x1000 0" DT_Unsigned32 "replicate 34 (zeros 8)"]
    by fastforce
qed

text \<open>C34: A device can make the host's read hang although every receive returns at once: against a peer that
  answers with the start of a segmented upload and then with empty segments, \<open>sdo_read\<close> does not return,
  whatever object is read and as whatever type. A read timeout on the socket does not help.\<close>

theorem sdo_read_never_returns:
  assumes "byte_vec B MAX_STRING_LEN" and "device_id n"
  shows "sdo_read (endless_peer n) B n a dt 0 = None"
proof (rule ccontr)
  assume "sdo_read (endless_peer n) B n a dt 0 \<noteq> None"
  then obtain y where "transaction (endless_peer n) B (\<lambda>v. case v of Some x \<Rightarrow> Inr x | None \<Rightarrow> Inl NoValue)
      \<lparr>cl_node = n, cl_state = UploadInit dt\<rparr> (encode_upload_request a) 0 = Some y"
    by (auto simp: sdo_read_def client_read_def sdo_client_new_def)
  from byte_vec.endless_transaction [OF assms(1) this refl refl assms(2)]
  show False by (simp add: endless_client_def frame_simps)
qed

theorem sdo_read_never_returns_witness:
  "sdo_read (endless_peer (NodeId 5)) (list_ops MAX_STRING_LEN) (NodeId 5) (Address 0x1000 0) DT_Unsigned32 0 = None"
  by (rule sdo_read_never_returns [OF bytes.byte_vec_axioms]) (simp add: device_id_def)

text \<open>C35: A late answer is taken for the current one. When the answer to an earlier read of \<open>b\<close> arrives
  after its timeout, the next read of an object \<open>a\<close> with a value of the same type returns the value of
  \<open>b\<close> and leaves its own answer in the queue, and the read of \<open>c\<close> after it returns the value of \<open>a\<close>.\<close>

theorem late_answer_misattributed:
  assumes "device_bus E N F" and "serving E (wd_node w)" and "wd_queue w = [g]" and "wd_noise w = []"
    and "read_reply F (nd_id (wd_node w)) b v g" and "expedited v"
    and "od_read (no_od E) (nd_od (wd_node w)) a = Inr u" and "expedited u" and "data_type_of u = data_type_of v"
    and "od_read (no_od E) (nd_od (wd_node w)) c = Inr x" and "expedited x"
  shows "\<exists>w1 w2. sdo_read (bus_socket E F) (no_bytes E) (nd_id (wd_node w)) a (data_type_of v) w =
      Some (Done (w1, Inr v)) \<and>
    sdo_read (bus_socket E F) (no_bytes E) (nd_id (wd_node w)) c (data_type_of v) w1 = Some (Done (w2, Inr u))"
proof -
  obtain g1 where w1: "sdo_read (bus_socket E F) (no_bytes E) (nd_id (wd_node w)) a (data_type_of v) w =
      Some (Done (w\<lparr>wd_queue := [g1]\<rparr>, Inr v))" "read_reply F (nd_id (wd_node w)) a u g1"
    using device_bus.late_answer [OF assms(1-8)] by blast
  have "\<exists>w2. sdo_read (bus_socket E F) (no_bytes E) (nd_id (wd_node w)) c (data_type_of u) (w\<lparr>wd_queue := [g1]\<rparr>) =
      Some (Done (w2, Inr u))"
    using device_bus.late_answer [OF assms(1), of "w\<lparr>wd_queue := [g1]\<rparr>" g1 a u c x] w1(2) assms by auto
  then show ?thesis using w1(1) assms(9) by auto
qed

theorem late_answer_misattributed_witness:
  "\<exists>w1 w2. sdo_read (bus_socket (list_node_ops 4) example_frames) (list_ops MAX_STRING_LEN) (NodeId 0x10)
      (Address 0x1017 0) DT_Unsigned16
      (example_bus\<lparr>wd_queue := [\<lparr>xf_id = Standard 0x590,
         xf_data = expedited_frame 0x40 (Address 0x2000 0) (encode_payload (Unsigned16 7)), xf_is_data = True\<rparr>],
        wd_noise := []\<rparr>) = Some (Done (w1, Inr (Unsigned16 7))) \<and>
    sdo_read (bus_socket (list_node_ops 4) example_frames) (list_ops MAX_STRING_LEN) (NodeId 0x10)
      (Address 0x1017 0) DT_Unsigned16 w1 = Some (Done (w2, Inr (Unsigned16 1000)))"
proof -
  let ?g = "\<lparr>xf_id = Standard 0x590,
    xf_data = expedited_frame 0x40 (Address 0x2000 0) (encode_payload (Unsigned16 7)), xf_is_data = True\<rparr>"
  let ?w = "example_bus\<lparr>wd_queue := [?g], wd_noise := []\<rparr>"
  have exp: "expedited (Unsigned16 7)" "expedited (Unsigned16 1000)"
    by (simp_all add: expedited_def value_size_def type_size_def)
  have id: "nd_id (wd_node example_bus) = NodeId 0x10" by (simp add: example_bus_def node_new_def)
  have od: "od_read (assoc_ops 4) (nd_od (wd_node example_bus)) (Address 0x1017 0) = Inr (Unsigned16 1000)"
    by (simp add: example_bus_def node_new_def od_read_def example_od_def)
  have "read_reply example_frames (NodeId 0x10) (Address 0x2000 0) (Unsigned16 7) ?g"
    using expedited_response(1,2) [OF exp(1), of "Address 0x2000 0"]
    by (simp add: read_reply_def frame_from_def example_frames_def response_cob_id_def del: encode_payload.simps)
  then show ?thesis
    using late_answer_misattributed [OF list_bus.device_bus_axioms [of 4], of ?w ?g "Address 0x2000 0" "Unsigned16 7"
        "Address 0x1017 0" "Unsigned16 1000" "Address 0x1017 0" "Unsigned16 1000"] example_bus_serves(1) id od exp
    by (simp del: encode_payload.simps)
qed

end
