(* ===== verification/Async_Transport.thy ===== *)
theory Async_Transport
  imports Sdo_Peer
begin

text \<open>
  \<^verbatim>\<open>host/src/async_transport.rs\<close>: the transactions as futures. A future is modelled by the state it is
  left in at an \<open>await\<close>; polling it runs it to the next one. One task alone computes what the blocking
  transport computes; several tasks on one socket interleave at their awaits in any order, which no
  order of theirs can turn into a panic, but which can swap or lose their answers.
\<close>

section \<open>The socket\<close>

text \<open>An operation that is not ready is \<open>None\<close>.\<close>

record ('s, 'f, 'e) async_socket =
  as_frames :: "'f frame_ops"
  as_write :: "'s \<Rightarrow> 'f \<Rightarrow> ('s \<times> ('e + unit)) option"
  as_read :: "'s \<Rightarrow> ('s \<times> ('e + 'f)) option"

definition async_send :: "('s, 'f, 'e) async_socket \<Rightarrow> u16 \<Rightarrow> u8 list \<Rightarrow> 's \<Rightarrow>
    ('s \<times> ('e io_error + unit)) option" where
  "async_send K cob_id data s =
     (case frame_from (as_frames K) cob_id data of
        None \<Rightarrow> Some (s, Inl InvalidInput)
      | Some f \<Rightarrow> map_option (\<lambda>(s', r). (s', map_sum SocketError id r)) (as_write K s f))"

text \<open>
  One frame in the loops of \<open>recv\<close> and \<open>recv_on\<close>: an error, a frame that the loop skips (\<open>Inr None\<close>),
  or the frame it returns.
\<close>

definition async_recv :: "('s, 'f, 'e) async_socket \<Rightarrow> 's \<Rightarrow> ('s \<times> ('e io_error + received option)) option" where
  "async_recv K s =
     map_option (\<lambda>(s', r). (s',
       case r of
         Inl e \<Rightarrow> Inl (SocketError e)
       | Inr f \<Rightarrow>
           if \<not> fr_is_data (as_frames K) f then Inr None
           else (case frame_cob_id (as_frames K) f of
                   None \<Rightarrow> Inr None
                 | Some c \<Rightarrow> Inr (Some (received_new c (fr_data (as_frames K) f)))))) (as_read K s)"

definition async_recv_on :: "('s, 'f, 'e) async_socket \<Rightarrow> u16 \<Rightarrow> 's \<Rightarrow>
    ('s \<times> ('e io_error + received option)) option" where
  "async_recv_on K cob_id s =
     map_option (\<lambda>(s', r). (s',
       case r of
         Inr (Some f) \<Rightarrow> if rc_cob_id f = cob_id then Inr (Some f) else Inr None
       | _ \<Rightarrow> r)) (async_recv K s)"

definition async_send_nmt :: "('s, 'f, 'e) async_socket \<Rightarrow> nmt_command \<Rightarrow> node_id \<Rightarrow> 's \<Rightarrow>
    ('s \<times> ('e io_error + unit)) option" where
  "async_send_nmt K c target s = async_send K NMT_COMMAND_COB_ID (encode_command c target) s"

section \<open>Transactions\<close>

text \<open>
  The future of a transaction: about to send a request, waiting for its answer, or ready. As in the
  blocking transport, \<open>finish\<close> is what a completed transfer gives.
\<close>

datatype ('b, 'e, 'r) sdo_task =
    Sending "od_value option \<Rightarrow> 'e sdo_error + 'r" "'b sdo_client" sdo_payload
  | Receiving "od_value option \<Rightarrow> 'e sdo_error + 'r" "'b sdo_client"
  | Finished "'e sdo_error + 'r"

fun poll_task :: "('s, 'f, 'e) async_socket \<Rightarrow> ('b, u8) vec_ops \<Rightarrow> ('b, 'e, 'r) sdo_task \<Rightarrow> 's \<Rightarrow>
    ('s \<times> ('b, 'e, 'r) sdo_task) run option" where
  "poll_task K B (Sending finish cl request) s =
     map_option (\<lambda>(s', r). Done (s',
       case r of Inl e \<Rightarrow> Finished (Inl (SdoIo e)) | Inr _ \<Rightarrow> Receiving finish cl))
       (async_send K (cl_request_cob_id cl) request s)"
| "poll_task K B (Receiving finish cl) s =
     map_option (\<lambda>(s', r).
       case r of
         Inl e \<Rightarrow> Done (s', Finished (Inl (SdoIo e)))
       | Inr None \<Rightarrow> Done (s', Receiving finish cl)
       | Inr (Some reply) \<Rightarrow>
           run_map (\<lambda>(cl', ev). (s',
             case ev of
               Send nxt \<Rightarrow> Sending finish cl' nxt
             | Complete v \<Rightarrow> Finished (finish v)
             | Aborted code \<Rightarrow> Finished (Inl (SdoAborted code))))
             (on_response B cl (received_payload reply)))
       (async_recv_on K (cl_response_cob_id cl) s)"
| "poll_task K B (Finished r) s = None"

definition async_sdo_read :: "node_id \<Rightarrow> address \<Rightarrow> data_type \<Rightarrow> ('b, 'e, od_value) sdo_task" where
  "async_sdo_read n a dt =
     (case client_read (sdo_client_new n) a dt of
        (cl, request) \<Rightarrow> Sending (\<lambda>v. case v of Some x \<Rightarrow> Inr x | None \<Rightarrow> Inl NoValue) cl request)"

definition async_sdo_write :: "node_id \<Rightarrow> address \<Rightarrow> od_value \<Rightarrow> ('b, 'e, unit) sdo_task run" where
  "async_sdo_write n a v =
     run_map (\<lambda>(cl, request). Sending (\<lambda>_. Inr ()) cl request) (client_write (sdo_client_new n) a v)"

section \<open>One task alone\<close>

text \<open>A task that is polled until it is ready; an operation that is never ready never returns.\<close>

partial_function (option) run_task ::
  "('s, 'f, 'e) async_socket \<Rightarrow> ('b, u8) vec_ops \<Rightarrow> ('b, 'e, 'r) sdo_task \<Rightarrow> 's \<Rightarrow>
   ('s \<times> ('e sdo_error + 'r)) run option" where
  "run_task K B t s =
     (case t of
        Finished r \<Rightarrow> Some (Done (s, r))
      | _ \<Rightarrow>
          Option.bind (poll_task K B t s) (\<lambda>res.
            case res of Panic \<Rightarrow> Some Panic | Done (s', t') \<Rightarrow> run_task K B t' s'))"

text \<open>A blocking socket as an asynchronous one whose operations are always ready.\<close>

definition async_of :: "('s, 'f, 'e) can_socket \<Rightarrow> ('s, 'f, 'e) async_socket" where
  "async_of K = \<lparr>as_frames = sk_frames K, as_write = (\<lambda>s f. Some (sk_write K s f)),
     as_read = (\<lambda>s. Some (sk_read K s))\<rparr>"

lemma run_task_Finished [simp]: "run_task K B (Finished r) s = Some (Done (s, r))"
  by (subst run_task.simps) simp

lemma run_task_Sending:
  "run_task (async_of K) B (Sending finish cl p) s =
     (case send_frame K (cl_request_cob_id cl) p s of
        (s', Inl e) \<Rightarrow> Some (Done (s', Inl (SdoIo e)))
      | (s', Inr _) \<Rightarrow> run_task (async_of K) B (Receiving finish cl) s')"
  by (subst run_task.simps)
    (auto simp: async_send_def async_of_def send_frame_def split: option.split prod.split sum.split)

text \<open>What follows a received answer.\<close>

definition after_reply :: "('s, 'f, 'e) can_socket \<Rightarrow> ('b, u8) vec_ops \<Rightarrow> (od_value option \<Rightarrow> 'e sdo_error + 'r) \<Rightarrow>
    'b sdo_client \<Rightarrow> 's \<times> ('e io_error + received) \<Rightarrow>
    ('b sdo_client \<Rightarrow> sdo_payload \<Rightarrow> 's \<Rightarrow> ('s \<times> ('e sdo_error + 'r)) run option) \<Rightarrow>
    ('s \<times> ('e sdo_error + 'r)) run option" where
  "after_reply K B finish cl = (\<lambda>(s, r) continue.
     case r of
       Inl e \<Rightarrow> Some (Done (s, Inl (SdoIo e)))
     | Inr reply \<Rightarrow>
         (case on_response B cl (received_payload reply) of
            Panic \<Rightarrow> Some Panic
          | Done (cl', ev) \<Rightarrow>
              (case ev of
                 Send nxt \<Rightarrow> continue cl' nxt s
               | Complete v \<Rightarrow> Some (Done (s, finish v))
               | Aborted code \<Rightarrow> Some (Done (s, Inl (SdoAborted code))))))"

lemma transaction_after_reply:
  "transaction K B finish cl p s =
     (case send_frame K (cl_request_cob_id cl) p s of
        (s1, Inl e) \<Rightarrow> Some (Done (s1, Inl (SdoIo e)))
      | (s1, Inr _) \<Rightarrow>
          Option.bind (recv_on K (cl_response_cob_id cl) s1) (\<lambda>x.
            after_reply K B finish cl x (transaction K B finish)))"
  by (subst transaction.simps) (simp add: after_reply_def split_def)

text \<open>One frame of the blocking loop and one poll of the task.\<close>

lemma recv_on_frame:
  "recv_on K c s =
     (case sk_read K s of
        (s', Inl e) \<Rightarrow> Some (s', Inl (SocketError e))
      | (s', Inr f) \<Rightarrow>
          if fr_is_data (sk_frames K) f \<and> frame_cob_id (sk_frames K) f = Some c
          then Some (s', Inr (received_new c (fr_data (sk_frames K) f))) else recv_on K c s')"
proof (cases "sk_read K s")
  case (Pair s' r)
  show ?thesis
  proof (cases r)
    case (Inl e)
    then show ?thesis using Pair by (simp add: recv_on.simps [of K c s] recv.simps [of K s])
  next
    case (Inr f)
    show ?thesis
    proof (cases "fr_is_data (sk_frames K) f \<and> frame_cob_id (sk_frames K) f \<noteq> None")
      case True
      then show ?thesis using Pair Inr by (auto simp: recv_on.simps [of K c s] recv.simps [of K s])
    next
      case False
      then have "recv K s = recv K s'" using Pair Inr by (auto simp: recv.simps [of K s])
      then have "recv_on K c s = recv_on K c s'"
        by (simp add: recv_on.simps [of K c s] recv_on.simps [of K c s'])
      then show ?thesis using Pair Inr False by auto
    qed
  qed
qed

lemma run_task_Receiving:
  "run_task (async_of K) B (Receiving finish cl) s =
     (case sk_read K s of
        (s', Inl e) \<Rightarrow> Some (Done (s', Inl (SdoIo (SocketError e))))
      | (s', Inr f) \<Rightarrow>
          if fr_is_data (sk_frames K) f \<and> frame_cob_id (sk_frames K) f = Some (cl_response_cob_id cl)
          then after_reply K B finish cl
            (s', Inr (received_new (cl_response_cob_id cl) (fr_data (sk_frames K) f)))
            (\<lambda>cl' nxt. run_task (async_of K) B (Sending finish cl' nxt))
          else run_task (async_of K) B (Receiving finish cl) s')"
  by (subst run_task.simps)
    (auto simp: async_recv_on_def async_recv_def async_of_def after_reply_def
      split: option.split prod.split sum.split run.split sdo_event.split)

lemma run_task_of_recv:
  assumes "recv K s = Some x"
  shows "run_task (async_of K) B (Receiving finish cl) s =
    (case x of
       (s', Inl e) \<Rightarrow> Some (Done (s', Inl (SdoIo e)))
     | (s', Inr f) \<Rightarrow>
         if rc_cob_id f = cl_response_cob_id cl
         then after_reply K B finish cl (s', Inr f) (\<lambda>cl' nxt. run_task (async_of K) B (Sending finish cl' nxt))
         else run_task (async_of K) B (Receiving finish cl) s')"
proof (induction rule: recv.raw_induct [OF _ assms, consumes 0, case_names step])
  case (step f K s x)
  obtain s' r where rd: "sk_read K s = (s', r)" by fastforce
  show ?case
  proof (cases r)
    case (Inl e)
    then show ?thesis using step.hyps rd by (auto simp: run_task_Receiving [of K _ _ _ s])
  next
    case (Inr fr)
    consider "\<not> fr_is_data (sk_frames K) fr \<or> frame_cob_id (sk_frames K) fr = None"
      | c where "fr_is_data (sk_frames K) fr" "frame_cob_id (sk_frames K) fr = Some c"
      by (cases "frame_cob_id (sk_frames K) fr") auto
    then show ?thesis
    proof cases
      case 1
      then have "f K s' = Some x" using step.hyps rd Inr by (auto split: if_splits)
      moreover have "run_task (async_of K) B (Receiving finish cl) s = run_task (async_of K) B (Receiving finish cl) s'"
        using 1 rd Inr by (auto simp: run_task_Receiving [of K _ _ _ s])
      ultimately show ?thesis using step.IH [of K s' x] by simp
    next
      case 2
      then show ?thesis using step.hyps rd Inr by (auto simp: run_task_Receiving [of K _ _ _ s])
    qed
  qed
qed

lemma run_task_of_recv_on:
  assumes "recv_on K c s = Some x"
  shows "c = cl_response_cob_id cl \<Longrightarrow> run_task (async_of K) B (Receiving finish cl) s =
    after_reply K B finish cl x (\<lambda>cl' nxt. run_task (async_of K) B (Sending finish cl' nxt))"
proof (induction rule: recv_on.raw_induct [OF _ assms, consumes 0, case_names step])
  case (step f K c s x)
  obtain s' r where rv: "recv K s = Some (s', r)" using step.hyps by (cases "recv K s") auto
  show ?case
  proof (cases r)
    case (Inl e)
    then show ?thesis using step.hyps rv run_task_of_recv [OF rv, of B finish cl] by (auto simp: after_reply_def)
  next
    case (Inr fr)
    then show ?thesis using step.hyps step.prems step.IH [of K c s' x] rv run_task_of_recv [OF rv, of B finish cl]
      by (cases "rc_cob_id fr = c") (simp_all, auto)
  qed
qed

lemma run_task_of_transaction:
  assumes "transaction K B finish cl p s = Some y"
  shows "run_task (async_of K) B (Sending finish cl p) s = Some y"
proof (induction rule: transaction.raw_induct [OF _ assms, consumes 0, case_names step])
  case (step f K B finish cl p s y)
  obtain s1 r where sd: "send_frame K (cl_request_cob_id cl) p s = (s1, r)" by fastforce
  show ?case
  proof (cases r)
    case (Inl e)
    then show ?thesis using step.hyps sd by (simp add: run_task_Sending)
  next
    case (Inr u)
    then obtain x where x: "recv_on K (cl_response_cob_id cl) s1 = Some x"
      "after_reply K B finish cl x (f K B finish) = Some y"
      using step.hyps sd by (cases "recv_on K (cl_response_cob_id cl) s1") (auto simp: after_reply_def)
    have "after_reply K B finish cl x (\<lambda>cl' nxt. run_task (async_of K) B (Sending finish cl' nxt)) = Some y"
      using x(2) step.IH by (auto simp: after_reply_def split: prod.splits sum.splits run.splits sdo_event.splits)
    then show ?thesis using run_task_of_recv_on [OF x(1) refl, of B finish] sd Inr by (simp add: run_task_Sending)
  qed
qed

lemma transaction_of_run_task:
  assumes "run_task A B t s = Some y"
  shows "A = async_of K \<Longrightarrow>
    (case t of
       Finished r \<Rightarrow> y = Done (s, r)
     | Sending finish cl p \<Rightarrow> transaction K B finish cl p s = Some y
     | Receiving finish cl \<Rightarrow>
         Option.bind (recv_on K (cl_response_cob_id cl) s) (\<lambda>x.
           after_reply K B finish cl x (transaction K B finish)) = Some y)"
proof (induction rule: run_task.raw_induct [OF _ assms, consumes 0, case_names step])
  case (step f A B t s y)
  have fr: "as_frames A = sk_frames K" "as_write A = (\<lambda>s f. Some (sk_write K s f))"
    "as_read A = (\<lambda>s. Some (sk_read K s))"
    using step.prems by (simp_all add: async_of_def)
  have fin: "f A B (Finished r) s = Some y \<Longrightarrow> y = Done (s, r)" for r s
    using step.IH [of A B "Finished r" s y] step.prems by simp
  show ?case
  proof (cases t)
    case (Sending finish cl p)
    obtain s1 r where sd: "send_frame K (cl_request_cob_id cl) p s = (s1, r)" by fastforce
    have as: "async_send A (cl_request_cob_id cl) p s = Some (s1, r)"
      using sd fr by (auto simp: async_send_def send_frame_def split: option.splits prod.splits)
    then show ?thesis
      using step.hyps step.IH [OF _ step.prems] Sending sd
      by (fastforce simp: transaction_after_reply [of K _ _ _ p s] split: sum.splits)
  next
    case (Receiving finish cl)
    obtain s' r where rd: "sk_read K s = (s', r)" by fastforce
    show ?thesis
    proof (cases r)
      case (Inl e)
      then show ?thesis using step.hyps Receiving rd fr fin
        by (auto simp: recv_on_frame [of K _ s] async_recv_on_def async_recv_def after_reply_def)
    next
      case (Inr g)
      show ?thesis
      proof (cases "fr_is_data (sk_frames K) g \<and> frame_cob_id (sk_frames K) g = Some (cl_response_cob_id cl)")
        case True
        then show ?thesis using step.hyps step.IH [OF _ step.prems] fin Receiving rd fr Inr
          by (fastforce simp: recv_on_frame [of K _ s] async_recv_on_def async_recv_def after_reply_def
              split: run.splits sdo_event.splits)
      next
        case False
        have "poll_task A B t s = Some (Done (s', Receiving finish cl))"
          using False Receiving rd fr Inr
          by (auto simp: async_recv_on_def async_recv_def split: option.splits)
        then have "f A B (Receiving finish cl) s' = Some y"
          using step.hyps Receiving by (simp del: poll_task.simps)
        from step.IH [OF this step.prems] show ?thesis using Receiving rd Inr False
          by (auto simp: recv_on_frame [of K _ s])
      qed
    qed
  qed (use step.hyps in simp)
qed

lemma run_task_transaction:
  "run_task (async_of K) B (Sending finish cl p) s = transaction K B finish cl p s"
proof (cases "run_task (async_of K) B (Sending finish cl p) s")
  case None
  then show ?thesis using run_task_of_transaction [of K B finish cl p s]
    by (cases "transaction K B finish cl p s") auto
next
  case (Some y)
  then show ?thesis using transaction_of_run_task [OF Some refl] by simp
qed

section \<open>Several tasks on one socket\<close>

text \<open>
  The methods take \<open>&self\<close>, so the tasks of an application may share a socket. The scheduler polls any
  task that is ready. A step is one await, which is finer than the polls of an executor: those are
  sequences of steps.
\<close>

inductive async_step :: "('s, 'f, 'e) async_socket \<Rightarrow> ('b, u8) vec_ops \<Rightarrow>
    's \<times> ('b, 'e, 'r) sdo_task list \<Rightarrow> 's \<times> ('b, 'e, 'r) sdo_task list \<Rightarrow> bool"
  for K :: "('s, 'f, 'e) async_socket" and B :: "('b, u8) vec_ops" where
  poll: "i < length ts \<Longrightarrow> poll_task K B (ts ! i) s = Some (Done (s', t')) \<Longrightarrow>
    async_step K B (s, ts) (s', ts[i := t'])"

inductive_cases async_stepE: "async_step K B (s, ts) c"

fun task_client :: "('b, 'e, 'r) sdo_task \<Rightarrow> 'b sdo_client option" where
  "task_client (Sending finish cl p) = Some cl"
| "task_client (Receiving finish cl) = Some cl"
| "task_client (Finished r) = None"

fun wf_task :: "('b, 'e, 'r) sdo_task \<Rightarrow> bool" where
  "wf_task (Sending finish cl p) \<longleftrightarrow> wf_client cl \<and> cl_is_busy cl \<and> length p = 8"
| "wf_task (Receiving finish cl) \<longleftrightarrow> wf_client cl \<and> cl_is_busy cl"
| "wf_task (Finished r) \<longleftrightarrow> True"

text \<open>What a poll may do to a task.\<close>

definition same_task :: "('b, 'e, 'r) sdo_task \<Rightarrow> ('b, 'e, 'r) sdo_task \<Rightarrow> bool" where
  "same_task t t' \<longleftrightarrow>
     (case task_client t of
        None \<Rightarrow> t' = t
      | Some cl \<Rightarrow> (case task_client t' of None \<Rightarrow> True | Some cl' \<Rightarrow> cl_node cl' = cl_node cl))"

lemma same_task_refl [simp]: "same_task t t"
  by (cases t) (simp_all add: same_task_def)

lemma same_task_trans: "same_task t u \<Longrightarrow> same_task u v \<Longrightarrow> same_task t v"
  by (cases t; cases u; cases v) (simp_all add: same_task_def)

lemma poll_task_safe:
  assumes "wf_task t"
  shows "poll_task K B t s = None \<or>
    (\<exists>s' t'. poll_task K B t s = Some (Done (s', t')) \<and> wf_task t' \<and> same_task t t')"
proof (cases t)
  case (Sending finish cl p)
  then show ?thesis using assms
    by (cases "async_send K (cl_request_cob_id cl) p s") (auto simp: same_task_def split: sum.split)
next
  case (Receiving finish cl)
  have wf: "wf_client cl" using assms Receiving by simp
  show ?thesis
  proof (cases "async_recv_on K (cl_response_cob_id cl) s")
    case None
    then show ?thesis using Receiving by simp
  next
    case (Some x)
    obtain s' r where x: "x = (s', r)" by fastforce
    show ?thesis
    proof (cases "\<exists>reply. r = Inr (Some reply)")
      case True
      then obtain reply where r: "r = Inr (Some reply)" by blast
      obtain cl' ev where p: "on_response B cl (received_payload reply) = Done (cl', ev)" "wf_client cl'"
        "cl_node cl' = cl_node cl" "case ev of Send q \<Rightarrow> cl_is_busy cl' \<and> length q = 8 | _ \<Rightarrow> \<not> cl_is_busy cl'"
        using on_response_post [OF wf, of B "received_payload reply"] by (auto simp: client_post_def)
      then show ?thesis using Receiving Some x r by (cases ev) (simp_all add: same_task_def)
    next
      case False
      then show ?thesis using Receiving Some x assms
        by (auto simp: same_task_def split: sum.split option.split)
    qed
  qed
qed simp

lemma async_step_safe:
  assumes "async_step K B (s, ts) c" and "list_all wf_task ts"
  shows "\<exists>s' ts'. c = (s', ts') \<and> list_all wf_task ts' \<and> list_all2 same_task ts ts'"
proof -
  obtain i s' t' where 1: "c = (s', ts[i := t'])" "i < length ts" "poll_task K B (ts ! i) s = Some (Done (s', t'))"
    using assms(1) by (auto elim: async_stepE)
  then have "wf_task t' \<and> same_task (ts ! i) t'"
    using poll_task_safe [of "ts ! i" K B s] assms(2) by (auto simp: list_all_length)
  moreover from this have "list_all2 same_task (ts[i := ts ! i]) (ts[i := t'])"
    by (intro list_all2_update_cong list_all2_refl) simp_all
  ultimately show ?thesis using 1 assms(2)
    by (auto simp: list_all_length nth_list_update list_all2_conv_all_nth)
qed

lemma async_reachable_safe:
  assumes "(async_step K B)\<^sup>*\<^sup>* (s, ts) (s', ts')" and "list_all wf_task ts"
  shows "list_all wf_task ts' \<and> list_all2 same_task ts ts'"
  using assms(1)
proof (induction rule: rtranclp_induct2)
  case refl
  then show ?case using assms(2) by (simp add: list_all2_refl)
next
  case (step s1 ts1 s2 ts2)
  then show ?case
    using async_step_safe [OF step(2)] list_all2_trans [of same_task same_task same_task ts ts1 ts2]
      same_task_trans by blast
qed

text \<open>The futures of an application, reads and writes together.\<close>

definition started :: "('b, 'e, od_value + unit) sdo_task \<Rightarrow> bool" where
  "started t \<longleftrightarrow> (\<exists>n a dt. t = map_sdo_task id Inl (async_sdo_read n a dt)) \<or>
     (\<exists>n a v t'. wf_value v \<and> async_sdo_write n a v = Done t' \<and> t = map_sdo_task id Inr t')"

lemma started_wf_task:
  fixes t :: "('b, 'e, od_value + unit) sdo_task"
  assumes "started t"
  shows "wf_task t \<and> task_client t \<noteq> None"
proof -
  consider n a dt where "t = map_sdo_task id Inl (async_sdo_read n a dt)"
    | n a v t' where "wf_value v" "async_sdo_write n a v = Done t'" "t = map_sdo_task id Inr t'"
    using assms by (auto simp: started_def)
  then show ?thesis
  proof cases
    case 1
    then show ?thesis
      by (simp add: async_sdo_read_def client_read_def sdo_client_new_def wf_client_def cl_is_busy_def
          frame_simps)
  next
    case 2
    obtain c :: "'b sdo_client" and p where "client_write (sdo_client_new n) a v = Done (c, p)"
      "wf_client c" "cl_is_busy c" "length p = 8"
      using client_write_post [OF 2(1), of "sdo_client_new n" a] by blast
    then show ?thesis using 2(2,3) by (auto simp: async_sdo_write_def)
  qed
qed

section \<open>Tasks on the bus\<close>

text \<open>The bus of a device node for tasks: nothing to read is not ready.\<close>

definition bus_async :: "('m, 'b, 'p, 'r, 't, 'h, 'v) node_ops \<Rightarrow> 'f frame_ops \<Rightarrow>
    ((('m, 'b, 'r, 't, 'h) node, 'f) bus_world, 'f, unit) async_socket" where
  "bus_async E F = \<lparr>as_frames = F, as_write = (\<lambda>w f. Some (bus_write E F w f)),
     as_read = (\<lambda>w. case wd_queue w of [] \<Rightarrow> None | _ \<Rightarrow> Some (bus_read w))\<rparr>"

lemma async_send_bus:
  "async_send (bus_async E F) c p w = Some (send_frame (bus_socket E F) c p w)"
  by (auto simp: async_send_def send_frame_def bus_async_def bus_socket_def split: option.split prod.split)

lemma async_recv_on_bus:
  assumes "fr_is_data F g" and "frame_cob_id F g = Some d"
  shows "wd_queue w = g # q \<Longrightarrow> async_recv_on (bus_async E F) c w =
    Some (w\<lparr>wd_queue := q\<rparr>, Inr (if d = c then Some (received_new c (fr_data F g)) else None))"
  using assms by (simp add: async_recv_on_def async_recv_def bus_async_def bus_read_def)

text \<open>A read before its request, and while it waits.\<close>

definition read_waiting :: "node_id \<Rightarrow> data_type \<Rightarrow> ('b, 'e, od_value) sdo_task" where
  "read_waiting n dt =
     Receiving (\<lambda>v. case v of Some x \<Rightarrow> Inr x | None \<Rightarrow> Inl NoValue) \<lparr>cl_node = n, cl_state = UploadInit dt\<rparr>"

context device_bus
begin

lemma poll_read:
  assumes "serving E (wd_node w)" and "wd_noise w = []"
    and "od_read (no_od E) (nd_od (wd_node w)) a = Inr u" and "expedited u"
  shows "\<exists>g. poll_task (bus_async E F) B (async_sdo_read (nd_id (wd_node w)) a dt) w =
      Some (Done (w\<lparr>wd_queue := wd_queue w @ [g]\<rparr>, read_waiting (nd_id (wd_node w)) dt)) \<and>
    read_reply F (nd_id (wd_node w)) a u g"
  using send_read_request [OF assms]
  by (auto simp: async_sdo_read_def client_read_def sdo_client_new_def async_send_bus cl_request_cob_id_def
      read_waiting_def)

lemma poll_waiting:
  assumes "read_reply F n b v g" and "expedited v" and "wd_queue w = g # q"
  shows "poll_task (bus_async E F) B (read_waiting n (data_type_of v)) w =
      Some (Done (w\<lparr>wd_queue := q\<rparr>, Finished (Inr v)))"
    and "response_cob_id m \<noteq> response_cob_id n \<Longrightarrow> poll_task (bus_async E F) B (read_waiting m dt) w =
      Some (Done (w\<lparr>wd_queue := q\<rparr>, read_waiting m dt))"
  using read_reply_frame [OF assms(1,2)] assms(3)
  by (simp_all add: read_waiting_def async_recv_on_bus cl_response_cob_id_def expedited_response(3) [OF assms(2)])

text \<open>The request of a read of another node, which the device on the bus ignores.\<close>

lemma poll_ignored:
  assumes "device_id m" and "wd_noise w = []"
    and "on_frame E (request_cob_id m) (encode_upload_request b) (wd_node w) = Done (wd_node w, None)"
    and "wd_queue w = []"
  shows "poll_task (bus_async E F) B (async_sdo_read m b dt) w = Some (Done (w, read_waiting m dt))"
proof -
  obtain f where f: "frame_from F (request_cob_id m) (encode_upload_request b) = Some f"
    "frame_cob_id F f = Some (request_cob_id m)" "fr_data F f = encode_upload_request b"
    using frame_from_ok [OF request_cob_id_cases(3) [OF assms(1)], of "encode_upload_request b"]
    by (auto simp: frame_simps)
  then have "send_frame (bus_socket E F) (request_cob_id m) (encode_upload_request b) w = (w, Inr ())"
    using assms(2-4) by (cases w) (simp add: send_frame_def bus_socket_def bus_write_def)
  then show ?thesis
    by (simp add: async_sdo_read_def client_read_def sdo_client_new_def async_send_bus cl_request_cob_id_def
        read_waiting_def)
qed

end

lemma response_cob_id_inj:
  assumes "device_id m" and "device_id n" and "response_cob_id m = response_cob_id n"
  shows "m = n"
proof -
  have "unat (response_cob_id k) = 0x580 + unat (raw k)" if "device_id k" for k
    using that unat_cob_of [of "0x580" k] by (simp add: response_cob_id_def cob_of_def device_id_nat)
  then have "raw m = raw n" using assms by (metis add_left_cancel word_unat_eq_iff)
  then show ?thesis by (cases m; cases n) simp
qed

lemma async_stepI:
  assumes "i < length ts" and "poll_task K B (ts ! i) s = Some (Done (s', t'))" and "ts' = ts[i := t']"
  shows "async_step K B (s, ts) (s', ts')"
  using async_step.poll [OF assms(1,2)] assms(3) by simp

section \<open>Properties\<close>

text \<open>C8: On a socket that is always ready a future computes what the blocking call computes: polled to its
  end, the asynchronous read and write return the same result, leave the socket in the same state, panic
  in the same cases and fail to return in the same cases.\<close>

theorem async_equals_blocking:
  "run_task (async_of K) B (async_sdo_read n a dt) s = sdo_read K B n a dt s \<and>
   (case async_sdo_write n a v of
      Panic \<Rightarrow> sdo_write K B n a v s = Some Panic
    | Done t \<Rightarrow> run_task (async_of K) B t s = sdo_write K B n a v s)"
  by (simp add: async_sdo_read_def async_sdo_write_def sdo_read_def sdo_write_def run_task_transaction
      split: prod.split run.split)


text \<open>C10: No order in which the tasks of an application run can panic one of them: from reads and writes in
  any number, on any socket, every reachable configuration has the same tasks, each still working for its
  node or finished, and no poll panics; a result, once there, never changes.\<close>

theorem async_interleaving_safe:
  assumes "list_all started ts" and "(async_step K B)\<^sup>*\<^sup>* (s, ts) (s', ts')"
  shows "length ts' = length ts \<and>
    (\<forall>i < length ts. poll_task K B (ts' ! i) s' \<noteq> Some Panic \<and>
      (case task_client (ts' ! i) of
         None \<Rightarrow> \<exists>r. ts' ! i = Finished r
       | Some cl \<Rightarrow> map_option cl_node (task_client (ts ! i)) = Some (cl_node cl)) \<and>
      (\<forall>r s'' ts''. ts' ! i = Finished r \<and> (async_step K B)\<^sup>*\<^sup>* (s', ts') (s'', ts'') \<longrightarrow> ts'' ! i = Finished r))"
proof -
  have wf: "list_all wf_task ts" and cl: "list_all (\<lambda>t. task_client t \<noteq> None) ts"
    using assms(1) started_wf_task by (auto simp: list_all_iff)
  have now: "list_all wf_task ts'" "list_all2 same_task ts ts'"
    using async_reachable_safe [OF assms(2) wf] by simp_all
  have later: "ts'' ! i = Finished r"
    if "i < length ts'" "ts' ! i = Finished r" "(async_step K B)\<^sup>*\<^sup>* (s', ts') (s'', ts'')" for i r s'' ts''
    using async_reachable_safe [OF that(3) now(1)] that(1,2)
    by (auto simp: list_all2_conv_all_nth same_task_def)
  show ?thesis
  proof (intro conjI allI impI)
    show len: "length ts' = length ts" using now(2) by (simp add: list_all2_conv_all_nth)
    fix i assume i: "i < length ts"
    show "poll_task K B (ts' ! i) s' \<noteq> Some Panic"
      using poll_task_safe [of "ts' ! i" K B s'] now(1) i len by (auto simp: list_all_length)
    have "same_task (ts ! i) (ts' ! i)" "task_client (ts ! i) \<noteq> None"
      using now(2) cl i by (auto simp: list_all2_conv_all_nth list_all_length)
    then show "case task_client (ts' ! i) of
         None \<Rightarrow> \<exists>r. ts' ! i = Finished r
       | Some cl \<Rightarrow> map_option cl_node (task_client (ts ! i)) = Some (cl_node cl)"
      by (cases "ts' ! i") (auto simp: same_task_def)
    show "ts'' ! i = Finished r"
      if "ts' ! i = Finished r \<and> (async_step K B)\<^sup>*\<^sup>* (s', ts') (s'', ts'')" for r s'' ts''
      by (rule later [of i r s'' ts'']) (use that i len in simp_all)
  qed
qed

definition example_async :: "(unit, example_frame, unit) async_socket" where
  "example_async = \<lparr>as_frames = example_frames, as_write = (\<lambda>s f. Some (s, Inr ())), as_read = (\<lambda>s. None)\<rparr>"

theorem async_interleaving_safe_witness:
  "\<exists>t'. (async_step example_async (list_ops MAX_STRING_LEN))\<^sup>*\<^sup>*
      ((), [map_sdo_task id Inl (async_sdo_read (NodeId 5) (Address 0x1000 0) DT_Unsigned32)
              :: (u8 list, unit, od_value + unit) sdo_task]) ((), [t']) \<and>
    poll_task example_async (list_ops MAX_STRING_LEN) t' () \<noteq> Some Panic \<and>
    map_option cl_node (task_client t') = Some (NodeId 5)"
proof -
  let ?t = "map_sdo_task id Inl (async_sdo_read (NodeId 5) (Address 0x1000 0) DT_Unsigned32)
    :: (u8 list, unit, od_value + unit) sdo_task"
  let ?f = "map_sum id Inl \<circ> (\<lambda>v. case v of Some x \<Rightarrow> Inr x | None \<Rightarrow> Inl NoValue)
    :: od_value option \<Rightarrow> unit sdo_error + (od_value + unit)"
  let ?t' = "Receiving ?f \<lparr>cl_node = NodeId 5, cl_state = UploadInit DT_Unsigned32\<rparr>
    :: (u8 list, unit, od_value + unit) sdo_task"
  have "poll_task example_async (list_ops MAX_STRING_LEN) ?t () = Some (Done ((), ?t'))"
    by (simp add: async_sdo_read_def client_read_def sdo_client_new_def async_send_def example_async_def
        frame_from_def example_frames_def cl_request_cob_id_def request_cob_id_def frame_simps sdo_error.map_id0)
  then have st: "(async_step example_async (list_ops MAX_STRING_LEN))\<^sup>*\<^sup>* ((), [?t]) ((), [?t'])"
    by (intro r_into_rtranclp async_stepI [of 0]) simp_all
  have "list_all started [?t]" by (auto simp: started_def)
  note safe = async_interleaving_safe [OF this st]
  show ?thesis
    by (rule exI [of _ ?t']) (use st safe in \<open>simp del: poll_task.simps\<close>)
qed

text \<open>A device with two objects of type \<open>UNSIGNED16\<close> and a quiet bus.\<close>

definition example_async_bus ::
  "(((address \<times> entry) list, u8 list, mapping_entry list rpdo_slot list,
    mapping_entry list tpdo_slot list, u32 list) node, example_frame) bus_world" where
  "example_async_bus = example_bus\<lparr>wd_queue := [], wd_noise := [],
     wd_node := (wd_node example_bus)\<lparr>nd_od := [(Address 0x1017 0, entry_rw (Unsigned16 1000)),
       (Address 0x1017 1, entry_rw (Unsigned16 7))]\<rparr>\<rparr>"

lemma example_async_bus:
  "serving (list_node_ops 4) (wd_node example_async_bus)"
  "wd_queue example_async_bus = []" "wd_noise example_async_bus = []"
  "nd_id (wd_node example_async_bus) = NodeId 0x10"
  "od_read (assoc_ops 4) (nd_od (wd_node example_async_bus)) (Address 0x1017 0) = Inr (Unsigned16 1000)"
  "od_read (assoc_ops 4) (nd_od (wd_node example_async_bus)) (Address 0x1017 1) = Inr (Unsigned16 7)"
proof -
  let ?od = "[(Address 0x1017 0, entry_rw (Unsigned16 1000)), (Address 0x1017 1, entry_rw (Unsigned16 7))]"
  have "wf_od (assoc_ops 4) ?od" by (simp add: wf_od_def assoc_ops_def entry_rw_def)
  then show "serving (list_node_ops 4) (wd_node example_async_bus)"
    using example_bus_serves(1)
    by (simp add: serving_def example_async_bus_def wf_node_def lss_unconfigured_def node_state_def)
qed (simp_all add: example_async_bus_def example_bus_def node_new_def od_read_def entry_rw_def is_readable_def)

text \<open>C36: Two reads of one device that run at the same time can return each other's values: when both values
  are expedited and of one type, there is a schedule of the two tasks that ends with the value of the
  second object as the result of the first read and the value of the first as that of the second.\<close>

theorem async_reads_swapped:
  assumes "device_bus E N F" and "serving E (wd_node w)" and "wd_queue w = []" and "wd_noise w = []"
    and "od_read (no_od E) (nd_od (wd_node w)) a = Inr u" and "expedited u"
    and "od_read (no_od E) (nd_od (wd_node w)) b = Inr v" and "expedited v" and "data_type_of u = data_type_of v"
  shows "(async_step (bus_async E F) (no_bytes E))\<^sup>*\<^sup>*
    (w, [async_sdo_read (nd_id (wd_node w)) a (data_type_of u), async_sdo_read (nd_id (wd_node w)) b (data_type_of v)])
    (w, [Finished (Inr v), Finished (Inr u)])"
proof -
  let ?n = "nd_id (wd_node w)" and ?S = "async_step (bus_async E F) (no_bytes E)"
  let ?A = "async_sdo_read ?n a (data_type_of u) :: ('b, unit, od_value) sdo_task"
  let ?B = "async_sdo_read ?n b (data_type_of v) :: ('b, unit, od_value) sdo_task"
  let ?R = "read_waiting ?n (data_type_of v) :: ('b, unit, od_value) sdo_task"
  note dev = assms(1)
  obtain g1 where g1: "poll_task (bus_async E F) (no_bytes E) ?A w = Some (Done (w\<lparr>wd_queue := [g1]\<rparr>, ?R))"
    "read_reply F ?n a u g1"
    using device_bus.poll_read [OF dev assms(2,4,5,6)] assms(3,9) by fastforce
  obtain g2 where g2: "poll_task (bus_async E F) (no_bytes E) ?B (w\<lparr>wd_queue := [g1]\<rparr>) =
      Some (Done (w\<lparr>wd_queue := [g1, g2]\<rparr>, ?R))" "read_reply F ?n b v g2"
    using device_bus.poll_read [OF dev, of "w\<lparr>wd_queue := [g1]\<rparr>" b v] assms by fastforce
  have p1: "poll_task (bus_async E F) (no_bytes E) ?R (w\<lparr>wd_queue := [g1, g2]\<rparr>) =
      Some (Done (w\<lparr>wd_queue := [g2]\<rparr>, Finished (Inr u)))"
    unfolding assms(9) [symmetric]
    using device_bus.poll_waiting(1) [OF dev g1(2) assms(6), of "w\<lparr>wd_queue := [g1, g2]\<rparr>" "[g2]"] by simp
  have p2: "poll_task (bus_async E F) (no_bytes E) ?R (w\<lparr>wd_queue := [g2]\<rparr>) =
      Some (Done (w, Finished (Inr v)))"
    using device_bus.poll_waiting(1) [OF dev g2(2) assms(8), of "w\<lparr>wd_queue := [g2]\<rparr>" "[]"] assms(3)
    by (cases w) simp
  have "?S (w, [?A, ?B]) (w\<lparr>wd_queue := [g1]\<rparr>, [?R, ?B])"
    by (rule async_stepI [of 0]) (use g1(1) in simp_all)
  moreover have "?S (w\<lparr>wd_queue := [g1]\<rparr>, [?R, ?B]) (w\<lparr>wd_queue := [g1, g2]\<rparr>, [?R, ?R])"
    by (rule async_stepI [of 1]) (use g2(1) in simp_all)
  moreover have "?S (w\<lparr>wd_queue := [g1, g2]\<rparr>, [?R, ?R]) (w\<lparr>wd_queue := [g2]\<rparr>, [?R, Finished (Inr u)])"
    by (rule async_stepI [of 1]) (use p1 in simp_all)
  moreover have "?S (w\<lparr>wd_queue := [g2]\<rparr>, [?R, Finished (Inr u)]) (w, [Finished (Inr v), Finished (Inr u)])"
    by (rule async_stepI [of 0]) (use p2 in simp_all)
  ultimately show ?thesis by (meson converse_rtranclp_into_rtranclp r_into_rtranclp)
qed

theorem async_reads_swapped_witness:
  "(async_step (bus_async (list_node_ops 4) example_frames) (list_ops MAX_STRING_LEN))\<^sup>*\<^sup>*
    (example_async_bus, [async_sdo_read (NodeId 0x10) (Address 0x1017 0) DT_Unsigned16,
                         async_sdo_read (NodeId 0x10) (Address 0x1017 1) DT_Unsigned16])
    (example_async_bus, [Finished (Inr (Unsigned16 7)), Finished (Inr (Unsigned16 1000))])"
  using async_reads_swapped [OF list_bus.device_bus_axioms [of 4], of example_async_bus
      "Address 0x1017 0" "Unsigned16 1000" "Address 0x1017 1" "Unsigned16 7"] example_async_bus
  by (simp add: expedited_def value_size_def type_size_def)

text \<open>A read can lose its answer to a task that waits for another node: the other task takes the frame from
  the socket and discards it. Both then wait, nothing is left to read and no step is possible, although
  the same read alone returns the value.\<close>

lemma async_reply_lost:
  assumes "device_bus E N F" and "serving E (wd_node w)" and "wd_queue w = []" and "wd_noise w = []"
    and "od_read (no_od E) (nd_od (wd_node w)) a = Inr u" and "expedited u"
    and "device_id m" and "m \<noteq> nd_id (wd_node w)"
    and "on_frame E (request_cob_id m) (encode_upload_request b) (wd_node w) = Done (wd_node w, None)"
  shows "(async_step (bus_async E F) (no_bytes E))\<^sup>*\<^sup>*
      (w, [async_sdo_read (nd_id (wd_node w)) a (data_type_of u), async_sdo_read m b dt])
      (w, [read_waiting (nd_id (wd_node w)) (data_type_of u), read_waiting m dt]) \<and>
    (\<nexists>c. async_step (bus_async E F) (no_bytes E)
      (w, [read_waiting (nd_id (wd_node w)) (data_type_of u), read_waiting m dt]) c) \<and>
    (async_step (bus_async E F) (no_bytes E))\<^sup>*\<^sup>*
      (w, [async_sdo_read (nd_id (wd_node w)) a (data_type_of u)]) (w, [Finished (Inr u)])"
proof -
  let ?n = "nd_id (wd_node w)" and ?S = "async_step (bus_async E F) (no_bytes E)"
  let ?A = "async_sdo_read ?n a (data_type_of u) :: ('b, unit, od_value) sdo_task"
  let ?B = "async_sdo_read m b dt :: ('b, unit, od_value) sdo_task"
  let ?R = "read_waiting ?n (data_type_of u) :: ('b, unit, od_value) sdo_task"
  let ?M = "read_waiting m dt :: ('b, unit, od_value) sdo_task"
  note dev = assms(1)
  have w: "w\<lparr>wd_queue := []\<rparr> = w" using assms(3) by (cases w) simp
  obtain g where g: "poll_task (bus_async E F) (no_bytes E) ?A w = Some (Done (w\<lparr>wd_queue := [g]\<rparr>, ?R))"
    "read_reply F ?n a u g"
    using device_bus.poll_read [OF dev assms(2,4,5,6)] assms(3) by fastforce
  have ne: "response_cob_id m \<noteq> response_cob_id ?n"
    using assms(2,7,8) response_cob_id_inj [of m ?n] by (auto simp: serving_def)
  note poll = device_bus.poll_waiting [OF dev g(2) assms(6), of "w\<lparr>wd_queue := [g]\<rparr>" "[]"]
  have m: "poll_task (bus_async E F) (no_bytes E) ?B w = Some (Done (w, ?M))"
    by (rule device_bus.poll_ignored [OF dev assms(7,4,9,3)])
  have "?S (w, [?A, ?B]) (w, [?A, ?M])"
    by (rule async_stepI [of 1]) (use m in simp_all)
  moreover have "?S (w, [?A, ?M]) (w\<lparr>wd_queue := [g]\<rparr>, [?R, ?M])"
    by (rule async_stepI [of 0]) (use g(1) in simp_all)
  moreover have "?S (w\<lparr>wd_queue := [g]\<rparr>, [?R, ?M]) (w, [?R, ?M])"
    by (rule async_stepI [of 1]) (use poll(2) [OF _ ne, of "no_bytes E" dt] w in simp_all)
  ultimately have lost: "?S\<^sup>*\<^sup>* (w, [?A, ?B]) (w, [?R, ?M])"
    by (meson converse_rtranclp_into_rtranclp r_into_rtranclp)
  have "\<not> ?S (w, [?R, ?M]) c" for c
    using assms(3) by (auto elim!: async_stepE simp: less_Suc_eq read_waiting_def async_recv_on_def
        async_recv_def bus_async_def)
  moreover have "?S (w, [?A]) (w\<lparr>wd_queue := [g]\<rparr>, [?R])"
    by (rule async_stepI [of 0]) (use g(1) in simp_all)
  moreover have "?S (w\<lparr>wd_queue := [g]\<rparr>, [?R]) (w, [Finished (Inr u)])"
    by (rule async_stepI [of 0]) (use poll(1) w in simp_all)
  ultimately show ?thesis using lost by (meson converse_rtranclp_into_rtranclp r_into_rtranclp)
qed

end
