(* ===== verification/Network.thy ===== *)
theory Network
  imports Cli_Monitor Async_Transport
begin

text \<open>
  Several devices on one bus. Every node sees every frame but its own, in the order in which they are
  sent, and the host sees what the nodes send. The socket of the host is one more instance of \<open>sdo_link\<close>,
  so the transactions of the host carry over to one device among many; the others do not notice. The
  node-control commands reach exactly the nodes they address.
\<close>

section \<open>The bus\<close>

record ('n, 'f) net_world =
  nw_nodes :: "'n list"
  nw_queue :: "'f list"

text \<open>What a node does with a frame of the bus; a node that panics is silent.\<close>

definition node_reaction :: "('m, 'b, 'p, 'r, 't, 'h, 'v) node_ops \<Rightarrow> 'f frame_ops \<Rightarrow> 'f \<Rightarrow>
    ('m, 'b, 'r, 't, 'h) node \<Rightarrow> ('m, 'b, 'r, 't, 'h) node \<times> 'f list" where
  "node_reaction E F f nd =
     (case frame_cob_id F f of
        None \<Rightarrow> (nd, [])
      | Some c \<Rightarrow>
          (case on_frame E c (fr_data F f) nd of
             Panic \<Rightarrow> (nd, [])
           | Done (nd', out) \<Rightarrow>
               (nd', case out of
                  None \<Rightarrow> []
                | Some tx \<Rightarrow>
                    (case frame_from F (tx_cob_id tx) (tx_data tx) of None \<Rightarrow> [] | Some g \<Rightarrow> [g]))))"

text \<open>
  The frames that wait for the bus, each with the node that sends it (\<open>None\<close> for the host), are sent in
  turn; the answers queue up behind them. The result is the nodes and what the host receives. The fuel
  bounds the number of frames.
\<close>

fun net_run :: "('m, 'b, 'p, 'r, 't, 'h, 'v) node_ops \<Rightarrow> 'f frame_ops \<Rightarrow> nat \<Rightarrow>
    ('m, 'b, 'r, 't, 'h) node list \<Rightarrow> (nat option \<times> 'f) list \<Rightarrow>
    (('m, 'b, 'r, 't, 'h) node list \<times> 'f list) option" where
  "net_run E F k nds [] = Some (nds, [])"
| "net_run E F 0 nds (x # q) = None"
| "net_run E F (Suc k) nds ((src, f) # q) =
     (let react = (\<lambda>i. if src = Some i then (nds ! i, []) else node_reaction E F f (nds ! i));
          answers = concat (map (\<lambda>i. map (Pair (Some i)) (snd (react i))) [0..<length nds])
      in map_option (\<lambda>(nds', seen). (nds', (if src = None then [] else [f]) @ seen))
           (net_run E F k (map (\<lambda>i. fst (react i)) [0..<length nds]) (q @ answers)))"

definition net_write :: "('m, 'b, 'p, 'r, 't, 'h, 'v) node_ops \<Rightarrow> 'f frame_ops \<Rightarrow>
    (('m, 'b, 'r, 't, 'h) node, 'f) net_world \<Rightarrow> 'f \<Rightarrow>
    (('m, 'b, 'r, 't, 'h) node, 'f) net_world \<times> (unit + unit)" where
  "net_write E F w f =
     (case net_run E F (Suc (length (nw_nodes w))) (nw_nodes w) [(None, f)] of
        None \<Rightarrow> (w, Inl ())
      | Some (nds, seen) \<Rightarrow> (w\<lparr>nw_nodes := nds, nw_queue := nw_queue w @ seen\<rparr>, Inr ()))"

definition net_read :: "('n, 'f) net_world \<Rightarrow> ('n, 'f) net_world \<times> (unit + 'f)" where
  "net_read w = (case nw_queue w of [] \<Rightarrow> (w, Inl ()) | f # q \<Rightarrow> (w\<lparr>nw_queue := q\<rparr>, Inr f))"

definition net_socket :: "('m, 'b, 'p, 'r, 't, 'h, 'v) node_ops \<Rightarrow> 'f frame_ops \<Rightarrow>
    ((('m, 'b, 'r, 't, 'h) node, 'f) net_world, 'f, unit) can_socket" where
  "net_socket E F = \<lparr>sk_frames = F, sk_write = net_write E F, sk_read = net_read\<rparr>"

text \<open>A frame that no node answers.\<close>

lemma net_run_silent:
  assumes "\<forall>i < length nds. src \<noteq> Some i \<longrightarrow> snd (node_reaction E F f (nds ! i)) = []"
  shows "net_run E F (Suc k) nds [(src, f)] =
    Some (map (\<lambda>i. if src = Some i then nds ! i else fst (node_reaction E F f (nds ! i))) [0..<length nds],
      if src = None then [] else [f])"
proof -
  let ?react = "\<lambda>i. if src = Some i then (nds ! i, []) else node_reaction E F f (nds ! i)"
  have "concat (map (\<lambda>i. map (Pair (Some i)) (snd (?react i))) [0..<length nds]) = []"
    using assms by auto
  moreover have "map (\<lambda>i. fst (?react i)) [0..<length nds] =
      map (\<lambda>i. if src = Some i then nds ! i else fst (node_reaction E F f (nds ! i))) [0..<length nds]" by auto
  ultimately show ?thesis by (simp only: net_run.simps Let_def append_Nil option.map prod.case append_Nil2)
qed

text \<open>A frame of the host that one node answers.\<close>

lemma net_run_answered:
  assumes "i < length nds" and "node_reaction E F f (nds ! i) = (nd, [g])"
    and "\<forall>j < length nds. j \<noteq> i \<longrightarrow> node_reaction E F f (nds ! j) = (nds ! j, [])"
    and "\<forall>j < length nds. j \<noteq> i \<longrightarrow> node_reaction E F g (nds ! j) = (nds ! j, [])"
  shows "net_run E F (Suc (Suc k)) nds [(None, f)] = Some (nds[i := nd], [g])"
proof -
  have eq: "map (\<lambda>j. map (Pair (Some j)) (snd (node_reaction E F f (nds ! j)))) [0..<length nds] =
      map (\<lambda>j. if j = i then [(Some i, g)] else []) [0..<length nds]"
    using assms(2,3) by auto
  have "concat (map (\<lambda>j. if j = i then [(Some i, g)] else []) [0..<m]) =
      (if i < m then [(Some i, g)] else [])" for m
    by (induction m) auto
  then have answers: "concat (map (\<lambda>j. map (Pair (Some j)) (snd (node_reaction E F f (nds ! j)))) [0..<length nds]) =
      [(Some i, g)]" unfolding eq using assms(1) by simp
  have nodes: "map (\<lambda>j. fst (node_reaction E F f (nds ! j))) [0..<length nds] = nds[i := nd]"
  proof (rule nth_equalityI)
    fix j assume "j < length (map (\<lambda>j. fst (node_reaction E F f (nds ! j))) [0..<length nds])"
    then show "map (\<lambda>j. fst (node_reaction E F f (nds ! j))) [0..<length nds] ! j = nds[i := nd] ! j"
      using assms(2,3) by (cases "j = i") auto
  qed simp
  have "map (\<lambda>j. if Some i = Some j then nds[i := nd] ! j
      else fst (node_reaction E F g (nds[i := nd] ! j))) [0..<length (nds[i := nd])] = nds[i := nd]"
    using assms(4) by (intro nth_equalityI) (auto simp: nth_list_update)
  then have "net_run E F (Suc k) (nds[i := nd]) [(Some i, g)] = Some (nds[i := nd], [g])"
    using net_run_silent [of "nds[i := nd]" "Some i" E F g k] assms(4) by (simp add: nth_list_update)
  then show ?thesis using answers nodes by (simp add: Let_def del: net_run.simps(1))
qed

section \<open>One device among others\<close>

text \<open>A node with another id, and without a receive PDO on the two SDO channels of \<open>n\<close>.\<close>

definition bystander :: "('m, 'b, 'p, 'r, 't, 'h, 'v) node_ops \<Rightarrow> node_id \<Rightarrow>
    ('m, 'b, 'r, 't, 'h) node \<Rightarrow> bool" where
  "bystander E n nd \<longleftrightarrow> wf_node E nd \<and> nd_id nd \<noteq> n \<and>
     (\<forall>r \<in> set (v_slice (no_rpdos E) (nd_rpdos nd)).
        rp_cob_id r \<noteq> request_cob_id n \<and> rp_cob_id r \<noteq> response_cob_id n)"

lemma bystander_ignores:
  assumes "bystander E n nd" and "device_id n" and "c = request_cob_id n \<or> c = response_cob_id n"
  shows "on_frame E c data nd = Done (nd, None)"
proof -
  have nat: "unat (request_cob_id m) = 0x600 + unat (raw m)" "unat (response_cob_id m) = 0x580 + unat (raw m)" for m
    using unat_cob_of [of "0x600" m] unat_cob_of [of "0x580" m]
    by (simp_all add: request_cob_id_def response_cob_id_def cob_of_def)
  have n: "unat (raw n) \<le> 127" using assms(2) by (simp add: device_id_nat)
  have "unat (raw (nd_id nd)) \<noteq> unat (raw n)"
    using assms(1) by (cases "nd_id nd"; cases n) (auto simp: bystander_def word_unat_eq_iff)
  then have "unat c \<noteq> unat (request_cob_id (nd_id nd))" using assms(3) nat n by auto
  then have "c \<noteq> srv_request_cob_id (nd_sdo nd)"
    using assms(1) by (auto simp: bystander_def wf_node_def srv_request_cob_id_def)
  moreover have "unat c < 0x700 \<and> 0x580 \<le> unat c" using assms(3) nat n by auto
  then have "c \<noteq> LSS_MASTER_COB_ID" "c \<noteq> NMT_COMMAND_COB_ID" by auto
  moreover have "find (\<lambda>r. rp_cob_id r = c) (v_slice (no_rpdos E) (nd_rpdos nd)) = None"
    using assms(1,3) by (auto simp: bystander_def find_None_iff)
  ultimately show ?thesis by (simp add: on_frame_def on_rpdo_def)
qed

locale network = node_env E N + can_frames F
  for E :: "('m, 'b, 'p, 'r, 't, 'h, 'v) node_ops" and N :: nat and F :: "'f frame_ops" +
  fixes others :: "('m, 'b, 'r, 't, 'h) node list" and i :: nat and n :: node_id
  assumes dev: "device_id n" and inside: "i < length others"
    and bystanders: "j < length others \<Longrightarrow> j \<noteq> i \<Longrightarrow> bystander E n (others ! j)"

definition net_ready :: "('m, 'b, 'p, 'r, 't, 'h, 'v) node_ops \<Rightarrow> 'f frame_ops \<Rightarrow>
    ('m, 'b, 'r, 't, 'h) node list \<Rightarrow> nat \<Rightarrow> node_id \<Rightarrow>
    (('m, 'b, 'r, 't, 'h) node, 'f) net_world \<Rightarrow> bool" where
  "net_ready E F others i n w \<longleftrightarrow>
     (\<exists>nd. nw_nodes w = others[i := nd] \<and> serving E nd \<and> nd_id nd = n) \<and>
     quiet F (response_cob_id n) (nw_queue w)"

definition net_idle :: "('m, 'b, 'p, 'r, 't, 'h, 'v) node_ops \<Rightarrow> 'f frame_ops \<Rightarrow>
    ('m, 'b, 'r, 't, 'h) node list \<Rightarrow> nat \<Rightarrow> node_id \<Rightarrow>
    (('m, 'b, 'r, 't, 'h) node, 'f) net_world \<Rightarrow> bool" where
  "net_idle E F others i n w \<longleftrightarrow> net_ready E F others i n w \<and> nw_queue w = []"

lemma net_recv_on:
  assumes "quiet F c q" and "fr_is_data F g" and "frame_cob_id F g = Some c"
  shows "nw_queue w = q @ [g] \<Longrightarrow>
    recv_on (net_socket E F) c w = Some (w\<lparr>nw_queue := []\<rparr>, Inr (received_new c (fr_data F g)))"
  using assms(1)
proof (induction q arbitrary: w)
  case Nil
  then show ?case using assms(2,3) by (subst recv_on_frame) (simp add: net_socket_def net_read_def)
next
  case (Cons f q)
  then show ?case by (subst recv_on_frame) (auto simp: net_socket_def net_read_def quiet_def)
qed

context network
begin

lemma serving_exchange:
  assumes "serving E nd" and "nd_id nd = n" and "length p = 8"
    and "srv_handle (no_od E) (no_bytes E) (nd_od nd) (nd_sdo nd) p = Done (od', srv', Some resp)"
  shows "length resp = 8 \<and> serving E (nd\<lparr>nd_od := od', nd_sdo := srv'\<rparr>) \<and>
    (\<exists>f g. frame_from F (request_cob_id n) p = Some f \<and>
      frame_cob_id F g = Some (response_cob_id n) \<and> fr_data F g = resp \<and> fr_is_data F g \<and>
      node_reaction E F f nd = (nd\<lparr>nd_od := od', nd_sdo := srv'\<rparr>, [g]) \<and>
      (\<forall>b. bystander E n b \<longrightarrow> node_reaction E F f b = (b, []) \<and> node_reaction E F g b = (b, [])))"
proof -
  note wire = device_bus.intro [OF node_env_axioms can_frames_axioms]
  note s = device_bus.serve_request [OF wire assms(1,3,4)]
  note ids = request_cob_id_cases [OF dev]
  obtain f where f: "frame_from F (request_cob_id n) p = Some f"
    "frame_cob_id F f = Some (request_cob_id n)" "fr_data F f = p"
    using frame_from_ok [OF ids(3), of p] assms(3) by auto
  obtain g where g: "frame_from F (response_cob_id n) resp = Some g"
    "frame_cob_id F g = Some (response_cob_id n)" "fr_data F g = resp" "fr_is_data F g"
    using frame_from_ok [OF ids(4), of resp] s(3) by auto
  have "node_reaction E F f nd = (nd\<lparr>nd_od := od', nd_sdo := srv'\<rparr>, [g])"
    using f g s assms(2) by (simp add: node_reaction_def)
  moreover have "node_reaction E F f b = (b, []) \<and> node_reaction E F g b = (b, [])" if "bystander E n b" for b
    using bystander_ignores [OF that dev] f g by (simp add: node_reaction_def)
  ultimately show ?thesis using s(2,3) f(1) g(2-4) by blast
qed

end

sublocale network \<subseteq> net_link: sdo_link "no_od E" N "no_bytes E" "net_socket E F" "\<lambda>w. nw_nodes w ! i"
  "net_ready E F others i n" "net_idle E F others i n"
proof
  show "wf_od (no_od E) (nd_od (nw_nodes w ! i))" if "net_ready E F others i n w" for w
    using that inside by (auto simp: net_ready_def serving_def wf_node_def)
  show "net_ready E F others i n w" if "net_idle E F others i n w" for w using that by (simp add: net_idle_def)
  fix w :: "(('m, 'b, 'r, 't, 'h) node, 'f) net_world" and p od' srv' resp
  let ?d = "nw_nodes w ! i"
  assume w: "net_ready E F others i n w" and p: "length p = 8"
    and h: "srv_handle (no_od E) (no_bytes E) (nd_od ?d) (nd_sdo ?d) p = Done (od', srv', Some resp)"
  obtain nd where nd: "nw_nodes w = others[i := nd]" "serving E nd" "nd_id nd = n"
    and q: "quiet F (response_cob_id n) (nw_queue w)" using w by (auto simp: net_ready_def)
  have d: "?d = nd" using nd(1) inside by simp
  let ?nd' = "nd\<lparr>nd_od := od', nd_sdo := srv'\<rparr>"
  obtain f g where x: "length resp = 8" "serving E ?nd'" "frame_from F (request_cob_id n) p = Some f"
    "frame_cob_id F g = Some (response_cob_id n)" "fr_data F g = resp" "fr_is_data F g"
    "node_reaction E F f nd = (?nd', [g])"
    "\<forall>b. bystander E n b \<longrightarrow> node_reaction E F f b = (b, []) \<and> node_reaction E F g b = (b, [])"
    using serving_exchange [OF nd(2,3) p] h unfolding d by blast
  let ?w1 = "w\<lparr>nw_nodes := others[i := ?nd'], nw_queue := nw_queue w @ [g]\<rparr>"
  let ?w2 = "?w1\<lparr>nw_queue := []\<rparr>"
  obtain k where k: "length others = Suc k" using inside by (cases "length others") auto
  have "net_run E F (Suc (Suc k)) (others[i := nd]) [(None, f)] = Some (others[i := nd, i := ?nd'], [g])"
    using inside x(7,8) bystanders by (intro net_run_answered) auto
  then have "net_write E F w f = (?w1, Inr ())" using nd(1) k by (simp add: net_write_def)
  then have 1: "send_frame (net_socket E F) (request_cob_id n) p w = (?w1, Inr ())"
    using x(3) by (simp add: send_frame_def net_socket_def)
  have 2: "recv_on (net_socket E F) (response_cob_id n) ?w1 =
      Some (?w2, Inr (received_new (response_cob_id n) resp))"
    using net_recv_on [OF q x(6,4), of ?w1] x(5) by simp
  have "net_idle E F others i n ?w2"
    using x(2) nd(3) by (auto simp: net_idle_def net_ready_def quiet_def)
  then show "length resp = 8 \<and>
      (\<exists>s1 s2. send_frame (net_socket E F) (request_cob_id (nd_id ?d)) p w = (s1, Inr ()) \<and>
        recv_on (net_socket E F) (response_cob_id (nd_id ?d)) s1 =
          Some (s2, Inr (received_new (response_cob_id (nd_id ?d)) resp)) \<and>
        nw_nodes s2 ! i = ?d\<lparr>nd_od := od', nd_sdo := srv'\<rparr> \<and> net_idle E F others i n s2)"
    unfolding d nd(3) using 1 2 x(1) inside by (intro conjI exI [of _ ?w1] exI [of _ ?w2]) simp_all
qed

context network
begin

lemmas net_read_ok = net_link.link_read_ok
lemmas net_write_result = net_link.link_write

end

text \<open>A read by the host reaches the addressed device alone.\<close>

lemma network_read:
  assumes "node_env E N" and "can_frames F" and "i < length nds" and "serving E (nds ! i)"
    and "\<forall>j < length nds. j \<noteq> i \<longrightarrow> bystander E (nd_id (nds ! i)) (nds ! j)"
    and "od_read (no_od E) (nd_od (nds ! i)) a = Inr v"
  shows "\<exists>nd. sdo_read (net_socket E F) (no_bytes E) (nd_id (nds ! i)) a (data_type_of v)
      \<lparr>nw_nodes = nds, nw_queue = []\<rparr> = Some (Done (\<lparr>nw_nodes = nds[i := nd], nw_queue = []\<rparr>, Inr v)) \<and>
    nd_od nd = nd_od (nds ! i)"
proof -
  let ?n = "nd_id (nds ! i)" and ?w = "\<lparr>nw_nodes = nds, nw_queue = []\<rparr>"
  have net: "network E N F nds i ?n"
    using assms(1-5) by (simp add: network_def network_axioms_def serving_def)
  have ready: "net_ready E F nds i ?n ?w"
    using assms(4) by (auto simp: net_ready_def quiet_def intro!: exI [of _ "nds ! i"])
  obtain s srv' where s: "sdo_read (net_socket E F) (no_bytes E) ?n a (data_type_of v) ?w = Some (Done (s, Inr v))"
    "nw_nodes s ! i = (nds ! i)\<lparr>nd_sdo := srv'\<rparr>" "net_idle E F nds i ?n s"
    using network.net_read_ok [OF net ready, of a v] assms(6) by auto
  then have "\<exists>nd. s = \<lparr>nw_nodes = nds[i := nd], nw_queue = []\<rparr> \<and> nd = nw_nodes s ! i"
    using assms(3) by (cases s) (auto simp: net_idle_def net_ready_def)
  then show ?thesis using s by fastforce
qed

section \<open>Properties\<close>

text \<open>C15: One device among many. On a bus with any number of nodes, whose ids differ from that of the device
  and whose receive PDOs are not on its SDO channels, a read by the host returns the value of the device's
  dictionary and a write changes exactly the object of the device; every other node is left in exactly
  the state it was in.\<close>

theorem network_sdo_isolated:
  assumes "node_env E N" and "can_frames F" and "i < length nds" and "serving E (nds ! i)"
    and "\<forall>j < length nds. j \<noteq> i \<longrightarrow> bystander E (nd_id (nds ! i)) (nds ! j)"
    and "od_read (no_od E) (nd_od (nds ! i)) a = Inr v"
    and "od_write (no_od E) (nd_od (nds ! i)) b x = Inr od'" and "wf_value x"
  shows "(\<exists>nd. sdo_read (net_socket E F) (no_bytes E) (nd_id (nds ! i)) a (data_type_of v)
        \<lparr>nw_nodes = nds, nw_queue = []\<rparr> = Some (Done (\<lparr>nw_nodes = nds[i := nd], nw_queue = []\<rparr>, Inr v)) \<and>
      nd_od nd = nd_od (nds ! i)) \<and>
    (\<exists>nd. sdo_write (net_socket E F) (no_bytes E) (nd_id (nds ! i)) b x
        \<lparr>nw_nodes = nds, nw_queue = []\<rparr> = Some (Done (\<lparr>nw_nodes = nds[i := nd], nw_queue = []\<rparr>, Inr ())) \<and>
      nd_od nd = od')"
proof -
  let ?n = "nd_id (nds ! i)" and ?w = "\<lparr>nw_nodes = nds, nw_queue = []\<rparr>"
  have dev: "device_id ?n" using assms(4) by (simp add: serving_def)
  have net: "network E N F nds i ?n"
    using assms(1-3,5) dev by (simp add: network_def network_axioms_def)
  have ready: "net_ready E F nds i ?n ?w"
    using assms(4) by (auto simp: net_ready_def quiet_def intro!: exI [of _ "nds ! i"])
  have shape: "\<exists>nd. s = \<lparr>nw_nodes = nds[i := nd], nw_queue = []\<rparr> \<and> nd = nw_nodes s ! i"
    if "net_idle E F nds i ?n s" for s
    using that assms(3) by (cases s) (auto simp: net_idle_def net_ready_def)
  obtain e where e: "lm_get (no_od E) (nd_od (nds ! i)) b = Some e" "is_writable (e_access e)"
    "data_type_of (e_value e) = data_type_of x" "od' = lm_put (no_od E) (nd_od (nds ! i)) b (e\<lparr>e_value := x\<rparr>)"
    using assms(7) by (auto simp: od_write_def split: option.splits if_splits)
  then have "write_result (no_od E) (nd_od (nds ! i)) b (encode_payload x) = (od', Complete None)"
    using decode_le_encode_payload [OF assms(8)] by (simp add: write_result_def)
  then obtain t srv'' where t: "sdo_write (net_socket E F) (no_bytes E) ?n b x ?w = Some (Done (t, Inr ()))"
    "nw_nodes t ! i = (nds ! i)\<lparr>nd_od := od', nd_sdo := srv''\<rparr>" "net_idle E F nds i ?n t"
    using network.net_write_result [OF net ready assms(8), of b] by auto
  show ?thesis using network_read [OF assms(1-6)] t shape [OF t(3)] by fastforce
qed

text \<open>Two nodes with the same dictionary and different ids.\<close>

definition example_nodes where
  "example_nodes = [wd_node example_bus, node_new (list_node_ops 4) (NodeId 0x11) example_od]"

lemma example_bystander: "bystander (list_node_ops 4) (NodeId 0x10) (example_nodes ! 1)"
proof -
  have "wf_node (list_node_ops 4) (node_new (list_node_ops 4) (NodeId 0x11) example_od)"
    by (rule list_node.wf_node_new) (simp add: example_od_wf)
  then show ?thesis by (simp add: example_nodes_def bystander_def) (simp add: node_new_def list_ops_def)
qed

lemma example_device: "nd_id (example_nodes ! 0) = NodeId 0x10" "serving (list_node_ops 4) (example_nodes ! 0)"
  using example_bus_serves(1) by (simp_all add: example_nodes_def example_bus_def node_new_def)

interpretation two_nodes: network "list_node_ops 4" 4 example_frames example_nodes 0 "NodeId 0x10"
proof unfold_locales
  show "device_id (NodeId 0x10)" "0 < length example_nodes" by (simp_all add: device_id_def example_nodes_def)
  show "bystander (list_node_ops 4) (NodeId 0x10) (example_nodes ! j)" if "j < length example_nodes" "j \<noteq> 0" for j
  proof -
    have "j = 1" using that by (simp add: example_nodes_def)
    then show ?thesis using example_bystander by simp
  qed
qed

theorem network_sdo_isolated_witness:
  "\<exists>nd. sdo_write (net_socket (list_node_ops 4) example_frames) (list_ops MAX_STRING_LEN) (NodeId 0x10)
      (Address 0x1017 0) (Unsigned16 7) \<lparr>nw_nodes = example_nodes, nw_queue = []\<rparr> =
    Some (Done (\<lparr>nw_nodes = example_nodes[0 := nd], nw_queue = []\<rparr>, Inr ())) \<and>
    od_read (assoc_ops 4) (nd_od nd) (Address 0x1017 0) = Inr (Unsigned16 7)"
proof -
  have od: "nd_od (example_nodes ! 0) = example_od" by (simp add: example_nodes_def example_bus_def node_new_def)
  have r: "od_read (assoc_ops 4) example_od (Address 0x1017 0) = Inr (Unsigned16 1000)" by code_simp
  obtain od' where w: "od_write (assoc_ops 4) example_od (Address 0x1017 0) (Unsigned16 7) = Inr od'"
    "od_read (assoc_ops 4) od' (Address 0x1017 0) = Inr (Unsigned16 7)"
  proof -
    have "case od_write (assoc_ops 4) example_od (Address 0x1017 0) (Unsigned16 7) of
        Inl e \<Rightarrow> False | Inr od' \<Rightarrow> od_read (assoc_ops 4) od' (Address 0x1017 0) = Inr (Unsigned16 7)" by code_simp
    then show thesis using that by (auto split: sum.splits)
  qed
  have others: "\<forall>j < length example_nodes. j \<noteq> 0 \<longrightarrow>
      bystander (list_node_ops 4) (nd_id (example_nodes ! 0)) (example_nodes ! j)"
    using two_nodes.bystanders by (simp add: example_device(1))
  show ?thesis
    using network_sdo_isolated [OF list_node.node_env_axioms plain_frames.can_frames_axioms _ example_device(2) others,
        of "Address 0x1017 0" "Unsigned16 1000" "Address 0x1017 0" "Unsigned16 7" od'] r w od example_device(1) two_nodes.inside
    by auto
qed

text \<open>
  What a node-control command with the target \<open>node\<close> (0 for all) does to a node: it reaches the
  configured nodes that it addresses.
\<close>

definition nmt_received :: "nmt_command \<Rightarrow> u8 \<Rightarrow> ('m, 'b, 'r, 't, 'h) node \<Rightarrow> ('m, 'b, 'r, 't, 'h) node" where
  "nmt_received c node nd =
     (if lss_unconfigured nd \<or> node \<noteq> 0 \<and> raw (nd_id nd) \<noteq> node then nd
      else nd\<lparr>nd_nmt := \<lparr>sm_state = nmt_next (node_state nd) c\<rparr>\<rparr>)"

text \<open>C16: The nmt command of the tool reaches the nodes it addresses. On a bus with any number of nodes,
  \<open>canopen nmt\<close> with a known command and node 0 takes every configured node to the state that CiA 301
  gives for the command, and with a node-id it does so to the nodes of that id only; no node answers and
  nothing else of a node changes. With an id above 127 or an unknown command nothing is sent.\<close>

theorem nmt_command_reaches:
  assumes "can_frames F" and "ce_linux W" and "ce_open W ifname = Inr w" and "ce_read_timeout W w = (w, Inr ())"
  shows "cli_main W (net_socket E F) B (CmdNmt ifname cmd node) =
    (if 127 < node then Some (Done (Some w, [],
        Inl (lit ''node id '' @ show_int (uint node) @ lit '' out of range (1..=127)'')))
     else (case parse_nmt_command cmd of
        Inl e \<Rightarrow> Some (Done (Some w, [], Inl e))
      | Inr c \<Rightarrow>
          Some (Done (Some (w\<lparr>nw_nodes := map (nmt_received c node) (nw_nodes w)\<rparr>),
            println (lit ''sent '' @ cmd @ lit '' to '' @
              (if node = 0 then lit ''all nodes'' else lit ''node '' @ hex_alt 2 (uint node))), Inr ()))))"
proof -
  have opened: "bus_open W ifname = Inr w" using assms(3,4) by (simp add: bus_open_def socket_open_def)
  have sent: "send_nmt (net_socket E F) c t w =
      (w\<lparr>nw_nodes := map (nmt_received c (raw t)) (nw_nodes w)\<rparr>, Inr ())" if t: "wf_node_id t" for c t
  proof -
    obtain f where f: "frame_from F 0 (encode_command c t) = Some f" "frame_cob_id F f = Some 0"
      "fr_data F f = encode_command c t"
      using can_frames.frame_from_ok [OF assms(1), of 0 "encode_command c t"] by (auto simp: encode_command_def)
    have dec: "decode_command (encode_command c t) = Inr (c, t)"
      using t decode_command_Inr_iff [of "encode_command c t" c t] by (simp add: encode_command_def)
    have "node_reaction E F f nd = (nmt_received c (raw t) nd, [])" for nd
      using f dec
      by (cases t; cases "nd_id nd")
        (auto simp: node_reaction_def on_frame_def on_nmt_def nmt_received_def encode_command_def BROADCAST_def
          nmt_apply_def Let_def node_state_def)
    then have "net_run E F (Suc (length (nw_nodes w))) (nw_nodes w) [(None, f)] =
        Some (map (\<lambda>i. nmt_received c (raw t) (nw_nodes w ! i)) [0..<length (nw_nodes w)], [])"
      using net_run_silent [of "nw_nodes w" None E F f "length (nw_nodes w)"] by simp
    also have "map (\<lambda>i. nmt_received c (raw t) (nw_nodes w ! i)) [0..<length (nw_nodes w)] =
        map (nmt_received c (raw t)) (nw_nodes w)" by (rule nth_equalityI) simp_all
    finally show ?thesis
      using f by (simp add: send_nmt_def send_frame_def net_socket_def net_write_def del: net_run.simps)
  qed
  show ?thesis
  proof (cases "127 < node")
    case True
    then have "node \<noteq> 0" "cli_node_id node = Inl (lit ''node id '' @ show_int (uint node) @ lit '' out of range (1..=127)'')"
      by (auto simp: cli_node_id_def node_id_new_def)
    then show ?thesis using True opened assms(2) by (simp add: cmd_nmt_def run_nmt_def cli_nmt_def)
  next
    case False
    define t where "t = NodeId node"
    have t: "(if node = 0 then Inr BROADCAST else cli_node_id node) = Inr t" "wf_node_id t" "raw t = node"
      using False by (auto simp: t_def BROADCAST_def cli_node_id_def node_id_new_def wf_node_id_def device_id_def
          word_le_nat_alt word_less_nat_alt word_unat_eq_iff)
    then show ?thesis using False opened assms(2) sent [OF t(2)]
      by (cases "parse_nmt_command cmd") (simp_all add: cmd_nmt_def run_nmt_def cli_nmt_def)
  qed
qed

theorem nmt_command_reaches_witness:
  "cli_main (example_env \<lparr>nw_nodes = example_nodes, nw_queue = []\<rparr>)
      (net_socket (list_node_ops 4) example_frames) (list_ops MAX_STRING_LEN) (CmdNmt (lit ''vcan0'') (lit ''start'') 0x10) =
    Some (Done (Some \<lparr>nw_nodes = map (nmt_received StartRemoteNode 0x10) example_nodes, nw_queue = []\<rparr>,
      println (lit ''sent start to node 0x10''), Inr ()))"
proof -
  have "parse_nmt_command (lit ''start'') = Inr StartRemoteNode"
    by (simp add: parse_nmt_command_def ascii_lower_def lit_def)
  moreover have "lit ''sent '' @ lit ''start'' @ lit '' to '' @ lit ''node '' @ hex_alt 2 (uint (0x10 :: u8)) =
      lit ''sent start to node 0x10''"
    by code_simp
  ultimately show ?thesis
    using nmt_command_reaches [OF plain_frames.can_frames_axioms, of "example_env \<lparr>nw_nodes = example_nodes, nw_queue = []\<rparr>"
        "lit ''vcan0''" "\<lparr>nw_nodes = example_nodes, nw_queue = []\<rparr>" "list_node_ops 4" "list_ops MAX_STRING_LEN"
        "lit ''start''" "0x10"]
    by (simp add: example_env_def)
qed

end
