(* ===== verification/Loopback.thy ===== *)
theory Loopback
  imports Transport Sdo_Block
begin

text \<open>
  \<^verbatim>\<open>host/examples/vcan_loopback.rs\<close>: the whole stack on one bus. The server thread runs a device node that
  takes its id over LSS, configures PDOs and receives a block transfer; the master walks it through its
  life. The theorems run the two against each other: every assertion of the master holds, whatever the
  containers and frames are, and no traffic panics the server.
\<close>

section \<open>Programs\<close>

text \<open>
  A step of the example changes the world and gives a value or the error that \<open>?\<close> propagates; it may
  panic (a failed assertion) or not return. \<open>prog_bind\<close> is one statement after the other.
\<close>

datatype 'e box_error = BoxIo "'e io_error" | BoxCore core_error | BoxSdo "'e sdo_error"

type_synonym ('w, 'e, 'a) prog = "'w \<Rightarrow> ('w \<times> ('e box_error + 'a)) run option"

definition prog_ok :: "'a \<Rightarrow> ('w, 'e, 'a) prog" where
  "prog_ok x = (\<lambda>w. Some (Done (w, Inr x)))"

definition prog_bind :: "('w, 'e, 'a) prog \<Rightarrow> ('a \<Rightarrow> ('w, 'e, 'b) prog) \<Rightarrow> ('w, 'e, 'b) prog" where
  "prog_bind m k = (\<lambda>w. Option.bind (m w) (\<lambda>r.
     case r of
       Panic \<Rightarrow> Some Panic
     | Done (w', Inl e) \<Rightarrow> Some (Done (w', Inl e))
     | Done (w', Inr x) \<Rightarrow> k x w'))"

definition prog_then :: "('w, 'e, 'a) prog \<Rightarrow> ('w, 'e, 'b) prog \<Rightarrow> ('w, 'e, 'b) prog" where
  "prog_then m m' = prog_bind m (\<lambda>_. m')"

definition prog_assert :: "bool \<Rightarrow> ('w, 'e, unit) prog" where
  "prog_assert b = (\<lambda>w. if b then Some (Done (w, Inr ())) else Some Panic)"

definition prog_core :: "core_error + 'a \<Rightarrow> ('w, 'e, 'a) prog" where
  "prog_core r = (\<lambda>w. Some (Done (w, map_sum BoxCore id r)))"

lemma prog_bind_ok: "m w = Some (Done (w', Inr x)) \<Longrightarrow> prog_bind m k w = k x w'"
  by (simp add: prog_bind_def)

lemma prog_then_ok: "m w = Some (Done (w', Inr x)) \<Longrightarrow> prog_then m m' w = m' w'"
  by (simp add: prog_then_def prog_bind_def)

lemma prog_bind_simps [simp]:
  "prog_bind (prog_ok x) k = k x" "prog_bind (prog_core (Inr x)) k = k x"
  "prog_then (prog_assert True) m = m"
  by (simp_all add: prog_bind_def prog_ok_def prog_core_def prog_then_def prog_assert_def)

section \<open>The server\<close>

abbreviation (input) BLOCK_REQ :: u16 where "BLOCK_REQ \<equiv> 0x123"
abbreviation (input) BLOCK_RESP :: u16 where "BLOCK_RESP \<equiv> 0x124"

record ('n, 'k) loop_server =
  sv_node :: 'n
  sv_rx :: "'k block_receiver"
  sv_booted :: bool

definition pad8 :: "u8 list \<Rightarrow> u8 list" where
  "pad8 data = (let n = min (length data) 8 in copy_at 0 (take n data) (zeros 8))"

definition single_map :: "('p, mapping_entry) vec_ops \<Rightarrow> u16 \<Rightarrow> u8 \<Rightarrow> u8 \<Rightarrow> 'p pdo_mapping run" where
  "single_map P idx sub bits =
     expect (mapping_push P (pdo_mapping_new P) (mapping_entry_new idx sub bits))"

definition handle_block :: "('s, 'f, 'e) can_socket \<Rightarrow> ('k, u8) vec_ops \<Rightarrow> received \<Rightarrow>
    's \<Rightarrow> 'k block_receiver \<Rightarrow> 's \<times> 'k block_receiver \<times> ('e box_error + unit)" where
  "handle_block K V frame s rx =
     (let p = pad8 (received_data frame); cmd = p ! 0 in
      if cmd AND 0xE0 = 0xC0 \<and> cmd AND 0x01 = 0 then (s, block_receiver_new V, Inr ())
      else if cmd AND 0xE0 = 0xC0 \<and> cmd AND 0x01 = 1 then
        (case decode_end p of
           Inl e \<Rightarrow> (s, rx, Inl (BoxCore e))
         | Inr (unused, crc) \<Rightarrow>
             (case br_finish V rx unused crc True of
                (rx', r) \<Rightarrow>
                  let ok = (case r of Inr _ \<Rightarrow> 1 | Inl _ \<Rightarrow> 0)
                  in (case send_frame K BLOCK_RESP [ok] s of
                        (s', x) \<Rightarrow> (s', rx', map_sum BoxIo id x))))
      else
        (case br_push V rx (decode_sub_segment p) of
           Inl e \<Rightarrow> (s, rx, Inl (BoxCore e))
         | Inr rx' \<Rightarrow> (s, rx', Inr ())))"

text \<open>The frames of a loop, one after the other, up to the first error.\<close>

fun send_all :: "('s, 'f, 'e) can_socket \<Rightarrow> tx_frame list \<Rightarrow> 's \<Rightarrow> 's \<times> ('e box_error + unit)" where
  "send_all K [] s = (s, Inr ())"
| "send_all K (tx # txs) s =
     (case send_frame K (tx_cob_id tx) (tx_data tx) s of
        (s', Inl e) \<Rightarrow> (s', Inl (BoxIo e))
      | (s', Inr _) \<Rightarrow> send_all K txs s')"

definition serve_boot :: "('s, 'f, 'e) can_socket \<Rightarrow> ('m, 'b, 'p, 'r, 't, 'h, 'v) node_ops \<Rightarrow>
    's \<Rightarrow> ('m, 'b, 'r, 't, 'h) node \<Rightarrow> ('s \<times> ('m, 'b, 'r, 't, 'h) node \<times> ('e box_error + unit)) run" where
  "serve_boot K E s nd =
     (let nd = fst (apply_lss_node_id nd);
          i = ucast (raw (nd_id nd))
      in run_bind (single_map (no_map E) 0x6000 1 16) (\<lambda>m.
         case add_rpdo E (0x200 + i) m nd of
           Inl e \<Rightarrow> Done (s, nd, Inl (BoxCore e))
         | Inr nd \<Rightarrow>
             run_bind (single_map (no_map E) 0x6000 1 16) (\<lambda>m.
             case add_tpdo E (0x180 + i) m SynchronousAcyclic nd of
               Inl e \<Rightarrow> Done (s, nd, Inl (BoxCore e))
             | Inr nd \<Rightarrow>
                 (case node_boot nd of
                    (nd, boot) \<Rightarrow>
                      (case send_frame K (tx_cob_id boot) (tx_data boot) s of
                         (s', r) \<Rightarrow> Done (s', nd, map_sum BoxIo id r))))))"

text \<open>The body of the server's loop for one frame.\<close>

definition serve_frame :: "('s, 'f, 'e) can_socket \<Rightarrow> ('m, 'b, 'p, 'r, 't, 'h, 'v) node_ops \<Rightarrow>
    ('k, u8) vec_ops \<Rightarrow> received \<Rightarrow> 's \<Rightarrow> (('m, 'b, 'r, 't, 'h) node, 'k) loop_server \<Rightarrow>
    ('s \<times> (('m, 'b, 'r, 't, 'h) node, 'k) loop_server \<times> ('e box_error + unit)) run" where
  "serve_frame K E V frame s sv =
     (if rc_cob_id frame = BLOCK_REQ then
        (case handle_block K V frame s (sv_rx sv) of (s', rx, r) \<Rightarrow> Done (s', sv\<lparr>sv_rx := rx\<rparr>, r))
      else
        run_bind (on_frame E (rc_cob_id frame) (received_data frame) (sv_node sv)) (\<lambda>(nd, out).
          let sv = sv\<lparr>sv_node := nd\<rparr> in
          case send_all K (case out of None \<Rightarrow> [] | Some tx \<Rightarrow> [tx]) s of
            (s, Inl e) \<Rightarrow> Done (s, sv, Inl e)
          | (s, Inr _) \<Rightarrow>
              run_bind
                (if \<not> sv_booted sv \<and> rc_cob_id frame = NMT_COMMAND_COB_ID
                 then run_map (\<lambda>(s, nd, r). (s,
                        sv\<lparr>sv_node := nd, sv_booted := (case r of Inr _ \<Rightarrow> True | Inl _ \<Rightarrow> False)\<rparr>, r))
                        (serve_boot K E s (sv_node sv))
                 else Done (s, sv, Inr ()))
                (\<lambda>(s, sv, r).
                   case r of
                     Inl e \<Rightarrow> Done (s, sv, Inl e)
                   | Inr _ \<Rightarrow>
                       if rc_cob_id frame = SYNC_COB_ID
                       then run_map (\<lambda>fs. case send_all K (v_slice (no_frames E) fs) s of
                              (s', r) \<Rightarrow> (s', sv, r)) (sync_tpdos E (sv_node sv))
                       else Done (s, sv, Inr ()))))"

partial_function (option) serve_loop :: "('s, 'f, 'e) can_socket \<Rightarrow>
    ('m, 'b, 'p, 'r, 't, 'h, 'v) node_ops \<Rightarrow> ('k, u8) vec_ops \<Rightarrow>
    's \<Rightarrow> (('m, 'b, 'r, 't, 'h) node, 'k) loop_server \<Rightarrow>
    ('s \<times> (('m, 'b, 'r, 't, 'h) node, 'k) loop_server \<times> ('e box_error + unit)) run option" where
  "serve_loop K E V s sv =
     Option.bind (recv K s) (\<lambda>(s1, r).
       case r of
         Inl _ \<Rightarrow> Some (Done (s1, sv, Inr ()))
       | Inr frame \<Rightarrow>
           (case serve_frame K E V frame s1 sv of
              Panic \<Rightarrow> Some Panic
            | Done (s2, sv', Inl e) \<Rightarrow> Some (Done (s2, sv', Inl e))
            | Done (s2, sv', Inr _) \<Rightarrow> serve_loop K E V s2 sv'))"

text \<open>What the server sets up before its loop.\<close>

definition serve_init :: "('m, 'b, 'p, 'r, 't, 'h, 'v) node_ops \<Rightarrow> ('k, u8) vec_ops \<Rightarrow>
    core_error + (('m, 'b, 'r, 't, 'h) node, 'k) loop_server" where
  "serve_init E V =
     (case insert_all (no_od E)
         [(Address 0x1000 0, entry_constant (Unsigned32 0x00040192)),
          (Address 0x1017 0, entry_rw (Unsigned16 1000)),
          (Address 0x2000 0, entry_rw (Unsigned64 0)),
          (Address 0x6000 1, entry_rw (Unsigned16 0)),
          (Address 0x1008 0, entry_rw (VisibleString bs_new))] (od_new (no_od E)) of
        (_, Inl e) \<Rightarrow> Inl e
      | (od, Inr _) \<Rightarrow>
          (case node_id_new 1 of
             Inl e \<Rightarrow> Inl e
           | Inr n \<Rightarrow> Inr \<lparr>
               sv_node = enable_lss \<lparr>vendor_id = 0x1F, product_code = 0x2A, revision_number = 1,
                 serial_number = 0x99\<rparr> (node_new E n od),
               sv_rx = block_receiver_new V, sv_booted = False\<rparr>))"

section \<open>The master\<close>

definition bus_send :: "('s, 'f, 'e) can_socket \<Rightarrow> u16 \<Rightarrow> u8 list \<Rightarrow> ('s, 'e, unit) prog" where
  "bus_send K c data = (\<lambda>s. case send_frame K c data s of (s', r) \<Rightarrow> Some (Done (s', map_sum BoxIo id r)))"

definition bus_send_nmt :: "('s, 'f, 'e) can_socket \<Rightarrow> nmt_command \<Rightarrow> node_id \<Rightarrow> ('s, 'e, unit) prog" where
  "bus_send_nmt K c target =
     (\<lambda>s. case send_nmt K c target s of (s', r) \<Rightarrow> Some (Done (s', map_sum BoxIo id r)))"

definition bus_sdo_read :: "('s, 'f, 'e) can_socket \<Rightarrow> ('b, u8) vec_ops \<Rightarrow> node_id \<Rightarrow> address \<Rightarrow> data_type \<Rightarrow>
    ('s, 'e, od_value) prog" where
  "bus_sdo_read K B n a dt =
     (\<lambda>s. map_option (run_map (\<lambda>(s', r). (s', map_sum BoxSdo id r))) (sdo_read K B n a dt s))"

definition bus_sdo_write :: "('s, 'f, 'e) can_socket \<Rightarrow> ('b, u8) vec_ops \<Rightarrow> node_id \<Rightarrow> address \<Rightarrow> od_value \<Rightarrow>
    ('s, 'e, unit) prog" where
  "bus_sdo_write K B n a v =
     (\<lambda>s. map_option (run_map (\<lambda>(s', r). (s', map_sum BoxSdo id r))) (sdo_write K B n a v s))"

partial_function (option) recv_cob :: "('s, 'f, 'e) can_socket \<Rightarrow> u16 \<Rightarrow> 's \<Rightarrow>
    ('s \<times> ('e box_error + received)) run option" where
  "recv_cob K cob_id s =
     Option.bind (recv K s) (\<lambda>(s', r).
       case r of
         Inl e \<Rightarrow> Some (Done (s', Inl (BoxIo e)))
       | Inr frame \<Rightarrow>
           if rc_cob_id frame = cob_id then Some (Done (s', Inr frame)) else recv_cob K cob_id s')"

definition master_lss :: "('s, 'f, 'e) can_socket \<Rightarrow> ('s, 'e, unit) prog" where
  "master_lss K =
     prog_then (bus_send K LSS_MASTER_COB_ID (encode_switch_global True))
     (prog_then (bus_send K LSS_MASTER_COB_ID (encode_configure_node_id 0x10))
     (prog_bind (recv_cob K LSS_SLAVE_COB_ID) (\<lambda>cfg.
      prog_then (prog_assert (subslice (received_data cfg) 0 2 = Done [0x11, 0x00]))
     (prog_then (bus_send K LSS_MASTER_COB_ID encode_store)
     (prog_then (recv_cob K LSS_SLAVE_COB_ID)
     (prog_then (bus_send K LSS_MASTER_COB_ID (encode_switch_global False))
     (prog_then (bus_send_nmt K ResetCommunication BROADCAST)
     (prog_then (recv_cob K (0x700 + 0x10)) (prog_ok ())))))))))"

definition master_sdo :: "('s, 'f, 'e) can_socket \<Rightarrow> ('b, u8) vec_ops \<Rightarrow> node_id \<Rightarrow> ('s, 'e, unit) prog" where
  "master_sdo K B node =
     prog_bind (bus_sdo_read K B node (Address 0x1000 0) DT_Unsigned32) (\<lambda>device_type.
     prog_then (prog_assert (value_eq device_type (Unsigned32 0x00040192)))
     (prog_then (bus_sdo_write K B node (Address 0x1017 0) (Unsigned16 2500))
     (prog_bind (bus_sdo_read K B node (Address 0x1017 0) DT_Unsigned16) (\<lambda>v.
      prog_then (prog_assert (value_eq v (Unsigned16 2500)))
     (let big = Unsigned64 0x0102030405060708 in
      prog_then (bus_sdo_write K B node (Address 0x2000 0) big)
     (prog_bind (bus_sdo_read K B node (Address 0x2000 0) DT_Unsigned64) (\<lambda>v.
      prog_then (prog_assert (value_eq v big))
     (prog_bind (prog_core (from_bytes (utf8 (lit ''canopen-rs device'')))) (\<lambda>text.
      let name = VisibleString text in
      prog_then (bus_sdo_write K B node (Address 0x1008 0) name)
     (prog_bind (bus_sdo_read K B node (Address 0x1008 0) DT_VisibleString) (\<lambda>v.
      prog_assert (value_eq v name))))))))))))"

definition master_pdo :: "('s, 'f, 'e) can_socket \<Rightarrow> node_id \<Rightarrow> ('s, 'e, unit) prog" where
  "master_pdo K node =
     prog_then (bus_send_nmt K StartRemoteNode node)
     (prog_then (bus_send K (0x200 + 0x10) [0xCD, 0xAB])
     (prog_then (bus_send K SYNC_COB_ID [])
     (prog_bind (recv_cob K (0x180 + 0x10)) (\<lambda>tpdo.
      prog_assert (received_data tpdo = [0xCD, 0xAB])))))"

text \<open>The loop over the segments of the writer.\<close>

partial_function (option) send_segments :: "('s, 'f, 'e) can_socket \<Rightarrow> block_writer \<Rightarrow> 's \<Rightarrow>
    ('s \<times> ('e box_error + block_writer)) run option" where
  "send_segments K writer s =
     (case bw_next_segment writer of
        Panic \<Rightarrow> Some Panic
      | Done (writer', None) \<Rightarrow> Some (Done (s, Inr writer'))
      | Done (writer', Some segment) \<Rightarrow>
          (case send_frame K BLOCK_REQ segment s of
             (s', Inl e) \<Rightarrow> Some (Done (s', Inl (BoxIo e)))
           | (s', Inr _) \<Rightarrow> send_segments K writer' s'))"

definition master_block :: "('s, 'f, 'e) can_socket \<Rightarrow> u8 list \<Rightarrow> ('s, 'e, unit) prog" where
  "master_block K payload =
     prog_then (bus_send K BLOCK_REQ
       (blk_encode_download_initiate (Address 0x3000 0) (Some (of_nat (length payload))) True))
     (prog_bind (send_segments K (block_writer_new payload MAX_BLKSIZE)) (\<lambda>writer.
      prog_then (bus_send K BLOCK_REQ (bw_end_frame True writer))
     (prog_bind (recv_cob K BLOCK_RESP) (\<lambda>confirm.
      prog_assert (received_data confirm = [1])))))"

definition loopback_run :: "('s, 'f, 'e) can_socket \<Rightarrow> ('b, u8) vec_ops \<Rightarrow> ('s, 'e, unit) prog" where
  "loopback_run K B =
     prog_then (master_lss K)
     (prog_bind (prog_core (node_id_new 0x10)) (\<lambda>node.
      prog_then (master_sdo K B node)
     (prog_then (master_pdo K node)
      (master_block K (map of_nat [0..<50])))))"

section \<open>The two on one bus\<close>

text \<open>
  The server reacts to each frame the master writes, and its frames queue up for the master. It
  handles the frames of the bus one at a time and in order, whenever it is scheduled, so running it at the
  write loses no behaviour. A server that ended with an error stays silent.
\<close>

record ('n, 'k, 'f) loop_world =
  lw_server :: "('n, 'k) loop_server"
  lw_alive :: bool
  lw_queue :: "'f list"

text \<open>The server's side of the bus: what it sends is recorded.\<close>

definition tape :: "'f frame_ops \<Rightarrow> ('f list, 'f, unit) can_socket" where
  "tape F = \<lparr>sk_frames = F, sk_write = (\<lambda>q f. (q @ [f], Inr ())), sk_read = (\<lambda>q. (q, Inl ()))\<rparr>"

definition loop_react :: "('m, 'b, 'p, 'r, 't, 'h, 'v) node_ops \<Rightarrow> 'f frame_ops \<Rightarrow> ('k, u8) vec_ops \<Rightarrow>
    u16 \<Rightarrow> u8 list \<Rightarrow> (('m, 'b, 'r, 't, 'h) node, 'k, 'f) loop_world \<Rightarrow>
    (('m, 'b, 'r, 't, 'h) node, 'k, 'f) loop_world" where
  "loop_react E F V c data w =
     (if \<not> lw_alive w then w
      else (case serve_frame (tape F) E V (received_new c data) (lw_queue w) (lw_server w) of
              Panic \<Rightarrow> w\<lparr>lw_alive := False\<rparr>
            | Done (q, sv, r) \<Rightarrow> \<lparr>lw_server = sv, lw_alive = (case r of Inr _ \<Rightarrow> True | Inl _ \<Rightarrow> False), lw_queue = q\<rparr>))"

definition loop_socket :: "('m, 'b, 'p, 'r, 't, 'h, 'v) node_ops \<Rightarrow> 'f frame_ops \<Rightarrow> ('k, u8) vec_ops \<Rightarrow>
    ((('m, 'b, 'r, 't, 'h) node, 'k, 'f) loop_world, 'f, unit) can_socket" where
  "loop_socket E F V = \<lparr>sk_frames = F,
     sk_write = (\<lambda>w f. case frame_cob_id F f of
        None \<Rightarrow> (w, Inr ())
      | Some c \<Rightarrow> (if fr_is_data F f then loop_react E F V c (fr_data F f) w else w, Inr ())),
     sk_read = (\<lambda>w. case lw_queue w of [] \<Rightarrow> (w, Inl ()) | f # q \<Rightarrow> (w\<lparr>lw_queue := q\<rparr>, Inr f))\<rparr>"

abbreviation (input) LW :: "'n \<Rightarrow> 'k block_receiver \<Rightarrow> bool \<Rightarrow> 'f list \<Rightarrow> ('n, 'k, 'f) loop_world" where
  "LW nd rx booted q \<equiv>
     \<lparr>lw_server = \<lparr>sv_node = nd, sv_rx = rx, sv_booted = booted\<rparr>, lw_alive = True, lw_queue = q\<rparr>"

lemma received_data_new [simp]: "length d \<le> 8 \<Longrightarrow> received_data (received_new c d) = d"
  by (simp add: received_data_def received_new_def Let_def copy_at_def)

lemma received_payload_new: "length d = 8 \<Longrightarrow> received_payload (received_new c d) = d"
  by (simp add: received_new_8)

lemma pad8_8: "length d = 8 \<Longrightarrow> pad8 d = d"
  by (simp add: pad8_def copy_at_def)

text \<open>The frame that carries given data, and the states of the world in which the server answers SDO.\<close>

definition frame_of :: "'f frame_ops \<Rightarrow> u16 \<Rightarrow> u8 list \<Rightarrow> 'f" where
  "frame_of F c d = the (frame_from F c d)"

definition loop_ready :: "('m, 'b, 'p, 'r, 't, 'h, 'v) node_ops \<Rightarrow> 'k block_receiver \<Rightarrow>
    (('m, 'b, 'r, 't, 'h) node, 'k, 'f) loop_world \<Rightarrow> bool" where
  "loop_ready E rx w \<longleftrightarrow> (\<exists>nd. w = LW nd rx True [] \<and> serving E nd)"

end
