(* ===== verification/Async_Server.thy ===== *)
theory Async_Server
  imports Async_Transport Loopback
begin

text \<open>
  \<^verbatim>\<open>host/examples/async_vcan.rs\<close>: a device node served by one task while another runs SDO transactions,
  each on its own socket of one bus. The two interleave at their awaits in any order. The theorem says
  that every order is a run of the bus of Transport, on which the node answers at once: so every
  schedule ends, and with the same result.
\<close>

section \<open>The server task\<close>

text \<open>The loop waits for a frame, or sends the node's answer; an error, or a panic of the node, ends it.\<close>

datatype 'n server_task = Listening 'n | Answering 'n tx_frame | Ended 'n

fun poll_server :: "('s, 'f, 'e) async_socket \<Rightarrow> ('m, 'b, 'p, 'r, 't, 'h, 'v) node_ops \<Rightarrow>
    ('m, 'b, 'r, 't, 'h) node server_task \<Rightarrow> 's \<Rightarrow>
    ('s \<times> ('m, 'b, 'r, 't, 'h) node server_task) option" where
  "poll_server K E (Listening nd) s =
     map_option (\<lambda>(s', r). (s',
       case r of
         Inl e \<Rightarrow> Ended nd
       | Inr None \<Rightarrow> Listening nd
       | Inr (Some frame) \<Rightarrow>
           (case on_frame E (rc_cob_id frame) (received_data frame) nd of
              Panic \<Rightarrow> Ended nd
            | Done (nd', None) \<Rightarrow> Listening nd'
            | Done (nd', Some tx) \<Rightarrow> Answering nd' tx))) (async_recv K s)"
| "poll_server K E (Answering nd tx) s =
     map_option (\<lambda>(s', r). (s', case r of Inl e \<Rightarrow> Ended nd | Inr _ \<Rightarrow> Listening nd))
       (async_send K (tx_cob_id tx) (tx_data tx) s)"
| "poll_server K E (Ended nd) s = None"

text \<open>The dictionary and the node of the example.\<close>

definition async_server_od :: "'m od_ops \<Rightarrow> core_error + 'm" where
  "async_server_od M =
     (case insert_all M
         [(Address 0x1000 0, entry_constant (Unsigned32 0x00040192)),
          (Address 0x1017 0, entry_rw (Unsigned16 1000)),
          (Address 0x2000 0, entry_rw (Unsigned64 0))] (od_new M) of
        (_, Inl e) \<Rightarrow> Inl e
      | (od, Inr _) \<Rightarrow> Inr od)"

definition async_server_start :: "('m, 'b, 'p, 'r, 't, 'h, 'v) node_ops \<Rightarrow> node_id \<Rightarrow>
    ('m, 'b, 'r, 't, 'h) node server_task run" where
  "async_server_start E n =
     run_map (\<lambda>od. Listening (fst (node_boot (node_new E n od)))) (expect (async_server_od (no_od E)))"

section \<open>The client task\<close>

text \<open>
  The main task is a sequence of awaited transactions: a read with the value that is asserted, or a
  write. An error ends it with that error, a failing assertion is a panic.
\<close>

datatype async_op = ReadExpect address data_type od_value | WriteOp address od_value

datatype ('b, 'e) async_main =
    Reading "('b, 'e, od_value) sdo_task" od_value "async_op list"
  | Writing "('b, 'e, unit) sdo_task" "async_op list"
  | Returned "'e sdo_error + unit"

fun await_next :: "node_id \<Rightarrow> async_op list \<Rightarrow> ('b, 'e) async_main run" where
  "await_next n [] = Done (Returned (Inr ()))"
| "await_next n (ReadExpect a dt v # ops) = Done (Reading (async_sdo_read n a dt) v ops)"
| "await_next n (WriteOp a v # ops) = run_map (\<lambda>t. Writing t ops) (async_sdo_write n a v)"

fun poll_main :: "('s, 'f, 'e) async_socket \<Rightarrow> ('b, u8) vec_ops \<Rightarrow> node_id \<Rightarrow>
    ('b, 'e) async_main \<Rightarrow> 's \<Rightarrow> ('s \<times> ('b, 'e) async_main) run option" where
  "poll_main K B n (Reading t v ops) s =
     (case t of
        Finished (Inl e) \<Rightarrow> Some (Done (s, Returned (Inl e)))
      | Finished (Inr x) \<Rightarrow>
          Some (if value_eq x v then run_map (\<lambda>m. (s, m)) (await_next n ops) else Panic)
      | _ \<Rightarrow> map_option (run_map (\<lambda>(s', t'). (s', Reading t' v ops))) (poll_task K B t s))"
| "poll_main K B n (Writing t ops) s =
     (case t of
        Finished (Inl e) \<Rightarrow> Some (Done (s, Returned (Inl e)))
      | Finished (Inr _) \<Rightarrow> Some (run_map (\<lambda>m. (s, m)) (await_next n ops))
      | _ \<Rightarrow> map_option (run_map (\<lambda>(s', t'). (s', Writing t' ops))) (poll_task K B t s))"
| "poll_main K B n (Returned r) s = None"

definition async_example_ops :: "async_op list" where
  "async_example_ops =
     (let big = Unsigned64 0x0102030405060708 in
      [ReadExpect (Address 0x1000 0) DT_Unsigned32 (Unsigned32 0x00040192),
       WriteOp (Address 0x1017 0) (Unsigned16 2500),
       ReadExpect (Address 0x1017 0) DT_Unsigned16 (Unsigned16 2500),
       WriteOp (Address 0x2000 0) big,
       ReadExpect (Address 0x2000 0) DT_Unsigned64 big])"

section \<open>The two on one bus\<close>

text \<open>A frame written to one socket of the interface is delivered to the other, in order.\<close>

record 'f wires =
  to_server :: "'f list"
  to_client :: "'f list"

definition server_end :: "'f frame_ops \<Rightarrow> ('f wires, 'f, unit) async_socket" where
  "server_end F = \<lparr>as_frames = F,
     as_write = (\<lambda>w f. Some (w\<lparr>to_client := to_client w @ [f]\<rparr>, Inr ())),
     as_read = (\<lambda>w. case to_server w of [] \<Rightarrow> None | f # q \<Rightarrow> Some (w\<lparr>to_server := q\<rparr>, Inr f))\<rparr>"

definition client_end :: "'f frame_ops \<Rightarrow> ('f wires, 'f, unit) async_socket" where
  "client_end F = \<lparr>as_frames = F,
     as_write = (\<lambda>w f. Some (w\<lparr>to_server := to_server w @ [f]\<rparr>, Inr ())),
     as_read = (\<lambda>w. case to_client w of [] \<Rightarrow> None | f # q \<Rightarrow> Some (w\<lparr>to_client := q\<rparr>, Inr f))\<rparr>"

text \<open>The scheduler polls either task when it is ready.\<close>

inductive net_step :: "('m, 'b, 'p, 'r, 't, 'h, 'v) node_ops \<Rightarrow> 'f frame_ops \<Rightarrow> node_id \<Rightarrow>
    'f wires \<times> ('m, 'b, 'r, 't, 'h) node server_task \<times> ('b, unit) async_main \<Rightarrow>
    'f wires \<times> ('m, 'b, 'r, 't, 'h) node server_task \<times> ('b, unit) async_main \<Rightarrow> bool"
  for E :: "('m, 'b, 'p, 'r, 't, 'h, 'v) node_ops" and F :: "'f frame_ops" and n :: node_id where
  server: "poll_server (server_end F) E sv w = Some (w', sv') \<Longrightarrow> net_step E F n (w, sv, c) (w', sv', c)"
| client: "poll_main (client_end F) (no_bytes E) n c w = Some (Done (w', c')) \<Longrightarrow>
    net_step E F n (w, sv, c) (w', sv, c')"

inductive_cases net_stepE: "net_step E F n (w, sv, c) st"

section \<open>The bus that answers at once\<close>

text \<open>
  The state of the bus of Transport that a state of the two tasks stands for: the one in which the
  server has handled all that was sent to it.
\<close>

fun server_node :: "'n server_task \<Rightarrow> 'n" where
  "server_node (Listening nd) = nd"
| "server_node (Answering nd tx) = nd"
| "server_node (Ended nd) = nd"

fun pending :: "'f frame_ops \<Rightarrow> 'n server_task \<Rightarrow> 'f list" where
  "pending F (Answering nd tx) =
     (case frame_from F (tx_cob_id tx) (tx_data tx) of None \<Rightarrow> [] | Some g \<Rightarrow> [g])"
| "pending F _ = []"

definition settled :: "('m, 'b, 'p, 'r, 't, 'h, 'v) node_ops \<Rightarrow> 'f frame_ops \<Rightarrow> 'f wires \<Rightarrow>
    ('m, 'b, 'r, 't, 'h) node server_task \<Rightarrow> (('m, 'b, 'r, 't, 'h) node, 'f) bus_world" where
  "settled E F w sv = fold (\<lambda>f bw. fst (bus_write E F bw f)) (to_server w)
     \<lparr>wd_node = server_node sv, wd_queue = to_client w @ pending F sv, wd_noise = []\<rparr>"

text \<open>What the server still has to do.\<close>

definition load :: "'f wires \<Rightarrow> 'n server_task \<Rightarrow> nat" where
  "load w sv = 2 * length (to_server w) + (case sv of Answering nd tx \<Rightarrow> 1 | _ \<Rightarrow> 0)"

definition net_ok :: "('m, 'b, 'p, 'r, 't, 'h, 'v) node_ops \<Rightarrow> 'f frame_ops \<Rightarrow> 'f wires \<Rightarrow>
    ('m, 'b, 'r, 't, 'h) node server_task \<Rightarrow> bool" where
  "net_ok E F w sv \<longleftrightarrow> wf_node E (server_node sv) \<and>
     (\<forall>f \<in> set (to_server w). fr_is_data F f \<and> length (fr_data F f) \<le> 8) \<and>
     (case sv of
        Listening nd \<Rightarrow> True
      | Answering nd tx \<Rightarrow> frame_from F (tx_cob_id tx) (tx_data tx) \<noteq> None
      | Ended nd \<Rightarrow> False)"

text \<open>Frames already in the queue of the bus do not change what a write does.\<close>

lemma bus_write_queue:
  "fst (bus_write E F (bw\<lparr>wd_queue := p @ wd_queue bw\<rparr>) f) =
    (fst (bus_write E F bw f))\<lparr>wd_queue := p @ wd_queue (fst (bus_write E F bw f))\<rparr>"
  by (cases bw) (simp add: bus_write_def split: option.split run.split prod.split)

lemma fold_bus_write_queue:
  "fold (\<lambda>f bw. fst (bus_write E F bw f)) fs (bw\<lparr>wd_queue := p @ wd_queue bw\<rparr>) =
    (let bw' = fold (\<lambda>f bw. fst (bus_write E F bw f)) fs bw in bw'\<lparr>wd_queue := p @ wd_queue bw'\<rparr>)"
proof (induction fs arbitrary: bw)
  case (Cons f fs)
  show ?case by (simp add: bus_write_queue Cons.IH Let_def)
qed simp

lemma settled_pop:
  "settled E F (w\<lparr>to_client := f # q\<rparr>) sv =
    (settled E F (w\<lparr>to_client := q\<rparr>) sv)\<lparr>wd_queue := f # wd_queue (settled E F (w\<lparr>to_client := q\<rparr>) sv)\<rparr>"
  using fold_bus_write_queue [where fs = "to_server w" and p = "[f]" and
      bw = "\<lparr>wd_node = server_node sv, wd_queue = q @ pending F sv, wd_noise = []\<rparr>"]
  by (simp add: settled_def Let_def)

lemma settled_push:
  "settled E F (w\<lparr>to_server := to_server w @ [f]\<rparr>) sv = fst (bus_write E F (settled E F w sv) f)"
  by (simp add: settled_def)

lemma bus_write_ok: "snd (bus_write E F bw f) = Inr ()"
  by (simp add: bus_write_def split: option.split run.split prod.split)

text \<open>A server with nothing to do has settled.\<close>

lemma settled_idle:
  "load w sv = 0 \<Longrightarrow> net_ok E F w sv \<Longrightarrow>
    \<exists>nd. sv = Listening nd \<and> to_server w = [] \<and>
      settled E F w sv = \<lparr>wd_node = nd, wd_queue = to_client w, wd_noise = []\<rparr>"
  by (cases sv) (simp_all add: load_def net_ok_def settled_def)

text \<open>One step of a task, and of the main task, on the settled bus; both are functions of the state.\<close>

definition task_step :: "('m, 'b, 'p, 'r, 't, 'h, 'v) node_ops \<Rightarrow> 'f frame_ops \<Rightarrow>
    (('m, 'b, 'r, 't, 'h) node, 'f) bus_world \<times> ('b, unit, 'x) sdo_task \<Rightarrow>
    (('m, 'b, 'r, 't, 'h) node, 'f) bus_world \<times> ('b, unit, 'x) sdo_task \<Rightarrow> bool" where
  "task_step E F c c' \<longleftrightarrow> poll_task (bus_async E F) (no_bytes E) (snd c) (fst c) = Some (Done c')"

definition main_step :: "('m, 'b, 'p, 'r, 't, 'h, 'v) node_ops \<Rightarrow> 'f frame_ops \<Rightarrow> node_id \<Rightarrow>
    (('m, 'b, 'r, 't, 'h) node, 'f) bus_world \<times> ('b, unit) async_main \<Rightarrow>
    (('m, 'b, 'r, 't, 'h) node, 'f) bus_world \<times> ('b, unit) async_main \<Rightarrow> bool" where
  "main_step E F n c c' \<longleftrightarrow> poll_main (bus_async E F) (no_bytes E) n (snd c) (fst c) = Some (Done c')"

context device_bus
begin

lemma response_cob_id_small: "response_cob_id n \<le> 0x7FF"
proof -
  have "unat (raw n) < 256" using unsigned_less [where 'a = nat, of "raw n"] by simp
  then show ?thesis using unat_cob_of [of "0x580" n]
    by (simp add: response_cob_id_def cob_of_def word_le_nat_alt)
qed

text \<open>A step of the server does not change the settled bus.\<close>

lemma server_step:
  assumes "net_ok E F w sv" and "poll_server (server_end F) E sv w = Some (w', sv')"
  shows "net_ok E F w' sv'" and "settled E F w' sv' = settled E F w sv" and "load w' sv' < load w sv"
proof -
  have "net_ok E F w' sv' \<and> settled E F w' sv' = settled E F w sv \<and> load w' sv' < load w sv"
  proof (cases sv)
    case (Listening nd)
    then obtain f q where q: "to_server w = f # q" using assms(2)
      by (cases "to_server w") (simp_all add: async_recv_def server_end_def)
    have f: "fr_is_data F f" "length (fr_data F f) \<le> 8" "wf_node E nd"
      and q8: "\<forall>g \<in> set q. fr_is_data F g \<and> length (fr_data F g) \<le> 8"
      using assms(1) Listening q by (auto simp: net_ok_def)
    show ?thesis
    proof (cases "frame_cob_id F f")
      case None
      then have "w' = w\<lparr>to_server := q\<rparr>" "sv' = Listening nd"
        using assms(2) Listening q f by (simp_all add: async_recv_def server_end_def)
      then show ?thesis using None Listening q f q8 by (simp add: net_ok_def settled_def load_def bus_write_def)
    next
      case (Some c)
      obtain nd' out where r: "on_frame E c (fr_data F f) nd = Done (nd', out)" "wf_node E nd'"
        "\<forall>tx. out = Some tx \<longrightarrow> length (tx_data tx) = 8 \<and>
          (tx_cob_id tx = LSS_SLAVE_COB_ID \<or> tx_cob_id tx = response_cob_id (nd_id nd))"
        using on_frame_safe [OF node_env_axioms f(3), of c "fr_data F f"] by blast
      have w': "w' = w\<lparr>to_server := q\<rparr>"
        "sv' = (case out of None \<Rightarrow> Listening nd' | Some tx \<Rightarrow> Answering nd' tx)"
        using assms(2) Listening q f Some r by (auto simp: async_recv_def server_end_def split: option.splits)
      have tx: "frame_from F (tx_cob_id tx) (tx_data tx) \<noteq> None" if "out = Some tx" for tx
        using r(3) that response_cob_id_small by (auto simp: frame_from_None not_less)
      show ?thesis
        using w' r Some Listening q f q8 tx
        by (cases out) (auto simp: net_ok_def settled_def load_def bus_write_def split: option.splits)
    qed
  next
    case (Answering nd tx)
    then obtain g where g: "frame_from F (tx_cob_id tx) (tx_data tx) = Some g"
      using assms(1) by (auto simp: net_ok_def)
    then have "w' = w\<lparr>to_client := to_client w @ [g]\<rparr>" "sv' = Listening nd"
      using assms(2) Answering by (simp_all add: async_send_def server_end_def)
    then show ?thesis using assms(1) Answering g by (simp add: net_ok_def settled_def load_def)
  next
    case (Ended nd)
    then show ?thesis using assms(1) by (simp add: net_ok_def)
  qed
  then show "net_ok E F w' sv'" and "settled E F w' sv' = settled E F w sv" and "load w' sv' < load w sv"
    by simp_all
qed

lemma server_ready:
  assumes "net_ok E F w sv" and "load w sv \<noteq> 0"
  shows "poll_server (server_end F) E sv w \<noteq> None"
  using assms
  by (cases sv; cases "to_server w")
    (auto simp: net_ok_def load_def async_recv_def async_send_def server_end_def split: option.splits)

lemma ends:
  "as_frames (client_end F) = F" "as_frames (bus_async E F) = F"
  "as_read (client_end F) w =
    (case to_client w of [] \<Rightarrow> None | f # q \<Rightarrow> Some (w\<lparr>to_client := q\<rparr>, Inr f))"
  "as_read (bus_async E F) bw = (case wd_queue bw of [] \<Rightarrow> None | _ \<Rightarrow> Some (bus_read bw))"
  by (simp_all add: client_end_def bus_async_def)

text \<open>A step of the client is one on the settled bus.\<close>

lemma client_send:
  assumes "net_ok E F w sv" and "async_send (client_end F) c p w = Some (w', r)"
  shows "async_send (bus_async E F) c p (settled E F w sv) = Some (settled E F w' sv, r)"
    and "net_ok E F w' sv" and "load w' sv \<le> load w sv + 2"
proof -
  have "async_send (bus_async E F) c p (settled E F w sv) = Some (settled E F w' sv, r) \<and>
    net_ok E F w' sv \<and> load w' sv \<le> load w sv + 2"
  proof (cases "frame_from F c p")
    case None
    then show ?thesis using assms by (simp add: async_send_def client_end_def bus_async_def)
  next
    case (Some f)
    then have "length p \<le> 8" using frame_from_None [of c p] by auto
    moreover have w': "w' = w\<lparr>to_server := to_server w @ [f]\<rparr>" "r = Inr ()"
      using assms(2) Some by (simp_all add: async_send_def client_end_def)
    ultimately show ?thesis
      using assms(1) Some frame_from_Some [OF Some] bus_write_ok [of E F "settled E F w sv" f]
      by (auto simp: async_send_def bus_async_def settled_push net_ok_def load_def split_def prod_eq_iff)
  qed
  then show "async_send (bus_async E F) c p (settled E F w sv) = Some (settled E F w' sv, r)"
    and "net_ok E F w' sv" and "load w' sv \<le> load w sv + 2" by simp_all
qed

lemma client_recv_on:
  assumes "net_ok E F w sv" and "async_recv_on (client_end F) c w = Some (w', r)"
  shows "async_recv_on (bus_async E F) c (settled E F w sv) = Some (settled E F w' sv, r)"
    and "net_ok E F w' sv" and "load w' sv = load w sv"
proof -
  obtain f q where q: "to_client w = f # q" "w' = w\<lparr>to_client := q\<rparr>" using assms(2)
    by (cases "to_client w") (simp_all add: async_recv_on_def async_recv_def client_end_def)
  then have "w = w\<lparr>to_client := f # q\<rparr>" by simp
  then have s: "settled E F w sv =
      (settled E F w' sv)\<lparr>wd_queue := f # wd_queue (settled E F w' sv)\<rparr>"
    using settled_pop [where w = w and f = f and q = q] q(2) by metis
  show "async_recv_on (bus_async E F) c (settled E F w sv) = Some (settled E F w' sv, r)"
    using assms(2) q unfolding s async_recv_on_def async_recv_def ends by (simp add: bus_read_def)
  show "net_ok E F w' sv" "load w' sv = load w sv" using assms(1) q(2) by (simp_all add: net_ok_def load_def)
qed

lemma client_poll:
  assumes "net_ok E F w sv" and "poll_task (client_end F) B t w = Some r"
  shows "poll_task (bus_async E F) B t (settled E F w sv) =
      Some (case r of Panic \<Rightarrow> Panic | Done (w', t') \<Rightarrow> Done (settled E F w' sv, t'))"
    and "r = Done (w', t') \<Longrightarrow> net_ok E F w' sv \<and> load w' sv \<le> load w sv + 2"
proof -
  have "poll_task (bus_async E F) B t (settled E F w sv) =
      Some (case r of Panic \<Rightarrow> Panic | Done (w', t') \<Rightarrow> Done (settled E F w' sv, t')) \<and>
    (r = Done (w', t') \<longrightarrow> net_ok E F w' sv \<and> load w' sv \<le> load w sv + 2)"
  proof (cases t)
    case (Sending finish cl p)
    then obtain w1 x where x: "async_send (client_end F) (cl_request_cob_id cl) p w = Some (w1, x)"
      using assms(2) by auto
    then show ?thesis using assms(2) Sending client_send [OF assms(1) x] by auto
  next
    case (Receiving finish cl)
    then obtain w1 x where x: "async_recv_on (client_end F) (cl_response_cob_id cl) w = Some (w1, x)"
      using assms(2) by auto
    then show ?thesis using assms(2) Receiving client_recv_on [OF assms(1) x]
      by (auto simp: run_map_def run_bind_def split: sum.split option.split run.split)
  next
    case (Finished x)
    then show ?thesis using assms(2) by simp
  qed
  then show "poll_task (bus_async E F) B t (settled E F w sv) =
      Some (case r of Panic \<Rightarrow> Panic | Done (w', t') \<Rightarrow> Done (settled E F w' sv, t'))"
    and "r = Done (w', t') \<Longrightarrow> net_ok E F w' sv \<and> load w' sv \<le> load w sv + 2" by blast+
qed

text \<open>A client that could go on after the server has settled can go on, or the server can.\<close>

lemma client_waits:
  assumes "net_ok E F w sv" and "poll_task (bus_async E F) B t (settled E F w sv) \<noteq> None"
    and "poll_task (client_end F) B t w = None"
  shows "poll_server (server_end F) E sv w \<noteq> None"
proof (cases "load w sv = 0")
  case True
  then have "wd_queue (settled E F w sv) = to_client w" using settled_idle [OF True assms(1)] by auto
  then show ?thesis using assms(2,3)
    by (cases t; cases "to_client w")
      (auto simp: async_send_def async_recv_on_def async_recv_def client_end_def bus_async_def
        split: option.splits)
qed (use server_ready [OF assms(1)] in simp)

lemma main_poll:
  assumes "net_ok E F w sv" and "poll_main (client_end F) (no_bytes E) n m w = Some r"
  shows "poll_main (bus_async E F) (no_bytes E) n m (settled E F w sv) =
      Some (case r of Panic \<Rightarrow> Panic | Done (w', m') \<Rightarrow> Done (settled E F w' sv, m')) \<and>
    (\<forall>w' m'. r = Done (w', m') \<longrightarrow> net_ok E F w' sv \<and> load w' sv \<le> load w sv + 2)"
proof (cases m)
  case (Reading t v ops)
  show ?thesis
  proof (cases "\<exists>x. t = Finished x")
    case True
    then obtain x where t: "t = Finished x" by blast
    show ?thesis
    proof (cases "\<exists>y. x = Inr y \<and> value_eq y v")
      case True
      then show ?thesis using Reading t assms by (cases "await_next n ops :: ('b, unit) async_main run") auto
    next
      case False
      then show ?thesis using Reading t assms by (cases x) auto
    qed
  next
    case False
    obtain q where q: "poll_task (client_end F) (no_bytes E) t w = Some q" using assms(2) Reading False by (cases t) auto
    then have r: "r = run_map (\<lambda>(s', t'). (s', Reading t' v ops)) q" using assms(2) Reading False by (cases t) auto
    show ?thesis
      using client_poll [OF assms(1) q] Reading False r by (cases t; cases q) auto
  qed
next
  case (Writing t ops)
  show ?thesis
  proof (cases "\<exists>x. t = Finished x")
    case True
    then obtain x where t: "t = Finished x" by blast
    show ?thesis
    proof (cases x)
      case (Inl e)
      then show ?thesis using Writing t assms by auto
    next
      case (Inr y)
      then show ?thesis using Writing t assms by (cases "await_next n ops :: ('b, unit) async_main run") auto
    qed
  next
    case False
    obtain q where q: "poll_task (client_end F) (no_bytes E) t w = Some q" using assms(2) Writing False by (cases t) auto
    then have r: "r = run_map (\<lambda>(s', t'). (s', Writing t' ops)) q" using assms(2) Writing False by (cases t) auto
    show ?thesis
      using client_poll [OF assms(1) q] Writing False r by (cases t; cases q) auto
  qed
next
  case (Returned x)
  then show ?thesis using assms(2) by simp
qed

lemma main_waits:
  assumes "net_ok E F w sv" and "poll_main (bus_async E F) (no_bytes E) n m (settled E F w sv) \<noteq> None"
    and "poll_main (client_end F) (no_bytes E) n m w = None"
  shows "poll_server (server_end F) E sv w \<noteq> None"
proof (cases m)
  case (Reading t v ops)
  then have "poll_task (bus_async E F) (no_bytes E) t (settled E F w sv) \<noteq> None \<and>
      poll_task (client_end F) (no_bytes E) t w = None"
    using assms(2,3) by (cases t) (auto split: sum.splits simp del: poll_task.simps)
  then show ?thesis using client_waits [OF assms(1)] by blast
next
  case (Writing t ops)
  then have "poll_task (bus_async E F) (no_bytes E) t (settled E F w sv) \<noteq> None \<and>
      poll_task (client_end F) (no_bytes E) t w = None"
    using assms(2,3) by (cases t) (auto split: sum.splits simp del: poll_task.simps)
  then show ?thesis using client_waits [OF assms(1)] by blast
next
  case (Returned x)
  then show ?thesis using assms(2) by simp
qed

lemma main_step_final: "main_step E F n (bw, Returned r) c' \<Longrightarrow> False"
  by (simp add: main_step_def)

text \<open>
  If the run on the settled bus returns after \<open>i\<close> steps, every schedule of the two tasks is on the way
  there, and has taken a bounded number of steps.
\<close>

lemma net_run:
  assumes "net_ok E F w sv" and "(main_step E F n ^^ i) (settled E F w sv, c) (x, Returned r)"
    and "(net_step E F n ^^ k) (w, sv, c) (w', sv', c')"
  shows "\<exists>j. net_ok E F w' sv' \<and> (main_step E F n ^^ j) (settled E F w' sv', c') (x, Returned r) \<and>
    k + 3 * j + load w' sv' \<le> 3 * i + load w sv"
  using assms(3)
proof (induction k arbitrary: w' sv' c')
  case 0
  then show ?case using assms(1,2) by auto
next
  case (Suc k)
  obtain w1 sv1 c1 where 1: "(net_step E F n ^^ k) (w, sv, c) (w1, sv1, c1)"
    "net_step E F n (w1, sv1, c1) (w', sv', c')" using Suc.prems by auto
  obtain j where j: "net_ok E F w1 sv1" "(main_step E F n ^^ j) (settled E F w1 sv1, c1) (x, Returned r)"
    "k + 3 * j + load w1 sv1 \<le> 3 * i + load w sv" using Suc.IH [OF 1(1)] by blast
  from 1(2) consider (server) "poll_server (server_end F) E sv1 w1 = Some (w', sv')" "c' = c1"
    | (client) "poll_main (client_end F) (no_bytes E) n c1 w1 = Some (Done (w', c'))" "sv' = sv1"
    by (auto elim: net_stepE)
  then show ?case
  proof cases
    case server
    then have "net_ok E F w' sv' \<and> settled E F w' sv' = settled E F w1 sv1 \<and> load w' sv' < load w1 sv1"
      using server_step [OF j(1)] by auto
    then show ?thesis using j server by (intro exI [of _ j]) auto
  next
    case client
    then have p: "main_step E F n (settled E F w1 sv1, c1) (settled E F w' sv1, c')" "net_ok E F w' sv1"
      "load w' sv1 \<le> load w1 sv1 + 2" "sv' = sv1"
      using main_poll [OF j(1)] by (auto simp: main_step_def)
    have "j \<noteq> 0"
    proof
      assume "j = 0"
      then have "c1 = Returned r" using j(2) by simp
      then show False using p(1) main_step_final by blast
    qed
    then obtain j' where j': "j = Suc j'" by (cases j) auto
    then obtain y where y: "main_step E F n (settled E F w1 sv1, c1) y" "(main_step E F n ^^ j') y (x, Returned r)"
      using relpowp_Suc_D2 [OF j(2) [unfolded j']] by blast
    then have "y = (settled E F w' sv1, c')" using p(1) by (simp add: main_step_def)
    then show ?thesis using j' y(2) p(2-4) j(3) by (intro exI [of _ j']) simp
  qed
qed

lemma net_stuck:
  assumes "net_ok E F w sv" and "(main_step E F n ^^ j) (settled E F w sv, c) (x, Returned r)"
    and "\<nexists>st. net_step E F n (w, sv, c) st"
  shows "c = Returned r \<and> (\<exists>nd. sv = Listening nd \<and> to_server w = [] \<and>
    x = \<lparr>wd_node = nd, wd_queue = to_client w, wd_noise = []\<rparr>)"
proof -
  have srv: "poll_server (server_end F) E sv w = None"
    using assms(3) by (cases "poll_server (server_end F) E sv w") (auto intro: net_step.server)
  then have idle: "load w sv = 0" using server_ready [OF assms(1)] by blast
  have "j = 0"
  proof (rule ccontr)
    assume "j \<noteq> 0"
    then obtain j' where "j = Suc j'" by (cases j) auto
    then obtain y where y: "main_step E F n (settled E F w sv, c) y" using relpowp_Suc_D2 assms(2) by metis
    then obtain q where q: "poll_main (client_end F) (no_bytes E) n c w = Some q"
      using main_waits [OF assms(1)] srv by (fastforce simp: main_step_def)
    have "q = Panic" using assms(3) q by (cases q) (auto intro: net_step.client)
    then show False using main_poll [OF assms(1) q] y by (simp add: main_step_def)
  qed
  then have "c = Returned r" "x = settled E F w sv" using assms(2) by simp_all
  then show ?thesis using settled_idle [OF idle assms(1)] by auto
qed

text \<open>A blocking transaction that succeeds never waited in vain, so it is a run of the task on the settled bus.\<close>

lemma task_path:
  assumes "run_task A B t bw = Some y"
  shows "A = async_of (bus_socket E F) \<Longrightarrow> B = no_bytes E \<Longrightarrow> y = Done (bw', Inr x) \<Longrightarrow>
    (task_step E F)\<^sup>*\<^sup>* (bw, t) (bw', Finished (Inr x))"
proof (induction rule: run_task.raw_induct [OF _ assms, consumes 0, case_names step])
  case (step f A B t bw y)
  have fin: "\<not> (task_step E F)\<^sup>*\<^sup>* (b, Finished (Inl e)) (bw', Finished (Inr x))" for b e
    by (auto simp: task_step_def elim: converse_rtranclpE)
  show ?case
  proof (cases "\<exists>r. t = Finished r")
    case True
    then show ?thesis using step.hyps step.prems by auto
  next
    case False
    then obtain b t' where poll: "poll_task A B t bw = Some (Done (b, t'))" "f A B t' b = Some y"
      using step.hyps step.prems(3)
      by (cases t; cases "poll_task A B t bw") (auto split: run.splits simp del: poll_task.simps)
    note IH = step.IH [OF poll(2) step.prems]
    have "poll_task (bus_async E F) (no_bytes E) t bw = Some (Done (b, t'))"
    proof (cases t)
      case (Sending finish cl p)
      have "async_send A (cl_request_cob_id cl) p bw = async_send (bus_async E F) (cl_request_cob_id cl) p bw"
        unfolding async_send_bus step.prems(1)
        by (auto simp: async_send_def send_frame_def async_of_def split: option.split prod.split)
      then show ?thesis using poll(1) step.prems(2) Sending by simp
    next
      case (Receiving finish cl)
      show ?thesis
      proof (cases "wd_queue bw")
        case Nil
        then have "t' = Finished (Inl (SdoIo (SocketError ())))" using poll(1) step.prems(1) Receiving
          by (simp add: async_recv_on_def async_recv_def async_of_def bus_socket_def bus_read_def)
        then show ?thesis using IH fin by simp
      next
        case (Cons g q)
        have fr: "as_frames A = F" "as_read A bw = as_read (bus_async E F) bw"
          using Cons step.prems(1) by (simp_all add: async_of_def bus_socket_def bus_async_def)
        have "async_recv_on A c bw = async_recv_on (bus_async E F) c bw" for c
          unfolding async_recv_on_def async_recv_def fr ends ..
        then show ?thesis using poll(1) step.prems(2) Receiving by simp
      qed
    qed (use False in simp)
    then have "task_step E F (bw, t) (b, t')" by (simp add: task_step_def)
    then show ?thesis using IH by (rule converse_rtranclp_into_rtranclp)
  qed
qed

lemma reading_path:
  assumes "(task_step E F)\<^sup>*\<^sup>* (bw, t) (bw', t')"
  shows "(main_step E F n)\<^sup>*\<^sup>* (bw, Reading t v ops) (bw', Reading t' v ops)"
  using assms
proof (induction rule: rtranclp_induct2)
  case (step b1 t1 b2 t2)
  then have "main_step E F n (b1, Reading t1 v ops) (b2, Reading t2 v ops)"
    by (cases t1) (auto simp: task_step_def main_step_def simp del: poll_task.simps(1,2))
  then show ?case using step.IH by (rule rtranclp.rtrancl_into_rtrancl [rotated])
qed simp

lemma writing_path:
  assumes "(task_step E F)\<^sup>*\<^sup>* (bw, t) (bw', t')"
  shows "(main_step E F n)\<^sup>*\<^sup>* (bw, Writing t ops) (bw', Writing t' ops)"
  using assms
proof (induction rule: rtranclp_induct2)
  case (step b1 t1 b2 t2)
  then have "main_step E F n (b1, Writing t1 ops) (b2, Writing t2 ops)"
    by (cases t1) (auto simp: task_step_def main_step_def simp del: poll_task.simps(1,2))
  then show ?case using step.IH by (rule rtranclp.rtrancl_into_rtrancl [rotated])
qed simp

end

text \<open>What a sequence of operations does to a dictionary on which all of them succeed.\<close>

fun ops_run :: "'m od_ops \<Rightarrow> 'm \<Rightarrow> async_op list \<Rightarrow> 'm option" where
  "ops_run M od [] = Some od"
| "ops_run M od (ReadExpect a dt v # ops) =
     (if od_read M od a = Inr v \<and> dt = data_type_of v \<and> value_eq v v then ops_run M od ops else None)"
| "ops_run M od (WriteOp a v # ops) =
     (case od_write M od a v of
        Inl _ \<Rightarrow> None
      | Inr od' \<Rightarrow> if wf_value v then ops_run M od' ops else None)"

context device_bus
begin

lemma main_path:
  assumes "bus_ready E F bw" and "ops_run (no_od E) (nd_od (wd_node bw)) ops = Some od'"
    and "nd_id (wd_node bw) = n"
  shows "\<exists>m bw'. await_next n ops = Done m \<and> (main_step E F n)\<^sup>*\<^sup>* (bw, m) (bw', Returned (Inr ())) \<and>
    nd_od (wd_node bw') = od'"
  using assms
proof (induction ops arbitrary: bw)
  case Nil
  then show ?case by auto
next
  case (Cons op ops)
  show ?case
  proof (cases op)
    case (ReadExpect a dt v)
    then have v: "od_read (no_od E) (nd_od (wd_node bw)) a = Inr v" "dt = data_type_of v"
      "ops_run (no_od E) (nd_od (wd_node bw)) ops = Some od'" and eq: "value_eq v v"
      using Cons.prems(2) by (auto split: if_splits)
    obtain b srv' where b: "sdo_read (bus_socket E F) (no_bytes E) n a dt bw = Some (Done (b, Inr v))"
      "wd_node b = (wd_node bw)\<lparr>nd_sdo := srv'\<rparr>" "bus_idle E F b"
      using bus_link.link_read_ok [OF Cons.prems(1) v(1)] v(2) Cons.prems(3) by auto
    have "run_task (async_of (bus_socket E F)) (no_bytes E) (async_sdo_read n a dt) bw = Some (Done (b, Inr v))"
      using b(1) by (simp add: sdo_read_def async_sdo_read_def run_task_transaction split_def)
    from reading_path [OF task_path [OF this refl refl refl], of n v ops]
    have 1: "(main_step E F n)\<^sup>*\<^sup>* (bw, Reading (async_sdo_read n a dt) v ops) (b, Reading (Finished (Inr v)) v ops)" .
    obtain m bw' where m: "await_next n ops = Done m" "(main_step E F n)\<^sup>*\<^sup>* (b, m) (bw', Returned (Inr ()))"
      "nd_od (wd_node bw') = od'"
      using Cons.IH [of b] b(2,3) v(3) Cons.prems(3) by (auto simp: bus_idle_def)
    have "main_step E F n (b, Reading (Finished (Inr v)) v ops) (b, m)" using m(1) eq by (simp add: main_step_def)
    then have "(main_step E F n)\<^sup>*\<^sup>* (bw, Reading (async_sdo_read n a dt) v ops) (bw', Returned (Inr ()))"
      using 1 m(2) by (meson rtranclp.rtrancl_into_rtrancl rtranclp_trans)
    then show ?thesis using ReadExpect m(3) by auto
  next
    case (WriteOp a v)
    then obtain od1 where v: "od_write (no_od E) (nd_od (wd_node bw)) a v = Inr od1" "wf_value v"
      "ops_run (no_od E) od1 ops = Some od'"
      using Cons.prems(2) by (auto split: if_splits sum.splits)
    then obtain e where e: "lm_get (no_od E) (nd_od (wd_node bw)) a = Some e" "is_writable (e_access e)"
      "data_type_of (e_value e) = data_type_of v" "od1 = lm_put (no_od E) (nd_od (wd_node bw)) a (e\<lparr>e_value := v\<rparr>)"
      by (auto simp: od_write_def split: option.splits if_splits)
    have wr: "write_result (no_od E) (nd_od (wd_node bw)) a (encode_payload v) = (od1, Complete None)"
      using e decode_le_encode_payload [OF v(2)] by (simp add: write_result_def)
    obtain b srv' where b: "sdo_write (bus_socket E F) (no_bytes E) n a v bw = Some (Done (b, Inr ()))"
      "wd_node b = (wd_node bw)\<lparr>nd_od := od1, nd_sdo := srv'\<rparr>" "bus_idle E F b"
      using bus_link.link_write [OF Cons.prems(1) v(2), of a] wr Cons.prems(3) by auto
    obtain cl :: "'b sdo_client" and p where cl: "client_write (sdo_client_new n) a v = Done (cl, p)"
      using client_write_post [OF v(2), of "sdo_client_new n :: 'b sdo_client" a] by blast
    let ?t = "Sending (\<lambda>_. Inr ()) cl p :: ('b, unit, unit) sdo_task"
    have "run_task (async_of (bus_socket E F)) (no_bytes E) ?t bw = Some (Done (b, Inr ()))"
      using b(1) cl by (simp add: sdo_write_def run_task_transaction)
    from writing_path [OF task_path [OF this refl refl refl], of n ops]
    have 1: "(main_step E F n)\<^sup>*\<^sup>* (bw, Writing ?t ops) (b, Writing (Finished (Inr ())) ops)" .
    obtain m bw' where m: "await_next n ops = Done m" "(main_step E F n)\<^sup>*\<^sup>* (b, m) (bw', Returned (Inr ()))"
      "nd_od (wd_node bw') = od'"
      using Cons.IH [of b] b(2,3) v(3) Cons.prems(3) by (auto simp: bus_idle_def)
    have "main_step E F n (b, Writing (Finished (Inr ())) ops) (b, m)" using m(1) by (simp add: main_step_def)
    then have "(main_step E F n)\<^sup>*\<^sup>* (bw, Writing ?t ops) (bw', Returned (Inr ()))"
      using 1 m(2) by (meson rtranclp.rtrancl_into_rtrancl rtranclp_trans)
    then show ?thesis using WriteOp m(3) cl by (auto simp: async_sdo_write_def)
  qed
qed

end

section \<open>Properties\<close>

text \<open>C12: Every schedule of a client and a server ends well. While one task serves a device node and another
  awaits any sequence of SDO reads and writes that the node's dictionary admits, each on its own socket
  of a bus, the scheduler may poll them in any order: it can do so only a bounded number of times, it
  is never stuck before the client has returned, and when nothing can be polled any more the client
  has returned without an error or a failed assertion, the server listens again, and its dictionary
  is the one that the operations produce one after the other.\<close>

theorem async_schedules_agree:
  assumes "device_bus E N F" and "serving E nd" and "ops_run (no_od E) (nd_od nd) ops = Some od'"
  shows "\<exists>m. await_next (nd_id nd) ops = Done m \<and>
    (\<exists>bound. \<forall>k st. (net_step E F (nd_id nd) ^^ k) (\<lparr>to_server = [], to_client = []\<rparr>, Listening nd, m) st \<longrightarrow>
      k \<le> bound) \<and>
    (\<forall>st. (net_step E F (nd_id nd))\<^sup>*\<^sup>* (\<lparr>to_server = [], to_client = []\<rparr>, Listening nd, m) st \<longrightarrow>
      (\<exists>st'. net_step E F (nd_id nd) st st') \<or>
      (\<exists>w nd'. st = (w, Listening nd', Returned (Inr ())) \<and> to_server w = [] \<and> nd_od nd' = od'))"
proof -
  let ?n = "nd_id nd" and ?w = "\<lparr>to_server = [], to_client = []\<rparr>"
  let ?bw = "\<lparr>wd_node = nd, wd_queue = [], wd_noise = []\<rparr>"
  have bw: "settled E F ?w (Listening nd) = ?bw" by (simp add: settled_def)
  have "bus_ready E F ?bw" using assms(2) by (simp add: bus_ready_def quiet_def)
  from device_bus.main_path [OF assms(1) this _ refl, of ops od'] assms(3) obtain m bw' where
    m: "await_next ?n ops = Done m" "(main_step E F ?n)\<^sup>*\<^sup>* (?bw, m) (bw', Returned (Inr ()))"
    "nd_od (wd_node bw') = od'" by auto
  then obtain i where i: "(main_step E F ?n ^^ i) (settled E F ?w (Listening nd), m) (bw', Returned (Inr ()))"
    unfolding bw by (auto dest: rtranclp_imp_relpowp)
  have ok: "net_ok E F ?w (Listening nd)" using assms(2) by (simp add: net_ok_def serving_def)
  have run: "\<exists>j. net_ok E F w' sv' \<and> (main_step E F ?n ^^ j) (settled E F w' sv', c') (bw', Returned (Inr ())) \<and>
      k + 3 * j + load w' sv' \<le> 3 * i" if "(net_step E F ?n ^^ k) (?w, Listening nd, m) (w', sv', c')" for k w' sv' c'
    using device_bus.net_run [OF assms(1) ok i that] by (simp add: load_def)
  have "k \<le> 3 * i" if "(net_step E F ?n ^^ k) (?w, Listening nd, m) st" for k st
    using that run [of k] by (cases st) force
  moreover have "(\<exists>st'. net_step E F ?n st st') \<or>
      (\<exists>w nd'. st = (w, Listening nd', Returned (Inr ())) \<and> to_server w = [] \<and> nd_od nd' = od')"
    if reach: "(net_step E F ?n)\<^sup>*\<^sup>* (?w, Listening nd, m) st" for st
  proof -
    obtain w sv c where st: "st = (w, sv, c)" by (cases st)
    obtain k where "(net_step E F ?n ^^ k) (?w, Listening nd, m) (w, sv, c)"
      using rtranclp_imp_relpowp [OF reach] unfolding st by blast
    from run [OF this] obtain j where j: "net_ok E F w sv"
      "(main_step E F ?n ^^ j) (settled E F w sv, c) (bw', Returned (Inr ()))" by blast
    show ?thesis using device_bus.net_stuck [OF assms(1) j] m(3) unfolding st by fastforce
  qed
  ultimately show ?thesis using m(1) by blast
qed

section \<open>The example\<close>

context device_bus
begin

lemma async_server_od_result:
  assumes "3 \<le> N"
  shows "\<exists>od. async_server_od (no_od E) = Inr od \<and> wf_od (no_od E) od \<and> lm_get (no_od E) od = map_of
    [(Address 0x1000 0, entry_constant (Unsigned32 0x00040192)), (Address 0x1017 0, entry_rw (Unsigned16 1000)),
     (Address 0x2000 0, entry_rw (Unsigned64 0))]"
proof -
  let ?es = "[(Address 0x1000 0, entry_constant (Unsigned32 0x00040192)),
      (Address 0x1017 0, entry_rw (Unsigned16 1000)), (Address 0x2000 0, entry_rw (Unsigned64 0))]"
  have "distinct (map fst ?es)" "length ?es \<le> N" "\<forall>x \<in> set ?es. wf_value (e_value (snd x))"
    using assms by simp_all
  from insert_all_new [OF this] obtain od where
    "insert_all (no_od E) ?es (od_new (no_od E)) = (od, Inr ())" "wf_od (no_od E) od" "lm_get (no_od E) od = map_of ?es"
    by blast
  then show ?thesis by (simp add: async_server_od_def del: insert_all.simps)
qed

lemma async_example_admitted:
  assumes "3 \<le> N" and "device_id n"
  shows "\<exists>nd od'. async_server_start E n = Done (Listening nd) \<and> serving E nd \<and> nd_id nd = n \<and>
    ops_run (no_od E) (nd_od nd) async_example_ops = Some od' \<and> lm_get (no_od E) od' = map_of
      [(Address 0x1000 0, entry_constant (Unsigned32 0x00040192)), (Address 0x1017 0, entry_rw (Unsigned16 2500)),
       (Address 0x2000 0, entry_rw (Unsigned64 0x0102030405060708))]"
proof -
  obtain od where od: "async_server_od (no_od E) = Inr od" "wf_od (no_od E) od" "lm_get (no_od E) od = map_of
    [(Address 0x1000 0, entry_constant (Unsigned32 0x00040192)), (Address 0x1017 0, entry_rw (Unsigned16 1000)),
     (Address 0x2000 0, entry_rw (Unsigned64 0))]"
    using async_server_od_result [OF assms(1)] by blast
  let ?nd = "fst (node_boot (node_new E n od))"
  have "wf_node E (node_new E n od)" using od(2) by (rule wf_node_new)
  then have "serving E ?nd"
    using assms(2) by (simp add: serving_def node_boot_def wf_node_def lss_unconfigured_def node_state_def nmt_boot_def)
      (simp add: node_new_def nmt_new_def)
  moreover have "async_server_start E n = Done (Listening ?nd)" by (simp add: async_server_start_def od(1))
  moreover have nd: "nd_od ?nd = od" "nd_id ?nd = n" by (simp_all add: node_boot_def node_new_def)
  have rw: "(entry_rw v)\<lparr>e_value := u\<rparr> = entry_rw u" "is_writable (e_access (entry_rw v))"
    "is_readable (e_access (entry_rw v))" "e_value (entry_rw v) = v" for v u
    by (simp_all add: entry_rw_def is_writable_def is_readable_def)
  let ?e = "entry_rw (Unsigned16 2500)" and ?f = "entry_rw (Unsigned64 0x0102030405060708)"
  let ?od1 = "lm_put (no_od E) od (Address 0x1017 0) ?e"
  have g: "lm_get (no_od E) od (Address 0x1017 0) = Some (entry_rw (Unsigned16 1000))"
    "lm_get (no_od E) od (Address 0x2000 0) = Some (entry_rw (Unsigned64 0))" by (simp_all add: od(3))
  have g1: "lm_get (no_od E) ?od1 = (lm_get (no_od E) od)(Address 0x1017 0 \<mapsto> ?e)" by (rule get_put_Some [OF g(1)])
  then have g2: "lm_get (no_od E) (lm_put (no_od E) ?od1 (Address 0x2000 0) ?f) =
      (lm_get (no_od E) od)(Address 0x1017 0 \<mapsto> ?e, Address 0x2000 0 \<mapsto> ?f)"
    using get_put_Some [of ?od1 "Address 0x2000 0" "entry_rw (Unsigned64 0)"] g(2) by simp
  have "od_write (no_od E) od (Address 0x1017 0) (Unsigned16 2500) = Inr ?od1"
    by (simp add: od_write_def g rw)
  moreover have "od_write (no_od E) ?od1 (Address 0x2000 0) (Unsigned64 0x0102030405060708) =
      Inr (lm_put (no_od E) ?od1 (Address 0x2000 0) ?f)"
    using g1 g(2) by (simp add: od_write_def rw)
  ultimately show ?thesis
    using nd by (intro exI [of _ ?nd] exI [of _ "lm_put (no_od E) ?od1 (Address 0x2000 0) ?f"])
      (auto simp: async_example_ops_def Let_def od_read_def g1 g2 od(3) rw entry_constant_def is_readable_def fun_eq_iff)
qed

end

text \<open>The example meets the hypotheses of the theorem.\<close>

theorem async_schedules_agree_witness:
  "\<exists>nd od' m bound. async_server_start (list_node_ops 8) (NodeId 0x10) = Done (Listening nd) \<and>
    await_next (NodeId 0x10) async_example_ops = Done m \<and>
    lm_get (assoc_ops 8) od' (Address 0x1017 0) = Some (entry_rw (Unsigned16 2500)) \<and>
    (\<forall>k st. (net_step (list_node_ops 8) example_frames (NodeId 0x10) ^^ k)
      (\<lparr>to_server = [], to_client = []\<rparr>, Listening nd, m) st \<longrightarrow> k \<le> bound) \<and>
    (\<forall>st. (net_step (list_node_ops 8) example_frames (NodeId 0x10))\<^sup>*\<^sup>*
        (\<lparr>to_server = [], to_client = []\<rparr>, Listening nd, m) st \<longrightarrow>
      (\<exists>st'. net_step (list_node_ops 8) example_frames (NodeId 0x10) st st') \<or>
      (\<exists>w nd'. st = (w, Listening nd', Returned (Inr ())) \<and> to_server w = [] \<and> nd_od nd' = od'))"
proof -
  obtain nd od' where nd: "async_server_start (list_node_ops 8) (NodeId 0x10) = Done (Listening nd)"
    "serving (list_node_ops 8) nd" "nd_id nd = NodeId 0x10"
    "ops_run (no_od (list_node_ops 8)) (nd_od nd) async_example_ops = Some od'"
    "lm_get (assoc_ops 8) od' (Address 0x1017 0) = Some (entry_rw (Unsigned16 2500))"
    using device_bus.async_example_admitted [OF list_bus.device_bus_axioms [of 8], of "NodeId 0x10"]
    by (auto simp: device_id_def)
  show ?thesis
    using async_schedules_agree [OF list_bus.device_bus_axioms nd(2,4)] nd(1,3,5) unfolding nd(3) by blast
qed

end
