(* ===== verification/Loopback_Run.thy ===== *)
theory Loopback_Run
  imports Loopback
begin

text \<open>
  The loopback example at work: the locale \<open>loopback\<close> puts its server on the bus of the master, one lemma for
  each numbered section of the master's \<open>run\<close>, and the properties of the whole.
\<close>

section \<open>One frame on the wire\<close>

locale loopback = device_bus E 8 F + block: byte_vec V 256
  for E :: "('m, 'b, 'p, 'r, 't, 'h, 'v) node_ops" and F :: "'f frame_ops" and V :: "('k, u8) vec_ops"
begin

lemma frame_of_ok:
  assumes "c \<le> 0x7FF" and "length d \<le> 8"
  shows "frame_from F c d = Some (frame_of F c d)" and "frame_cob_id F (frame_of F c d) = Some c"
    and "fr_data F (frame_of F c d) = d" and "fr_is_data F (frame_of F c d)"
proof -
  obtain f where f: "frame_from F c d = Some f" "frame_cob_id F f = Some c" "fr_data F f = d" "fr_is_data F f"
    using frame_from_ok [OF assms] by blast
  then have "frame_of F c d = f" by (simp add: frame_of_def)
  with f show "frame_from F c d = Some (frame_of F c d)" "frame_cob_id F (frame_of F c d) = Some c"
    "fr_data F (frame_of F c d) = d" "fr_is_data F (frame_of F c d)" by simp_all
qed

lemma bus_send_loop:
  assumes "c \<le> 0x7FF" and "length d \<le> 8"
  shows "bus_send (loop_socket E F V) c d w = Some (Done (loop_react E F V c d w, Inr ()))"
    and "send_frame (loop_socket E F V) c d w = (loop_react E F V c d w, Inr ())"
  using frame_of_ok [OF assms] by (simp_all add: bus_send_def send_frame_def loop_socket_def)

lemma recv_loop:
  assumes "c \<le> 0x7FF" and "length d \<le> 8"
  shows "recv (loop_socket E F V) (LW nd rx b (frame_of F c d # q)) = Some (LW nd rx b q, Inr (received_new c d))"
    and "recv_cob (loop_socket E F V) c (LW nd rx b (frame_of F c d # q)) = Some (Done (LW nd rx b q, Inr (received_new c d)))"
    and "recv_on (loop_socket E F V) c (LW nd rx b (frame_of F c d # q)) = Some (LW nd rx b q, Inr (received_new c d))"
proof -
  show r: "recv (loop_socket E F V) (LW nd rx b (frame_of F c d # q)) = Some (LW nd rx b q, Inr (received_new c d))"
    using frame_of_ok [OF assms] by (subst recv.simps) (simp add: loop_socket_def)
  show "recv_cob (loop_socket E F V) c (LW nd rx b (frame_of F c d # q)) = Some (Done (LW nd rx b q, Inr (received_new c d)))"
    by (subst recv_cob.simps) (simp add: r)
  show "recv_on (loop_socket E F V) c (LW nd rx b (frame_of F c d # q)) = Some (LW nd rx b q, Inr (received_new c d))"
    by (subst recv_on.simps) (simp add: r)
qed

lemma tape_send:
  assumes "tx_cob_id tx \<le> 0x7FF" and "length (tx_data tx) \<le> 8"
  shows "send_frame (tape F) (tx_cob_id tx) (tx_data tx) q = (q @ [frame_of F (tx_cob_id tx) (tx_data tx)], Inr ())"
  using frame_of_ok [OF assms] by (simp add: send_frame_def tape_def)

lemma react_quiet:
  assumes "on_frame E c d nd = Done (nd', None)" and "c \<noteq> BLOCK_REQ" and "c \<noteq> SYNC_COB_ID"
    and "b \<or> c \<noteq> 0" and "length d \<le> 8"
  shows "loop_react E F V c d (LW nd rx b q) = LW nd' rx b q"
  using assms by (auto simp: loop_react_def serve_frame_def Let_def)

lemma react_answer:
  assumes "on_frame E c d nd = Done (nd', Some tx)" and "c \<noteq> BLOCK_REQ" and "c \<noteq> SYNC_COB_ID"
    and "b \<or> c \<noteq> 0" and "length d \<le> 8"
    and "tx_cob_id tx \<le> 0x7FF" and "length (tx_data tx) \<le> 8"
  shows "loop_react E F V c d (LW nd rx b q) = LW nd' rx b (q @ [frame_of F (tx_cob_id tx) (tx_data tx)])"
  using assms by (auto simp: loop_react_def serve_frame_def Let_def tape_send)

lemma send_quiet:
  assumes "on_frame E c d nd = Done (nd', None)" and "c \<noteq> BLOCK_REQ" and "c \<noteq> SYNC_COB_ID"
    and "b \<or> c \<noteq> 0" and "c \<le> 0x7FF" and "length d \<le> 8"
  shows "bus_send (loop_socket E F V) c d (LW nd rx b q) = Some (Done (LW nd' rx b q, Inr ()))"
  using bus_send_loop(1) [OF assms(5,6)] react_quiet [OF assms(1-4,6)] by simp

lemma send_answer:
  assumes "on_frame E c d nd = Done (nd', Some (tx_new c' d'))" and "c \<noteq> BLOCK_REQ" and "c \<noteq> SYNC_COB_ID"
    and "b \<or> c \<noteq> 0" and "c \<le> 0x7FF" and "length d \<le> 8" and "c' \<le> 0x7FF" and "length d' \<le> 8"
  shows "bus_send (loop_socket E F V) c d (LW nd rx b q) = Some (Done (LW nd' rx b (q @ [frame_of F c' d']), Inr ()))"
  using bus_send_loop(1) [OF assms(5,6)] react_answer [OF assms(1-4,6)] assms(7,8) by simp

lemma bus_send_nmt_eq: "bus_send_nmt K c n = bus_send K NMT_COMMAND_COB_ID (encode_command c n)"
  by (simp add: bus_send_nmt_def bus_send_def send_nmt_def fun_eq_iff)

lemma loop_link: "sdo_link (no_od E) 8 (no_bytes E) (loop_socket E F V) (\<lambda>w. sv_node (lw_server w))
  (loop_ready E rx) (loop_ready E rx)"
proof
  let ?dev = "\<lambda>w :: (('m, 'b, 'r, 't, 'h) node, 'k, 'f) loop_world. sv_node (lw_server w)"
  show "wf_od (no_od E) (nd_od (?dev w))" if "loop_ready E rx w" for w
    using that by (auto simp: loop_ready_def serving_def wf_node_def)
  show "length resp = 8 \<and>
      (\<exists>s1 s2. send_frame (loop_socket E F V) (request_cob_id (nd_id (?dev w))) p w = (s1, Inr ()) \<and>
        recv_on (loop_socket E F V) (response_cob_id (nd_id (?dev w))) s1 =
          Some (s2, Inr (received_new (response_cob_id (nd_id (?dev w))) resp)) \<and>
        ?dev s2 = (?dev w)\<lparr>nd_od := od', nd_sdo := srv'\<rparr> \<and> loop_ready E rx s2)"
    if w: "loop_ready E rx w" and p: "length p = 8"
      and h: "srv_handle (no_od E) (no_bytes E) (nd_od (?dev w)) (nd_sdo (?dev w)) p = Done (od', srv', Some resp)"
    for w p od' srv' resp
  proof -
    obtain nd where nd: "w = LW nd rx True []" "serving E nd" using w by (auto simp: loop_ready_def)
    have dev: "device_id (nd_id nd)" using nd(2) by (simp add: serving_def)
    let ?req = "request_cob_id (nd_id nd)" and ?resp = "response_cob_id (nd_id nd)"
    let ?nd = "nd\<lparr>nd_od := od', nd_sdo := srv'\<rparr>"
    note ids = request_cob_id_cases [OF dev]
    have h': "srv_handle (no_od E) (no_bytes E) (nd_od nd) (nd_sdo nd) p = Done (od', srv', Some resp)"
      using h nd(1) by simp
    note s = serve_request [OF nd(2) p h']
    have req: "unat ?req = 0x600 + unat (raw (nd_id nd))"
      using dev unat_cob_of [of "0x600" "nd_id nd"] by (simp add: request_cob_id_def cob_of_def device_id_nat)
    have "?req \<noteq> BLOCK_REQ" "?req \<noteq> SYNC_COB_ID" using req by auto
    then have "loop_react E F V ?req p (LW nd rx True []) = LW ?nd rx True [frame_of F ?resp resp]"
      using react_answer [OF s(1), of True rx "[]"] p ids(4) s(3) by simp
    then have send: "send_frame (loop_socket E F V) ?req p (LW nd rx True []) = (LW ?nd rx True [frame_of F ?resp resp], Inr ())"
      using bus_send_loop(2) [OF ids(3), of p] p by simp
    have rcv: "recv_on (loop_socket E F V) ?resp (LW ?nd rx True [frame_of F ?resp resp]) =
        Some (LW ?nd rx True [], Inr (received_new ?resp resp))"
      using recv_loop(3) [OF ids(4), of resp ?nd rx True "[]"] s(3) by simp
    show ?thesis
      using send rcv s(2,3) by (auto simp: nd(1) loop_ready_def)
  qed
qed simp

end

section \<open>SDO\<close>

lemma utf8_lit_length: "length (utf8 (lit ''canopen-rs device'')) \<le> MAX_STRING_LEN"
  by code_simp

context loopback
begin

text \<open>A read and a write of the master, when the object is there.\<close>

lemma loop_read:
  assumes "serving E nd" and "od_read (no_od E) (nd_od nd) a = Inr v" and "n = nd_id nd" and "dt = data_type_of v"
  shows "\<exists>srv'. bus_sdo_read (loop_socket E F V) (no_bytes E) n a dt (LW nd rx True []) =
      Some (Done (LW (nd\<lparr>nd_sdo := srv'\<rparr>) rx True [], Inr v)) \<and> serving E (nd\<lparr>nd_sdo := srv'\<rparr>)"
proof -
  have "loop_ready E rx (LW nd rx True [])" using assms(1) by (simp add: loop_ready_def)
  from sdo_link.link_read_ok [OF loop_link this, of a v] assms(2)
  have "\<exists>s' srv'. sdo_read (loop_socket E F V) (no_bytes E) (nd_id nd) a (data_type_of v) (LW nd rx True []) =
      Some (Done (s', Inr v)) \<and> sv_node (lw_server s') = nd\<lparr>nd_sdo := srv'\<rparr> \<and> loop_ready E rx s'" by simp
  then show ?thesis using assms(3,4) by (auto simp: bus_sdo_read_def loop_ready_def)
qed

lemma loop_write:
  assumes "serving E nd" and "wf_value v" and "lm_get (no_od E) (nd_od nd) a = Some e"
    and "is_writable (e_access e)" and "data_type_of (e_value e) = data_type_of v" and "n = nd_id nd"
  shows "\<exists>od' srv'. bus_sdo_write (loop_socket E F V) (no_bytes E) n a v (LW nd rx True []) =
      Some (Done (LW (nd\<lparr>nd_od := od', nd_sdo := srv'\<rparr>) rx True [], Inr ())) \<and>
    serving E (nd\<lparr>nd_od := od', nd_sdo := srv'\<rparr>) \<and>
    lm_get (no_od E) od' = (lm_get (no_od E) (nd_od nd))(a \<mapsto> e\<lparr>e_value := v\<rparr>)"
proof -
  have "loop_ready E rx (LW nd rx True [])" using assms(1) by (simp add: loop_ready_def)
  from sdo_link.link_write_ok [OF loop_link this assms(2), of a e] assms(3-5)
  have "\<exists>s' od' srv'. sdo_write (loop_socket E F V) (no_bytes E) (nd_id nd) a v (LW nd rx True []) =
      Some (Done (s', Inr ())) \<and> sv_node (lw_server s') = nd\<lparr>nd_od := od', nd_sdo := srv'\<rparr> \<and>
      lm_get (no_od E) od' = (lm_get (no_od E) (nd_od nd))(a \<mapsto> e\<lparr>e_value := v\<rparr>) \<and> loop_ready E rx s'" by simp
  then show ?thesis using assms(6) by (fastforce simp: bus_sdo_write_def loop_ready_def)
qed

text \<open>The objects of the server, with the values the master has written.\<close>

lemma master_sdo_result:
  assumes "serving E nd" and "od_read (no_od E) (nd_od nd) (Address 0x1000 0) = Inr (Unsigned32 0x00040192)"
    and "lm_get (no_od E) (nd_od nd) (Address 0x1017 0) = Some (entry_rw (Unsigned16 u))"
    and "lm_get (no_od E) (nd_od nd) (Address 0x2000 0) = Some (entry_rw (Unsigned64 x))"
    and "lm_get (no_od E) (nd_od nd) (Address 0x1008 0) = Some (entry_rw (VisibleString s))"
  shows "\<exists>od' srv' t. master_sdo (loop_socket E F V) (no_bytes E) (nd_id nd) (LW nd rx True []) =
      Some (Done (LW (nd\<lparr>nd_od := od', nd_sdo := srv'\<rparr>) rx True [], Inr ())) \<and>
    serving E (nd\<lparr>nd_od := od', nd_sdo := srv'\<rparr>) \<and>
    from_bytes (utf8 (lit ''canopen-rs device'')) = Inr t \<and>
    lm_get (no_od E) od' = (lm_get (no_od E) (nd_od nd))
      (Address 0x1017 0 \<mapsto> entry_rw (Unsigned16 2500),
       Address 0x2000 0 \<mapsto> entry_rw (Unsigned64 0x0102030405060708),
       Address 0x1008 0 \<mapsto> entry_rw (VisibleString t))"
proof -
  let ?K = "loop_socket E F V" and ?n = "nd_id nd"
  obtain t where t: "from_bytes (utf8 (lit ''canopen-rs device'')) = Inr t" "wf_bs t"
    using from_bytes_ok [of "utf8 (lit ''canopen-rs device'')"] by (auto simp: utf8_lit_length)
  obtain s1 where 1: "bus_sdo_read ?K (no_bytes E) ?n (Address 0x1000 0) DT_Unsigned32 (LW nd rx True []) =
      Some (Done (LW (nd\<lparr>nd_sdo := s1\<rparr>) rx True [], Inr (Unsigned32 0x00040192)))"
    "serving E (nd\<lparr>nd_sdo := s1\<rparr>)"
    using loop_read [OF assms(1,2) refl refl, of rx] by auto
  obtain o2 s2 where 2: "bus_sdo_write ?K (no_bytes E) ?n (Address 0x1017 0) (Unsigned16 2500)
      (LW (nd\<lparr>nd_sdo := s1\<rparr>) rx True []) = Some (Done (LW (nd\<lparr>nd_od := o2, nd_sdo := s2\<rparr>) rx True [], Inr ()))"
    "serving E (nd\<lparr>nd_od := o2, nd_sdo := s2\<rparr>)"
    "lm_get (no_od E) o2 = (lm_get (no_od E) (nd_od nd))(Address 0x1017 0 \<mapsto> entry_rw (Unsigned16 2500))"
    using loop_write [OF 1(2), of "Unsigned16 2500" "Address 0x1017 0" _ ?n rx] assms(3)
    by (auto simp: entry_rw_def)
  obtain s3 where 3: "bus_sdo_read ?K (no_bytes E) ?n (Address 0x1017 0) DT_Unsigned16
      (LW (nd\<lparr>nd_od := o2, nd_sdo := s2\<rparr>) rx True []) =
      Some (Done (LW (nd\<lparr>nd_od := o2, nd_sdo := s3\<rparr>) rx True [], Inr (Unsigned16 2500)))"
    "serving E (nd\<lparr>nd_od := o2, nd_sdo := s3\<rparr>)"
    using loop_read [OF 2(2), of "Address 0x1017 0" "Unsigned16 2500" ?n DT_Unsigned16 rx] 2(3)
    by (auto simp: od_read_def)
  obtain o4 s4 where 4: "bus_sdo_write ?K (no_bytes E) ?n (Address 0x2000 0) (Unsigned64 0x0102030405060708)
      (LW (nd\<lparr>nd_od := o2, nd_sdo := s3\<rparr>) rx True []) = Some (Done (LW (nd\<lparr>nd_od := o4, nd_sdo := s4\<rparr>) rx True [], Inr ()))"
    "serving E (nd\<lparr>nd_od := o4, nd_sdo := s4\<rparr>)"
    "lm_get (no_od E) o4 = (lm_get (no_od E) o2)(Address 0x2000 0 \<mapsto> entry_rw (Unsigned64 0x0102030405060708))"
    using loop_write [OF 3(2), of "Unsigned64 0x0102030405060708" "Address 0x2000 0" _ ?n rx] assms(4) 2(3)
    by (auto simp: entry_rw_def)
  obtain s5 where 5: "bus_sdo_read ?K (no_bytes E) ?n (Address 0x2000 0) DT_Unsigned64
      (LW (nd\<lparr>nd_od := o4, nd_sdo := s4\<rparr>) rx True []) =
      Some (Done (LW (nd\<lparr>nd_od := o4, nd_sdo := s5\<rparr>) rx True [], Inr (Unsigned64 0x0102030405060708)))"
    "serving E (nd\<lparr>nd_od := o4, nd_sdo := s5\<rparr>)"
    using loop_read [OF 4(2), of "Address 0x2000 0" "Unsigned64 0x0102030405060708" ?n DT_Unsigned64 rx] 4(3)
    by (auto simp: od_read_def)
  obtain o6 s6 where 6: "bus_sdo_write ?K (no_bytes E) ?n (Address 0x1008 0) (VisibleString t)
      (LW (nd\<lparr>nd_od := o4, nd_sdo := s5\<rparr>) rx True []) = Some (Done (LW (nd\<lparr>nd_od := o6, nd_sdo := s6\<rparr>) rx True [], Inr ()))"
    "serving E (nd\<lparr>nd_od := o6, nd_sdo := s6\<rparr>)"
    "lm_get (no_od E) o6 = (lm_get (no_od E) o4)(Address 0x1008 0 \<mapsto> entry_rw (VisibleString t))"
    using loop_write [OF 5(2), of "VisibleString t" "Address 0x1008 0" _ ?n rx] assms(5) 2(3) 4(3) t(2)
    by (auto simp: entry_rw_def)
  obtain s7 where 7: "bus_sdo_read ?K (no_bytes E) ?n (Address 0x1008 0) DT_VisibleString
      (LW (nd\<lparr>nd_od := o6, nd_sdo := s6\<rparr>) rx True []) =
      Some (Done (LW (nd\<lparr>nd_od := o6, nd_sdo := s7\<rparr>) rx True [], Inr (VisibleString t)))"
    "serving E (nd\<lparr>nd_od := o6, nd_sdo := s7\<rparr>)"
    using loop_read [OF 6(2), of "Address 0x1008 0" "VisibleString t" ?n DT_VisibleString rx] 6(3)
    by (auto simp: od_read_def)
  have "master_sdo ?K (no_bytes E) ?n (LW nd rx True []) =
      Some (Done (LW (nd\<lparr>nd_od := o6, nd_sdo := s7\<rparr>) rx True [], Inr ()))"
    by (simp add: master_sdo_def Let_def t(1) prog_bind_def prog_then_def prog_assert_def prog_core_def bs_eq_def
        1(1) 2(1) 3(1) 4(1) 5(1) 6(1) 7(1))
  then show ?thesis using 7(2) t(1) 6(3) [unfolded 4(3) 2(3)] by blast
qed

end

section \<open>LSS and boot-up\<close>

context mapping_vec
begin

lemma single_map_result:
  assumes "unat bits \<le> 64" and "0 < N"
  shows "\<exists>m. single_map V idx sub bits = Done m \<and> entries V m = [mapping_entry_new idx sub bits]"
proof -
  obtain p where p: "v_push V (v_new V) (mapping_entry_new idx sub bits) = Some p"
    "v_slice V p = [mapping_entry_new idx sub bits]"
    using push_room [of "v_new V" "mapping_entry_new idx sub bits"] assms(2) by (auto simp: slice_new)
  then have "mapping_push V (pdo_mapping_new V) (mapping_entry_new idx sub bits) = Inr \<lparr>pm_entries = p\<rparr>"
    using assms(1) mapping_new_bits(1) by (simp add: mapping_push_def pdo_mapping_new_def mapping_entry_new_def)
  then show ?thesis using p(2) by (simp add: single_map_def entries_def)
qed

end

text \<open>The PDO that both directions of the example map: one 16-bit object.\<close>

abbreviation (input) example_entry :: mapping_entry where
  "example_entry \<equiv> mapping_entry_new 0x6000 1 16"

text \<open>What the server's node is after its boot.\<close>

definition loop_device :: "('m, 'b, 'p, 'r, 't, 'h, 'v) node_ops \<Rightarrow> 'm \<Rightarrow> ('m, 'b, 'r, 't, 'h) node \<Rightarrow> bool" where
  "loop_device E od nd \<longleftrightarrow> serving E nd \<and> nd_id nd = NodeId 0x10 \<and> nd_od nd = od \<and>
     node_state nd = PreOperational \<and>
     (\<exists>m. v_slice (no_rpdos E) (nd_rpdos nd) = [\<lparr>rp_cob_id = 0x210, rp_mapping = m\<rparr>] \<and>
        entries (no_map E) m = [example_entry]) \<and>
     (\<exists>m. v_slice (no_tpdos E) (nd_tpdos nd) =
          [\<lparr>tp_cob_id = 0x190, tp_mapping = m, tp_transmission = SynchronousAcyclic\<rparr>] \<and>
        entries (no_map E) m = [example_entry])"

context loopback
begin

lemma serve_boot_result:
  assumes "wf_od (no_od E) (nd_od nd)" and "nd_lss nd = Some l" and "ls_pending_node_id l = 0x10"
    and "v_slice (no_rpdos E) (nd_rpdos nd) = []" and "v_slice (no_tpdos E) (nd_tpdos nd) = []"
    and "v_len (no_history E) (nd_error_history nd) \<le> MAX_ERROR_HISTORY" and "node_state nd = Initialising"
  shows "\<exists>nd'. serve_boot (tape F) E q nd = Done (q @ [frame_of F 0x710 [0]], nd', Inr ()) \<and>
    loop_device E (nd_od nd) nd'"
proof -
  define n1 where "n1 = nd\<lparr>nd_id := NodeId 0x10, nd_sdo := sdo_server_new (NodeId 0x10),
    nd_lss := Some (adopt_pending l)\<rparr>"
  have n1: "fst (apply_lss_node_id nd) = n1"
    using assms(2,3) by (simp add: apply_lss_node_id_def node_id_new_def set_node_id_def n1_def)
  obtain m where m: "single_map (no_map E) 0x6000 1 16 = Done m" "entries (no_map E) m = [example_entry]"
    using maps.single_map_result [of 16] by auto
  obtain r where r: "v_push (no_rpdos E) (nd_rpdos nd) \<lparr>rp_cob_id = 0x210, rp_mapping = m\<rparr> = Some r"
    "v_slice (no_rpdos E) r = [\<lparr>rp_cob_id = 0x210, rp_mapping = m\<rparr>]"
    using rpdos.push_room [of "nd_rpdos nd"] assms(4) by fastforce
  obtain t where t: "v_push (no_tpdos E) (nd_tpdos nd)
      \<lparr>tp_cob_id = 0x190, tp_mapping = m, tp_transmission = SynchronousAcyclic\<rparr> = Some t"
    "v_slice (no_tpdos E) t = [\<lparr>tp_cob_id = 0x190, tp_mapping = m, tp_transmission = SynchronousAcyclic\<rparr>]"
    using tpdos.push_room [of "nd_tpdos nd"] assms(5) by fastforce
  let ?nd = "n1\<lparr>nd_rpdos := r, nd_tpdos := t, nd_nmt := \<lparr>sm_state = PreOperational\<rparr>, nd_guard_toggle := False\<rparr>"
  have boot: "node_boot (n1\<lparr>nd_rpdos := r, nd_tpdos := t\<rparr>) = (?nd, tx_new 0x710 [0])"
    using assms(7) by (simp add: node_boot_def nmt_boot_def n1_def heartbeat_cob_id_def node_state_def BOOTUP_FRAME_def)
  have "serve_boot (tape F) E q nd = Done (q @ [frame_of F 0x710 [0]], ?nd, Inr ())"
    using m(1) r(1) t(1) boot tape_send [of "tx_new 0x710 [0]" q]
    by (simp add: serve_boot_def Let_def n1 add_rpdo_def) (simp add: n1_def add_tpdo_def)
  moreover have "serving E ?nd"
    using assms(1,3,6) m(2) r(2) t(2)
    by (simp add: serving_def wf_node_def n1_def wf_srv_def sdo_server_new_def device_id_def lss_unconfigured_def
        adopt_pending_def node_state_def total_bits_def mapping_entry_new_def)
  ultimately show ?thesis
    using m(2) r(2) t(2) by (auto simp: loop_device_def n1_def node_state_def)
qed

lemma loop_lss:
  "on_frame E LSS_MASTER_COB_ID d nd = Done (on_lss d nd)"
  by (simp add: on_frame_def)

lemma master_lss_result:
  assumes "wf_od (no_od E) od" and "nd = enable_lss a (node_new E (NodeId 1) od)"
  shows "\<exists>nd'. master_lss (loop_socket E F V) (LW nd rx False []) = Some (Done (LW nd' rx True [], Inr ())) \<and>
    loop_device E od nd'"
proof -
  let ?K = "loop_socket E F V"
  let ?nd = "\<lambda>l. nd\<lparr>nd_lss := Some l\<rparr>"
  define l1 where "l1 = (lss_slave_new a 1)\<lparr>ls_selective := 0, ls_state := Configuration\<rparr>"
  define l2 where "l2 = l1\<lparr>ls_pending_node_id := 0x10\<rparr>"
  define l3 where "l3 = l2\<lparr>ls_selective := 0, ls_state := Waiting\<rparr>"
  have lss: "on_lss d (?nd l) = (?nd (fst (lss_handle l d)), map_option (tx_new LSS_SLAVE_COB_ID) (snd (lss_handle l d)))"
    if "length d = 8" for d l
    using that by (simp add: on_lss_def copy_at_def split: prod.split)
  have nd0: "nd = ?nd (lss_slave_new a 1)" by (simp add: assms(2) enable_lss_def node_new_def)
  have 1: "bus_send ?K LSS_MASTER_COB_ID (encode_switch_global True) (LW nd rx False []) =
      Some (Done (LW (?nd l1) rx False [], Inr ()))"
    using lss [of "encode_switch_global True" "lss_slave_new a 1"] nd0
    by (intro send_quiet) (simp_all add: loop_lss encode_switch_global_def frame_simps lss_handle_def l1_def)
  have 2: "bus_send ?K LSS_MASTER_COB_ID (encode_configure_node_id 0x10) (LW (?nd l1) rx False []) =
      Some (Done (LW (?nd l2) rx False ([] @ [frame_of F LSS_SLAVE_COB_ID [0x11, 0, 0, 0, 0, 0, 0, 0]]), Inr ()))"
    using lss [of "encode_configure_node_id 0x10" l1]
    by (intro send_answer)
      (simp_all add: loop_lss encode_configure_node_id_def frame_simps lss_handle_def l1_def l2_def)
  have 3: "bus_send ?K LSS_MASTER_COB_ID encode_store (LW (?nd l2) rx False []) =
      Some (Done (LW (?nd l2) rx False ([] @ [frame_of F LSS_SLAVE_COB_ID [0x17, 0, 0, 0, 0, 0, 0, 0]]), Inr ()))"
    using lss [of encode_store l2]
    by (intro send_answer) (simp_all add: loop_lss encode_store_def frame_simps lss_handle_def l1_def l2_def)
  have 4: "bus_send ?K LSS_MASTER_COB_ID (encode_switch_global False) (LW (?nd l2) rx False []) =
      Some (Done (LW (?nd l3) rx False [], Inr ()))"
    using lss [of "encode_switch_global False" l2]
    by (intro send_quiet) (simp_all add: loop_lss encode_switch_global_def frame_simps lss_handle_def l3_def)
  have reset: "on_frame E NMT_COMMAND_COB_ID (encode_command ResetCommunication BROADCAST) (?nd l3) = Done (?nd l3, None)"
    by (simp add: on_frame_def on_nmt_def encode_command_def decode_command_def lss_unconfigured_def l3_def l2_def l1_def
        lss_slave_new_def assms(2) enable_lss_def node_new_def command_from_byte_def nmt_apply_def nmt_new_def srv_request_cob_id_def BROADCAST_def)
  obtain nd' where nd': "serve_boot (tape F) E [] (?nd l3) = Done ([frame_of F 0x710 [0]], nd', Inr ())"
    "loop_device E od nd'"
    using serve_boot_result [of "?nd l3" l3 "[]"] assms
    by (auto simp: l3_def l2_def enable_lss_def node_new_def rpdos.slice_new tpdos.slice_new history.slice_new
        node_state_def nmt_new_def)
  have "loop_react E F V NMT_COMMAND_COB_ID (encode_command ResetCommunication BROADCAST) (LW (?nd l3) rx False []) =
      LW nd' rx True [frame_of F 0x710 [0]]"
    using reset nd'(1) by (simp add: loop_react_def serve_frame_def Let_def encode_command_def)
  then have 5: "bus_send ?K NMT_COMMAND_COB_ID (encode_command ResetCommunication BROADCAST) (LW (?nd l3) rx False []) =
      Some (Done (LW nd' rx True [frame_of F 0x710 [0]], Inr ()))"
    using bus_send_loop(1) [of NMT_COMMAND_COB_ID "encode_command ResetCommunication BROADCAST"]
    by (simp add: encode_command_def)
  have "master_lss ?K (LW nd rx False []) = Some (Done (LW nd' rx True [], Inr ()))"
    using recv_loop(2) [where c = LSS_SLAVE_COB_ID and d = "[0x11, 0, 0, 0, 0, 0, 0, 0]"]
      recv_loop(2) [where c = LSS_SLAVE_COB_ID and d = "[0x17, 0, 0, 0, 0, 0, 0, 0]"]
      recv_loop(2) [where c = "0x710" and d = "[0]"]
    by (simp add: master_lss_def prog_bind_def prog_then_def prog_assert_def prog_ok_def bus_send_nmt_eq
        1 2 3 4 5 subslice_def)
  then show ?thesis using nd'(2) by blast
qed

end

section \<open>PDO\<close>

context loopback
begin

lemma loop_device_od:
  "loop_device E od nd \<Longrightarrow> serving E (nd\<lparr>nd_od := od', nd_sdo := srv\<rparr>) \<Longrightarrow>
   loop_device E od' (nd\<lparr>nd_od := od', nd_sdo := srv\<rparr>)"
  by (simp add: loop_device_def node_state_def)

lemma word_bytes: "from_le [0xCD, 0xAB] = (0xABCD :: u16)"
  by code_simp

lemma example_payload: "encode_payload (Unsigned16 0xABCD) = [0xCD, 0xAB]"
  by code_simp

text \<open>A 16-bit object through the receive PDO and back out of the transmit PDO.\<close>

lemma unpack_example:
  assumes "entries P m = [example_entry]" and "lm_get (no_od E) od (Address 0x6000 1) = Some (entry_rw (Unsigned16 u))"
  shows "unpack P (no_od E) m od [0xCD, 0xAB] =
    Done (lm_put (no_od E) od (Address 0x6000 1) (entry_rw (Unsigned16 0xABCD)), Inr ())"
  using assms(2)
  by (simp add: unpack_def total_bytes_def total_bits_def assms(1) mapping_entry_new_def byte_width_def od_entry_def
      type_size_def subslice_def decode_le_def od_write_def entry_rw_def word_bytes)

lemma master_pdo_result:
  assumes "loop_device E od nd" and "lm_get (no_od E) od (Address 0x6000 1) = Some (entry_rw (Unsigned16 u))"
  shows "\<exists>od'. master_pdo (loop_socket E F V) (NodeId 0x10) (LW nd rx True []) =
      Some (Done (LW (nd\<lparr>nd_nmt := \<lparr>sm_state = Operational\<rparr>, nd_od := od'\<rparr>) rx True [], Inr ())) \<and>
    lm_get (no_od E) od' = (lm_get (no_od E) od)(Address 0x6000 1 \<mapsto> entry_rw (Unsigned16 0xABCD))"
proof -
  let ?K = "loop_socket E F V"
  obtain m t where dev: "serving E nd" "nd_id nd = NodeId 0x10" "nd_od nd = od" "node_state nd = PreOperational"
    "v_slice (no_rpdos E) (nd_rpdos nd) = [\<lparr>rp_cob_id = 0x210, rp_mapping = m\<rparr>]" "entries (no_map E) m = [example_entry]"
    "v_slice (no_tpdos E) (nd_tpdos nd) =
      [\<lparr>tp_cob_id = 0x190, tp_mapping = t, tp_transmission = SynchronousAcyclic\<rparr>]" "entries (no_map E) t = [example_entry]"
    using assms(1) by (auto simp: loop_device_def)
  have wf: "wf_node E nd" "\<not> lss_unconfigured nd" "srv_node (nd_sdo nd) = NodeId 0x10"
    using dev(1,2) by (simp_all add: serving_def wf_node_def)
  define n1 where "n1 = nd\<lparr>nd_nmt := \<lparr>sm_state = Operational\<rparr>\<rparr>"
  define od' where "od' = lm_put (no_od E) od (Address 0x6000 1) (entry_rw (Unsigned16 0xABCD))"
  define n2 where "n2 = n1\<lparr>nd_od := od'\<rparr>"
  have od': "lm_get (no_od E) od' = (lm_get (no_od E) od)(Address 0x6000 1 \<mapsto> entry_rw (Unsigned16 0xABCD))"
    unfolding od'_def by (rule get_put_Some [OF assms(2)])
  have 1: "bus_send ?K NMT_COMMAND_COB_ID (encode_command StartRemoteNode (NodeId 0x10)) (LW nd rx True []) =
      Some (Done (LW n1 rx True [], Inr ()))"
    using dev(2,4) wf(2,3)
    by (intro send_quiet) (simp_all add: on_frame_def on_nmt_def encode_command_def decode_command_def
        command_from_byte_def node_id_new_def nmt_apply_def node_state_def n1_def)
  have 2: "bus_send ?K 0x210 [0xCD, 0xAB] (LW n1 rx True []) = Some (Done (LW n2 rx True [], Inr ()))"
    using dev(2,3,5) wf(2,3) unpack_example [OF dev(6) assms(2)]
    by (intro send_quiet) (simp_all add: on_frame_def on_rpdo_def n1_def n2_def od'_def lss_unconfigured_def
        srv_request_cob_id_def request_cob_id_def)
  have n2: "wf_node E n2" "node_state n2 = Operational"
    using wf(1) od' by (auto simp: n2_def n1_def wf_node_def wf_od_def node_state_def dev(3))
  have "tpdo_frame E (nd_od n2) \<lparr>tp_cob_id = 0x190, tp_mapping = t, tp_transmission = SynchronousAcyclic\<rparr> =
      Some (tx_new 0x190 [0xCD, 0xAB])"
    using dev(8) od' example_payload
    by (simp add: n2_def tpdo_frame_def packable_iff pack_payload_def packed_value_def od_read_def
        mapping_entry_new_def is_variable_def value_size_def type_size_def del: encode_payload.simps)
  then obtain fs where fs: "sync_tpdos E n2 = Done fs" "v_slice (no_frames E) fs = [tx_new 0x190 [0xCD, 0xAB]]"
    using sync_tpdos_result [OF n2(1)] n2(2) dev(7)
    by (auto simp: n2_def n1_def List.map_filter_def is_synchronous_def)
  have "on_frame E SYNC_COB_ID [] n2 = Done (n2, None)"
    using dev(2,5) wf(2,3)
    by (simp add: on_frame_def on_rpdo_def n1_def n2_def lss_unconfigured_def srv_request_cob_id_def request_cob_id_def)
  then have "loop_react E F V SYNC_COB_ID [] (LW n2 rx True []) = LW n2 rx True [frame_of F 0x190 [0xCD, 0xAB]]"
    using fs tape_send [of "tx_new 0x190 [0xCD, 0xAB]" "[]"] by (simp add: loop_react_def serve_frame_def Let_def)
  then have 3: "bus_send ?K SYNC_COB_ID [] (LW n2 rx True []) =
      Some (Done (LW n2 rx True [frame_of F 0x190 [0xCD, 0xAB]], Inr ()))"
    using bus_send_loop(1) [of SYNC_COB_ID "[]"] by simp
  have "master_pdo ?K (NodeId 0x10) (LW nd rx True []) = Some (Done (LW n2 rx True [], Inr ()))"
    using recv_loop(2) [where c = "0x190" and d = "[0xCD, 0xAB]"]
    by (simp add: master_pdo_def prog_bind_def prog_then_def prog_assert_def bus_send_nmt_eq 1 2 3)
  then show ?thesis using od' by (auto simp: n2_def n1_def)
qed

end

section \<open>Block transfer\<close>

lemma bw_next_segment_length: "bw_next_segment w = Done (w', Some p) \<Longrightarrow> length p = 8"
  by (auto simp: bw_next_segment_def encode_sub_segment_def Let_def run_bind_eq_Done_iff expect_def
      split: if_splits)

text \<open>A segment of a short block is not taken for the start or the end of a transfer.\<close>

lemma segment_command_free:
  assumes "ss_seqno (decode_sub_segment p) = s" and "unat s < 64"
  shows "p ! 0 AND 0xE0 \<noteq> 0xC0"
proof
  assume c: "p ! 0 AND 0xE0 = 0xC0"
  have "bit (p ! 0 AND 0xE0) 6" unfolding c by code_simp
  moreover have "bit (0x7F :: u8) 6" by code_simp
  moreover have "s = p ! 0 AND 0x7F" using assms(1) by (simp add: decode_sub_segment_def)
  ultimately have "bit s 6" by (simp add: bit_and_iff)
  then have "bit (unat s) 6" by (simp add: bit_unsigned_iff)
  then show False using assms(2) by (simp add: bit_iff_odd)
qed

lemma encode_end_command:
  "length (encode_end k crc) = 8 \<and> encode_end k crc ! 0 AND 0xE0 = 0xC0 \<and> encode_end k crc ! 0 AND 1 = 1"
  using u8_le_7_cases [of k]
  by (elim disjE) (simp_all add: encode_end_def frame_simps)

lemma send_segments_step:
  "bw_next_segment w = Done (w', Some p) \<Longrightarrow> send_frame K BLOCK_REQ p s = (s', Inr ()) \<Longrightarrow>
   send_segments K w s = send_segments K w' s'"
  by (subst send_segments.simps) simp

lemma send_segments_done: "bw_is_done w \<Longrightarrow> send_segments K w s = Some (Done (s, Inr w))"
  by (subst send_segments.simps) (simp add: bw_next_segment_def)

context loopback
begin

lemma react_block:
  assumes "handle_block (tape F) V (received_new BLOCK_REQ p) q rx = (q', rx', Inr ())" and "length p \<le> 8"
  shows "loop_react E F V BLOCK_REQ p (LW nd rx b q) = LW nd rx' b q'"
  using assms by (simp add: loop_react_def serve_frame_def)

lemma send_segment:
  assumes "decode_sub_segment p = \<lparr>ss_seqno = s, ss_last = l, ss_data = dat\<rparr>" and "unat s < 64" and "length p = 8"
    and "\<not> br_done rx" and "v_extend V (br_buf rx) dat = Some b"
  shows "send_frame (loop_socket E F V) BLOCK_REQ p (LW nd rx bo q) = (LW nd \<lparr>br_buf = b, br_done = l\<rparr> bo q, Inr ())"
proof -
  have "p ! 0 AND 0xE0 \<noteq> 0xC0" using segment_command_free [of p s] assms(1,2) by simp
  then have "handle_block (tape F) V (received_new BLOCK_REQ p) q rx = (q, \<lparr>br_buf = b, br_done = l\<rparr>, Inr ())"
    using assms by (auto simp: handle_block_def Let_def pad8_8 br_push_def)
  then show ?thesis using bus_send_loop(2) [of BLOCK_REQ p] assms(3) react_block [of p q rx] by simp
qed

lemma send_segments_result:
  assumes "7 * k < length d" and "length d \<le> 252" and "v_slice V (br_buf rx) = take (7 * k) d" and "\<not> br_done rx"
  shows "\<exists>w' rx'. send_segments (loop_socket E F V)
      \<lparr>bw_data = d, bw_pos = 7 * k, bw_seqno = of_nat (k + 1), bw_blksize = 127\<rparr> (LW nd rx bo q) =
      Some (Done (LW nd rx' bo q, Inr w')) \<and> bw_data w' = d \<and> v_slice V (br_buf rx') = d @ zeros (unused_bytes d)"
  using assms
proof (induction "length d - 7 * k" arbitrary: k rx rule: less_induct)
  case less
  let ?rest = "drop (7 * k) d"
  let ?w = "\<lparr>bw_data = d, bw_pos = 7 * k, bw_seqno = of_nat (k + 1), bw_blksize = 127\<rparr>"
  have k: "k \<le> 35" using less.prems(1,2) by linarith
  have s: "unat (of_nat (k + 1) :: u8) = k + 1" using k by (intro unat_of_nat_u8) simp
  then have s': "(1 :: u8) \<le> of_nat (k + 1)" "of_nat (k + 1) \<le> (127 :: u8)" "unat (of_nat (k + 1) :: u8) < 64"
    using k by (simp_all add: word_le_nat_alt del: of_nat_add of_nat_Suc)
  obtain p where p: "bw_next_segment ?w = Done (\<lparr>bw_data = d, bw_pos = 7 * k + min (length ?rest) 7,
      bw_seqno = of_nat (k + 1) + 1, bw_blksize = 127\<rparr>, Some p)"
    "decode_sub_segment p = \<lparr>ss_seqno = of_nat (k + 1), ss_last = (length ?rest \<le> 7),
      ss_data = take 7 ?rest @ zeros (7 - length ?rest)\<rparr>"
    using bw_next_segment_step [OF less.prems(1) refl s'(1,2,2)] by blast
  have "v_len V (br_buf rx) + length (take 7 ?rest @ zeros (7 - length ?rest)) \<le> 256"
    using less.prems(3) k by simp
  from block.extend_room [OF this] obtain b where b:
    "v_extend V (br_buf rx) (take 7 ?rest @ zeros (7 - length ?rest)) = Some b"
    "v_slice V b = take (7 * k) d @ take 7 ?rest @ zeros (7 - length ?rest)"
    using less.prems(3) by auto
  note send = send_segment [OF p(2) s'(3) bw_next_segment_length [OF p(1)] less.prems(4) b(1), of nd bo q]
  show ?case
  proof (cases "length ?rest \<le> 7")
    case True
    have "send_segments (loop_socket E F V) ?w (LW nd rx bo q) = Some (Done (LW nd \<lparr>br_buf = b, br_done = True\<rparr> bo q,
        Inr \<lparr>bw_data = d, bw_pos = 7 * k + min (length ?rest) 7, bw_seqno = of_nat (k + 1) + 1, bw_blksize = 127\<rparr>))"
      unfolding send_segments_step [OF p(1) send]
      by (subst send_segments_done) (use True less.prems(1) in \<open>simp_all add: bw_is_done_def\<close>)
    moreover have "unused_bytes d = 7 - length ?rest"
    proof -
      have "length d - 1 = length ?rest - 1 + 7 * k" "length ?rest - 1 < 7" "d \<noteq> []"
        using True less.prems(1) by auto
      then have "(length d - 1) mod 7 = length ?rest - 1" by (simp only: mod_mult_self2 mod_less)
      then show ?thesis using \<open>d \<noteq> []\<close> less.prems(1) by (simp add: unused_bytes_def)
    qed
    then have "v_slice V b = d @ zeros (unused_bytes d)" using b(2) True by (simp flip: append_assoc)
    ultimately show ?thesis by fastforce
  next
    case False
    have "take (7 * k) d @ take 7 ?rest = take (7 * (k + 1)) d"
      by (metis add.commute mult_Suc_right Suc_eq_plus1 take_add)
    then have slice: "v_slice V b = take (7 * (k + 1)) d" using b(2) False by simp
    have long: "7 * (k + 1) < length d" using False by simp
    then have less: "length d - 7 * (k + 1) < length d - 7 * k" by simp
    from less.hyps [OF less long less.prems(2), of "\<lparr>br_buf = b, br_done = False\<rparr>"] slice obtain w' rx' where r: "send_segments (loop_socket E F V)
        \<lparr>bw_data = d, bw_pos = 7 * (k + 1), bw_seqno = of_nat (k + 1 + 1), bw_blksize = 127\<rparr>
        (LW nd \<lparr>br_buf = b, br_done = False\<rparr> bo q) = Some (Done (LW nd rx' bo q, Inr w'))"
      "bw_data w' = d" "v_slice V (br_buf rx') = d @ zeros (unused_bytes d)"
      by auto
    have "7 * k + min (length ?rest) 7 = 7 * (k + 1)" "of_nat (k + 1) + 1 = (of_nat (k + 1 + 1) :: u8)"
      using False by simp_all
    note p(1) [unfolded this]
    then have "send_segments (loop_socket E F V) ?w (LW nd rx bo q) = send_segments (loop_socket E F V)
        \<lparr>bw_data = d, bw_pos = 7 * (k + 1), bw_seqno = of_nat (k + 1 + 1), bw_blksize = 127\<rparr>
        (LW nd \<lparr>br_buf = b, br_done = False\<rparr> bo q)"
      using send False by (intro send_segments_step) simp_all
    then show ?thesis using r by auto
  qed
qed

lemma master_block_result:
  assumes "d \<noteq> []" and "length d \<le> 252"
  shows "\<exists>rx'. master_block (loop_socket E F V) d (LW nd rx b []) = Some (Done (LW nd rx' b [], Inr ())) \<and>
    v_slice V (br_buf rx') = d"
proof -
  let ?K = "loop_socket E F V"
  let ?init = "blk_encode_download_initiate (Address 0x3000 0) (Some (of_nat (length d))) True"
  have init: "length ?init = 8" "?init ! 0 AND 0xE0 = 0xC0" "?init ! 0 AND 1 = 0"
    by (simp_all add: blk_encode_download_initiate_def frame_simps)
  then have "handle_block (tape F) V (received_new BLOCK_REQ ?init) [] rx = ([], block_receiver_new V, Inr ())"
    by (simp add: handle_block_def Let_def pad8_8)
  then have 1: "bus_send ?K BLOCK_REQ ?init (LW nd rx b []) = Some (Done (LW nd (block_receiver_new V) b [], Inr ()))"
    using bus_send_loop(1) [of BLOCK_REQ ?init] init(1) react_block [of ?init "[]" rx] by simp
  obtain w rx1 where 2: "send_segments ?K (block_writer_new d MAX_BLKSIZE) (LW nd (block_receiver_new V) b []) =
      Some (Done (LW nd rx1 b [], Inr w))" "bw_data w = d" "v_slice V (br_buf rx1) = d @ zeros (unused_bytes d)"
    using send_segments_result [of 0 d "block_receiver_new V" nd b "[]"] assms
    by (auto simp: block_writer_new_def block_receiver_new_def block.slice_new)
  let ?stop = "bw_end_frame True w"
  let ?u = "of_nat (unused_bytes d) :: u8"
  have stop: "length ?stop = 8" "?stop ! 0 AND 0xE0 = 0xC0" "?stop ! 0 AND 1 = 1"
    by (simp_all add: bw_end_frame_def Let_def encode_end_command)
  have u: "unat ?u = unused_bytes d" by (simp add: unused_bytes_def unat_of_nat)
  have fin: "br_finish V rx1 ?u (crc16 d) True = (rx1\<lparr>br_buf := v_truncate V (br_buf rx1) (length d)\<rparr>, Inr d)"
    using 2(3) u by (simp add: br_finish_def Let_def block.slice_truncate)
  then have "handle_block (tape F) V (received_new BLOCK_REQ ?stop) [] rx1 =
      ([frame_of F BLOCK_RESP [1]], rx1\<lparr>br_buf := v_truncate V (br_buf rx1) (length d)\<rparr>, Inr ())"
    using stop tape_send [of "tx_new BLOCK_RESP [1]" "[]"]
    by (simp add: handle_block_def Let_def pad8_8 decode_bw_end_frame 2(2))
  then have 3: "bus_send ?K BLOCK_REQ ?stop (LW nd rx1 b []) =
      Some (Done (LW nd (rx1\<lparr>br_buf := v_truncate V (br_buf rx1) (length d)\<rparr>) b [frame_of F BLOCK_RESP [1]], Inr ()))"
    using bus_send_loop(1) [of BLOCK_REQ ?stop] stop(1) react_block [of ?stop "[]" rx1] by simp
  have "master_block ?K d (LW nd rx b []) =
      Some (Done (LW nd (rx1\<lparr>br_buf := v_truncate V (br_buf rx1) (length d)\<rparr>) b [], Inr ()))"
    using recv_loop(2) [where c = BLOCK_RESP and d = "[1]"]
    by (simp add: master_block_def prog_bind_def prog_then_def prog_assert_def 1 2(1) 3)
  then show ?thesis using 2(3) by (auto simp: block.slice_truncate)
qed

end

section \<open>The server's safety\<close>

context node_env
begin

lemma serve_boot_safe:
  assumes "wf_node E nd"
  shows "\<exists>s' nd' r. serve_boot K E s nd = Done (s', nd', r) \<and> wf_node E nd'"
proof -
  let ?nd = "fst (apply_lss_node_id nd)"
  let ?i = "ucast (raw (nd_id ?nd)) :: u16"
  have wf: "wf_node E ?nd" by (rule wf_apply_lss [OF assms])
  obtain m where m: "single_map (no_map E) 0x6000 1 16 = Done m" "total_bits (no_map E) m \<le> 64"
    using maps.single_map_result [of 16 "0x6000" 1] by (auto simp: total_bits_def mapping_entry_new_def)
  show ?thesis
  proof (cases "add_rpdo E (0x200 + ?i) m ?nd")
    case (Inl e)
    then show ?thesis using m(1) wf by (simp add: serve_boot_def Let_def)
  next
    case (Inr n1)
    note wf1 = wf_add_rpdo [OF wf m(2) Inr]
    show ?thesis
    proof (cases "add_tpdo E (0x180 + ?i) m SynchronousAcyclic n1")
      case (Inl e)
      then show ?thesis using m(1) Inr wf1 by (simp add: serve_boot_def Let_def)
    next
      case (Inr n2)
      have "wf_node E (fst (node_boot n2))"
        using wf_add_tpdo [OF wf1 m(2) Inr] by (simp add: wf_node_def node_boot_def)
      then show ?thesis using m(1) \<open>add_rpdo E (0x200 + ?i) m ?nd = Inr n1\<close> Inr
        by (cases "node_boot n2") (simp add: serve_boot_def Let_def split: prod.split)
    qed
  qed
qed

lemma serve_frame_safe:
  assumes "wf_node E (sv_node sv)"
  shows "\<exists>s' sv' r. serve_frame K E V frame s sv = Done (s', sv', r) \<and> wf_node E (sv_node sv')"
proof (cases "rc_cob_id frame = BLOCK_REQ")
  case True
  then show ?thesis using assms by (simp add: serve_frame_def split: prod.split)
next
  case False
  obtain nd out where f: "on_frame E (rc_cob_id frame) (received_data frame) (sv_node sv) = Done (nd, out)" "wf_node E nd"
    using on_frame_post [OF assms, of "rc_cob_id frame" "received_data frame"] by (auto simp: frame_post_def)
  obtain s1 r1 where a: "send_all K (case out of None \<Rightarrow> [] | Some tx \<Rightarrow> [tx]) s = (s1, r1)" by fastforce
  obtain s2 sv2 r2 where b: "(if \<not> sv_booted sv \<and> rc_cob_id frame = NMT_COMMAND_COB_ID
      then run_map (\<lambda>(s, nd, r). (s,
        sv\<lparr>sv_node := nd, sv_booted := (case r of Inr _ \<Rightarrow> True | Inl _ \<Rightarrow> False)\<rparr>, r)) (serve_boot K E s1 nd)
      else Done (s1, sv\<lparr>sv_node := nd\<rparr>, Inr ())) = Done (s2, sv2, r2)" "wf_node E (sv_node sv2)"
    using serve_boot_safe [OF f(2), of K s1] f(2) by (cases "\<not> sv_booted sv \<and> rc_cob_id frame = NMT_COMMAND_COB_ID") auto
  obtain fs where fs: "sync_tpdos E (sv_node sv2) = Done fs" using sync_tpdos_result [OF b(2)] by blast
  show ?thesis
    using False f a b fs by (cases r1; cases r2) (auto simp: serve_frame_def Let_def split: prod.split)
qed

lemma serve_loop_safe:
  assumes "serve_loop K E' V s sv = Some y"
  shows "E' = E \<Longrightarrow> wf_node E (sv_node sv) \<Longrightarrow> \<exists>s' sv' r. y = Done (s', sv', r) \<and> wf_node E (sv_node sv')"
proof (induction rule: serve_loop.raw_induct [OF _ assms, consumes 0, case_names step])
  case (step f K E' V s sv y)
  obtain s1 r where rv: "recv K s = Some (s1, r)" using step.hyps by (cases "recv K s") auto
  show ?case
  proof (cases r)
    case (Inl e)
    then show ?thesis using step.hyps step.prems rv by auto
  next
    case (Inr frame)
    obtain s2 sv2 r2 where sf: "serve_frame K E V frame s1 sv = Done (s2, sv2, r2)" "wf_node E (sv_node sv2)"
      using serve_frame_safe [OF step.prems(2), where K = K and V = V and frame = frame and s = s1] by blast
    show ?thesis
    proof (cases r2)
      case (Inl e)
      then show ?thesis using step.hyps step.prems rv Inr sf by auto
    next
      case (Inr u)
      then have "f K E V s2 sv2 = Some y" using step.hyps step.prems rv \<open>r = Inr frame\<close> sf by simp
      then show ?thesis using step.IH [of K E V s2 sv2 y] sf(2) by simp
    qed
  qed
qed

end

section \<open>The whole run\<close>

context loopback
begin

lemma serve_init_result:
  "\<exists>od. serve_init E V = Inr \<lparr>sv_node = enable_lss \<lparr>vendor_id = 0x1F, product_code = 0x2A, revision_number = 1,
      serial_number = 0x99\<rparr> (node_new E (NodeId 1) od), sv_rx = block_receiver_new V, sv_booted = False\<rparr> \<and>
    wf_od (no_od E) od \<and> lm_get (no_od E) od = map_of
      [(Address 0x1000 0, entry_constant (Unsigned32 0x00040192)), (Address 0x1017 0, entry_rw (Unsigned16 1000)),
       (Address 0x2000 0, entry_rw (Unsigned64 0)), (Address 0x6000 1, entry_rw (Unsigned16 0)),
       (Address 0x1008 0, entry_rw (VisibleString bs_new))]"
proof -
  let ?es = "[(Address 0x1000 0, entry_constant (Unsigned32 0x00040192)), (Address 0x1017 0, entry_rw (Unsigned16 1000)),
       (Address 0x2000 0, entry_rw (Unsigned64 0)), (Address 0x6000 1, entry_rw (Unsigned16 0)),
       (Address 0x1008 0, entry_rw (VisibleString bs_new))]"
  have "distinct (map fst ?es)" "length ?es \<le> 8" "\<forall>x \<in> set ?es. wf_value (e_value (snd x))"
    by (simp_all add: wf_bs_new)
  from insert_all_new [OF this] show ?thesis
    by (auto simp: serve_init_def node_id_new_def simp del: insert_all.simps)
qed

lemma loopback_result:
  "\<exists>sv nd rx t. serve_init E V = Inr sv \<and>
    loopback_run (loop_socket E F V) (no_bytes E) \<lparr>lw_server = sv, lw_alive = True, lw_queue = []\<rparr> =
      Some (Done (LW nd rx True [], Inr ())) \<and>
    nd_id nd = NodeId 0x10 \<and> node_state nd = Operational \<and> as_bytes t = utf8 (lit ''canopen-rs device'') \<and>
    lm_get (no_od E) (nd_od nd) = map_of
      [(Address 0x1000 0, entry_constant (Unsigned32 0x00040192)), (Address 0x1017 0, entry_rw (Unsigned16 2500)),
       (Address 0x2000 0, entry_rw (Unsigned64 0x0102030405060708)), (Address 0x6000 1, entry_rw (Unsigned16 0xABCD)),
       (Address 0x1008 0, entry_rw (VisibleString t))] \<and>
    v_slice V (br_buf rx) = map of_nat [0..<50]"
proof -
  let ?K = "loop_socket E F V"
  obtain od where od: "serve_init E V = Inr \<lparr>sv_node = enable_lss \<lparr>vendor_id = 0x1F, product_code = 0x2A,
      revision_number = 1, serial_number = 0x99\<rparr> (node_new E (NodeId 1) od), sv_rx = block_receiver_new V, sv_booted = False\<rparr>"
    "wf_od (no_od E) od" "lm_get (no_od E) od = map_of
      [(Address 0x1000 0, entry_constant (Unsigned32 0x00040192)), (Address 0x1017 0, entry_rw (Unsigned16 1000)),
       (Address 0x2000 0, entry_rw (Unsigned64 0)), (Address 0x6000 1, entry_rw (Unsigned16 0)),
       (Address 0x1008 0, entry_rw (VisibleString bs_new))]"
    using serve_init_result by blast
  let ?n0 = "enable_lss \<lparr>vendor_id = 0x1F, product_code = 0x2A, revision_number = 1, serial_number = 0x99\<rparr>
    (node_new E (NodeId 1) od)"
  let ?rx = "block_receiver_new V"
  obtain n1 where 1: "master_lss ?K (LW ?n0 ?rx False []) = Some (Done (LW n1 ?rx True [], Inr ()))" "loop_device E od n1"
    using master_lss_result [OF od(2) refl] by blast
  have n1: "serving E n1" "nd_id n1 = NodeId 0x10" "nd_od n1 = od" using 1(2) by (simp_all add: loop_device_def)
  obtain od2 s2 t where 2: "master_sdo ?K (no_bytes E) (NodeId 0x10) (LW n1 ?rx True []) =
      Some (Done (LW (n1\<lparr>nd_od := od2, nd_sdo := s2\<rparr>) ?rx True [], Inr ()))"
    "serving E (n1\<lparr>nd_od := od2, nd_sdo := s2\<rparr>)" "from_bytes (utf8 (lit ''canopen-rs device'')) = Inr t"
    "lm_get (no_od E) od2 = (lm_get (no_od E) od)(Address 0x1017 0 \<mapsto> entry_rw (Unsigned16 2500),
       Address 0x2000 0 \<mapsto> entry_rw (Unsigned64 0x0102030405060708), Address 0x1008 0 \<mapsto> entry_rw (VisibleString t))"
    using master_sdo_result [OF n1(1), of 1000 0 bs_new ?rx] n1(2,3) od(3) by (auto simp: od_read_def)
  note dev = loop_device_od [OF 1(2) 2(2)]
  have "lm_get (no_od E) od2 (Address 0x6000 1) = Some (entry_rw (Unsigned16 0))" by (simp add: 2(4) od(3))
  from master_pdo_result [OF dev this] obtain n3 od3 where
    3: "master_pdo ?K (NodeId 0x10) (LW (n1\<lparr>nd_od := od2, nd_sdo := s2\<rparr>) ?rx True []) = Some (Done (LW n3 ?rx True [], Inr ()))"
    "nd_id n3 = NodeId 0x10" "node_state n3 = Operational" "nd_od n3 = od3"
    "lm_get (no_od E) od3 = (lm_get (no_od E) od2)(Address 0x6000 1 \<mapsto> entry_rw (Unsigned16 0xABCD))"
    using n1(2) by (fastforce simp: node_state_def)
  let ?d = "map of_nat [0..<50] :: u8 list"
  have "?d \<noteq> []" "length ?d \<le> 252" by (simp_all del: upt_Suc)
  from master_block_result [OF this] obtain rx' where
    4: "master_block ?K ?d (LW n3 ?rx True []) = Some (Done (LW n3 rx' True [], Inr ()))" "v_slice V (br_buf rx') = ?d" by blast
  have "loopback_run ?K (no_bytes E) (LW ?n0 ?rx False []) = Some (Done (LW n3 rx' True [], Inr ()))"
    by (simp add: loopback_run_def prog_then_def prog_bind_def prog_core_def node_id_new_def 1(1) 2(1) 3(1) 4(1) del: upt_Suc)
  moreover have "lm_get (no_od E) (nd_od n3) = map_of
      [(Address 0x1000 0, entry_constant (Unsigned32 0x00040192)), (Address 0x1017 0, entry_rw (Unsigned16 2500)),
       (Address 0x2000 0, entry_rw (Unsigned64 0x0102030405060708)), (Address 0x6000 1, entry_rw (Unsigned16 0xABCD)),
       (Address 0x1008 0, entry_rw (VisibleString t))]"
    by (simp add: 3(4,5) 2(4) od(3) fun_eq_iff)
  ultimately show ?thesis
    using od(1) 3(2,3) 4(2) from_bytes_Inr(1) [OF 2(3)] by fastforce
qed

end

interpretation list_loop: loopback "list_node_ops 8" example_frames "list_ops 256"
  unfolding loopback_def by (intro conjI list_bus.device_bus_axioms bytes.byte_vec_axioms)

section \<open>Properties\<close>

text \<open>C7: The example runs to its end. Whatever containers and frame type meet their contracts, the server's
  set-up succeeds, every assertion of the master holds and nothing fails: the node takes its id over LSS,
  boots, serves the expedited, segmented and string transfers, goes operational, answers a SYNC with the
  value its receive PDO brought, and confirms the block of 50 bytes. At the end the queue is empty and the
  dictionary and the receiver hold exactly what the master sent.\<close>

theorem loopback_run_succeeds:
  assumes "loopback E F V"
  shows "\<exists>sv nd rx t. serve_init E V = Inr sv \<and>
    loopback_run (loop_socket E F V) (no_bytes E) \<lparr>lw_server = sv, lw_alive = True, lw_queue = []\<rparr> =
      Some (Done (\<lparr>lw_server = \<lparr>sv_node = nd, sv_rx = rx, sv_booted = True\<rparr>, lw_alive = True, lw_queue = []\<rparr>, Inr ())) \<and>
    nd_id nd = NodeId 0x10 \<and> node_state nd = Operational \<and> as_bytes t = utf8 (lit ''canopen-rs device'') \<and>
    lm_get (no_od E) (nd_od nd) = map_of
      [(Address 0x1000 0, entry_constant (Unsigned32 0x00040192)), (Address 0x1017 0, entry_rw (Unsigned16 2500)),
       (Address 0x2000 0, entry_rw (Unsigned64 0x0102030405060708)), (Address 0x6000 1, entry_rw (Unsigned16 0xABCD)),
       (Address 0x1008 0, entry_rw (VisibleString t))] \<and>
    v_slice V (br_buf rx) = map of_nat [0..<50]"
  by (rule loopback.loopback_result [OF assms])

theorem loopback_run_succeeds_witness:
  "\<exists>sv w. serve_init (list_node_ops 8) (list_ops 256) = Inr sv \<and>
    loopback_run (loop_socket (list_node_ops 8) example_frames (list_ops 256)) (list_ops MAX_STRING_LEN)
      \<lparr>lw_server = sv, lw_alive = True, lw_queue = []\<rparr> = Some (Done (w, Inr ())) \<and>
    br_buf (sv_rx (lw_server w)) = map of_nat [0..<50]"
  using loopback_run_succeeds [OF list_loop.loopback_axioms] by (auto simp del: upt_Suc)

text \<open>C11: The example's block download works for every payload of 1 to 252 bytes and whatever the receiver held
  before: the master returns, the server confirms the CRC with the single byte 1 and its receiver holds
  exactly the payload. (Segments are padded to seven bytes, so 252 is what the 256 bytes can take.)\<close>

theorem loopback_block_verified:
  assumes "loopback E F V" and "d \<noteq> []" and "length d \<le> 252"
  shows "\<exists>rx'. master_block (loop_socket E F V) d
      \<lparr>lw_server = \<lparr>sv_node = nd, sv_rx = rx, sv_booted = b\<rparr>, lw_alive = True, lw_queue = []\<rparr> =
    Some (Done (\<lparr>lw_server = \<lparr>sv_node = nd, sv_rx = rx', sv_booted = b\<rparr>, lw_alive = True, lw_queue = []\<rparr>, Inr ())) \<and>
    v_slice V (br_buf rx') = d"
  by (rule loopback.master_block_result [OF assms])

theorem loopback_block_verified_witness:
  "\<exists>rx'. master_block (loop_socket (list_node_ops 8) example_frames (list_ops 256)) (zeros 252)
      \<lparr>lw_server = \<lparr>sv_node = example_node, sv_rx = \<lparr>br_buf = [1, 2, 3], br_done = True\<rparr>, sv_booted = False\<rparr>,
       lw_alive = True, lw_queue = []\<rparr> =
    Some (Done (\<lparr>lw_server = \<lparr>sv_node = example_node, sv_rx = rx', sv_booted = False\<rparr>, lw_alive = True, lw_queue = []\<rparr>, Inr ())) \<and>
    br_buf rx' = zeros 252"
proof -
  have "zeros 252 \<noteq> ([] :: u8 list)" by (simp add: zeros_def)
  from loopback_block_verified [OF list_loop.loopback_axioms this] show ?thesis by simp
qed

text \<open>No traffic panics the server of the example: on any socket and from any well-formed state its loop ends,
  when it ends, with an error or at a failed read, and its node is still well-formed; the same holds for
  every single frame.\<close>

lemma loopback_server_safe:
  assumes "node_env E N" and "wf_node E (sv_node sv)"
  shows "(\<exists>s' sv' r. serve_frame K E V frame s sv = Done (s', sv', r) \<and> wf_node E (sv_node sv')) \<and>
    (\<forall>y. serve_loop K E V s sv = Some y \<longrightarrow> (\<exists>s' sv' r. y = Done (s', sv', r) \<and> wf_node E (sv_node sv')))"
  using node_env.serve_frame_safe [OF assms, where K = K and V = V and frame = frame and s = s]
    node_env.serve_loop_safe [OF assms(1) _ refl assms(2), where K = K and V = V and s = s] by blast

text \<open>The node of the example is not unconfigured before LSS: \<open>enable_lss\<close> gives it the provisional id 1, and
  adopting the id without an assignment makes it node 1.\<close>

lemma loopback_node_configured:
  "\<not> lss_unconfigured (enable_lss a (node_new E (NodeId 1) od)) \<and>
   snd (apply_lss_node_id (enable_lss a (node_new E (NodeId 1) od))) = Some (NodeId 1)"
  by (simp add: lss_unconfigured_def enable_lss_def node_new_def lss_slave_new_def apply_lss_node_id_def node_id_new_def Let_def)

end
