(* ===== verification/Fastscan_Bus.thy ===== *)
theory Fastscan_Bus
  imports Lss
begin

text \<open>
  Fastscan (\<^verbatim>\<open>core/src/lss.rs\<close>) with any number of slaves on the bus. The master of \<open>Lss\<close> only learns
  whether somebody answered; the theorem of this file shows that it finds the smallest address, and what
  every slave is left in. The argument: at each stage the slaves that are still in the scan agree with the
  smallest address in the values found so far, so the bus answers every test as the smallest slave alone.
\<close>

section \<open>The bus\<close>

text \<open>Every slave sees every request; the master sees whether at least one of them answered.\<close>

definition bus_lss :: "lss_slave list \<Rightarrow> lss_frame \<Rightarrow> lss_slave list \<times> bool" where
  "bus_lss ss req =
     (map (\<lambda>s. fst (lss_handle s req)) ss, list_ex (\<lambda>s. snd (lss_handle s req) \<noteq> None) ss)"

fun fastscan_bus ::
    "nat \<Rightarrow> fastscan_master \<Rightarrow> lss_slave list \<Rightarrow> (fastscan_master \<times> lss_slave list) run" where
  "fastscan_bus 0 m ss = Panic"
| "fastscan_bus (Suc fuel) m ss =
     (case fm_next_request m of
        None \<Rightarrow> Done (m, ss)
      | Some req \<Rightarrow>
          let (ss', responded) = bus_lss ss req
          in run_bind (fm_on_response m responded) (\<lambda>m'. fastscan_bus fuel m' ss'))"

definition address_num :: "lss_address \<Rightarrow> nat" where
  "address_num a =
     ((unat (vendor_id a) * 2 ^ 32 + unat (product_code a)) * 2 ^ 32 + unat (revision_number a)) * 2 ^ 32 +
     unat (serial_number a)"

text \<open>The number of identity values in which a slave agrees with the address \<open>a\<close>, from the vendor-id on.\<close>

definition agreement :: "lss_address \<Rightarrow> lss_address \<Rightarrow> nat" where
  "agreement a b =
     (if vendor_id b \<noteq> vendor_id a then 0
      else if product_code b \<noteq> product_code a then 1
      else if revision_number b \<noteq> revision_number a then 2
      else if serial_number b \<noteq> serial_number a then 3
      else 4)"

lemma agreement_4: "agreement a b = 4 \<longleftrightarrow> b = a"
  by (cases a; cases b) (auto simp: agreement_def)

text \<open>A slave once the first \<open>n\<close> values of \<open>a\<close> are found.\<close>

definition stage :: "lss_address \<Rightarrow> nat \<Rightarrow> lss_slave \<Rightarrow> lss_slave" where
  "stage a n s =
     (if scanning s then s\<lparr>ls_fs_sub := of_nat (min n (agreement a (ls_address s)))\<rparr> else s)"

definition after_scan :: "lss_address \<Rightarrow> lss_slave \<Rightarrow> lss_slave" where
  "after_scan a s =
     (if \<not> scanning s then s
      else if ls_address s = a then s\<lparr>ls_fs_sub := 3, ls_state := Configuration\<rparr>
      else s\<lparr>ls_fs_sub := of_nat (agreement a (ls_address s))\<rparr>)"

definition value_of :: "lss_address \<Rightarrow> u8 \<Rightarrow> u32" where
  "value_of a sub =
     (if sub = 0 then vendor_id a else if sub = 1 then product_code a
      else if sub = 2 then revision_number a else serial_number a)"

lemma identity_value: "identity s = value_of (ls_address s)"
  by (simp add: identity_def value_of_def fun_eq_iff)

section \<open>One bit\<close>

lemma unat_from_bit: "unat (from_bit k w) = push_bit k (drop_bit k (unat w))"
  by (rule bit_eqI) (auto simp: bit_unsigned_iff bit_from_bit bit_push_bit_iff bit_drop_bit_eq
      dest: bit_imp_le_length)

lemma from_bit_less:
  assumes "bit w k" and "from_bit k v = from_bit (Suc k) w"
  shows "v < w"
proof -
  have "drop_bit k (unat v) = drop_bit k (unat (from_bit k v))"
    by (rule bit_eqI) (simp add: unat_from_bit bit_drop_bit_eq bit_push_bit_iff)
  also have "\<dots> = drop_bit k (push_bit (Suc k) (drop_bit (Suc k) (unat w)))"
    by (simp add: assms(2) unat_from_bit)
  also have "\<dots> = 2 * (unat w div 2 ^ k div 2)"
    by (simp add: drop_bit_eq_div push_bit_eq_mult ac_simps flip: div_mult2_eq)
  finally have "unat v div 2 ^ k = 2 * (unat w div 2 ^ k div 2)" by (simp add: drop_bit_eq_div)
  moreover have "odd (unat w div 2 ^ k)"
    using assms(1) by (simp add: bit_unsigned_iff flip: bit_iff_odd)
  ultimately have "unat v div 2 ^ k < unat w div 2 ^ k"
    by (metis even_mult_iff even_two_times_div_two linorder_neqE_nat odd_two_times_div_two_succ lessI plus_1_eq_Suc Suc_eq_plus1)
  then have "unat v < unat w" using div_le_mono linorder_not_le by blast
  then show ?thesis by (simp add: word_less_nat_alt)
qed

lemma fastscan_probe_match:
  assumes "k < 32"
  shows "(from_bit (Suc k) w XOR v) AND push_bit k 0xFFFFFFFF = 0 \<longleftrightarrow> from_bit k v = from_bit (Suc k) w"
proof -
  have ones: "(0xFFFFFFFF :: u32) = - 1" by simp
  have "bit ((from_bit (Suc k) w XOR v) AND push_bit k (- 1)) n \<longleftrightarrow>
      bit (from_bit (Suc k) w) n \<noteq> bit (from_bit k v) n" if "n < 32" for n
    using that assms
    by (auto simp: bit_from_bit bit_and_iff bit_xor_iff bit_push_bit_iff bit_minus_1_iff bit_not_iff bit_mask_iff)
  then show ?thesis unfolding ones by (auto simp: bit_eq_iff)
qed

text \<open>The smallest value decides every bit: some slave answers the test exactly when it would.\<close>

lemma smallest_decides:
  assumes "k < 32" and "w \<in> V" and "\<And>v. v \<in> V \<Longrightarrow> w \<le> v"
  shows "(\<exists>v \<in> V. (from_bit (Suc k) w XOR v) AND push_bit k 0xFFFFFFFF = 0) \<longleftrightarrow> \<not> bit w k"
proof
  assume "\<exists>v \<in> V. (from_bit (Suc k) w XOR v) AND push_bit k 0xFFFFFFFF = 0"
  then obtain v where "v \<in> V" "from_bit k v = from_bit (Suc k) w"
    using fastscan_probe_match [OF assms(1)] by blast
  with assms(3) [of v] show "\<not> bit w k" using from_bit_less by (metis leD)
next
  assume "\<not> bit w k"
  then show "\<exists>v \<in> V. (from_bit (Suc k) w XOR v) AND push_bit k 0xFFFFFFFF = 0"
    using fastscan_match [OF assms(1), of w] assms(2) by blast
qed

section \<open>One request on the bus\<close>

lemma xor_eq_0: "(v :: 'a::len word) XOR w = 0 \<longleftrightarrow> v = w"
  by (metis xor.assoc xor.right_neutral xor_self_eq)

lemma handle_test_any:
  assumes "unat b < 32"
  shows "lss_handle s (encode_fastscan v b sub sub) =
     (s, if scanning s \<and> ls_fs_sub s = sub \<and> (v XOR identity s sub) AND push_bit (unat b) 0xFFFFFFFF = 0
         then Some (lss_frame_cs CS_IDENTIFY_SLAVE) else None)"
proof -
  have "\<not> 32 \<le> b" using assms by (simp add: word_le_nat_alt)
  then show ?thesis
    by (auto simp: lss_handle_def handle_fastscan_def scanning_def encode_fastscan_frame u32_at_frame Let_def)
qed

lemma handle_confirm_any:
  assumes "nxt \<noteq> sub"
  shows "lss_handle s (encode_fastscan v 0 sub nxt) =
     (if scanning s \<and> ls_fs_sub s = sub \<and> identity s sub = v
      then ((if sub \<ge> 3 then s\<lparr>ls_state := Configuration\<rparr> else s\<lparr>ls_fs_sub := nxt\<rparr>),
        Some (lss_frame_cs CS_IDENTIFY_SLAVE))
      else (s, None))"
proof -
  have ones: "(0xFFFFFFFF :: u32) = - 1" by simp
  show ?thesis using assms
    by (auto simp: lss_handle_def handle_fastscan_def scanning_def encode_fastscan_frame u32_at_frame Let_def ones xor_eq_0)
qed

section \<open>The scan\<close>

text \<open>\<open>a\<close> is the smallest address among the slaves that take part.\<close>

definition least_scanning :: "lss_address \<Rightarrow> lss_slave list \<Rightarrow> bool" where
  "least_scanning a ss \<longleftrightarrow> (\<exists>s \<in> set ss. scanning s \<and> ls_address s = a) \<and>
     (\<forall>s \<in> set ss. scanning s \<longrightarrow> address_num a \<le> address_num (ls_address s))"

lemma value_of_simps [simp]:
  "value_of a 0 = vendor_id a" "value_of a 1 = product_code a"
  "value_of a 2 = revision_number a" "value_of a 3 = serial_number a"
  by (simp_all add: value_of_def)

lemma address_value_le:
  assumes "address_num a \<le> address_num b" and "n \<le> agreement a b" and "n < 4"
  shows "value_of a (of_nat n) \<le> value_of b (of_nat n)"
proof -
  have bound: "unat (w :: u32) < 4294967296" for w using unsigned_less [of w] by simp
  note b = bound [of "vendor_id a"] bound [of "product_code a"] bound [of "revision_number a"]
    bound [of "serial_number a"] bound [of "vendor_id b"] bound [of "product_code b"]
    bound [of "revision_number b"] bound [of "serial_number b"]
  consider "n = 0" | "n = 1" | "n = 2" | "n = 3" using assms(3) by linarith
  then show ?thesis
  proof cases
    case 1
    then show ?thesis using assms(1) b by (simp add: address_num_def word_le_nat_alt)
  next
    case 2
    then show ?thesis using assms(1,2) b
      by (auto simp: address_num_def word_le_nat_alt agreement_def split: if_splits)
  next
    case 3
    then show ?thesis using assms(1,2) b
      by (auto simp: address_num_def word_le_nat_alt agreement_def split: if_splits)
  next
    case 4
    then show ?thesis using assms(1,2) b
      by (auto simp: address_num_def word_le_nat_alt agreement_def split: if_splits)
  qed
qed

lemma agreement_le: "agreement a b \<le> 4"
  by (simp add: agreement_def)

lemma of_nat_small: "i \<le> 4 \<Longrightarrow> j \<le> 4 \<Longrightarrow> (of_nat i :: u8) = of_nat j \<longleftrightarrow> i = j"
  by (simp add: of_nat_eq_iff word_unat_eq_iff unat_of_nat)

lemma stage_sel:
  "scanning (stage a n s) = scanning s" "ls_address (stage a n s) = ls_address s"
  "n \<le> 4 \<Longrightarrow> scanning s \<Longrightarrow> ls_fs_sub (stage a n s) = of_nat n \<longleftrightarrow> n \<le> agreement a (ls_address s)"
  using agreement_le [of a "ls_address s"]
  by (auto simp: stage_def scanning_def of_nat_small min_def)

lemma bus_test:
  assumes "least_scanning a ss" and "n < 4" and "k < 32"
    and v: "v = from_bit (Suc k) (value_of a (of_nat n))"
  shows "bus_lss (map (stage a n) ss) (encode_fastscan v (of_nat k) (of_nat n) (of_nat n)) =
    (map (stage a n) ss, \<not> bit (value_of a (of_nat n)) k)"
proof -
  let ?V = "{value_of (ls_address s) (of_nat n) | s. s \<in> set ss \<and> scanning s \<and> n \<le> agreement a (ls_address s)}"
  have k: "unat (of_nat k :: u8) = k" using assms(3) by (simp add: unat_of_nat)
  then have "unat (of_nat k :: u8) < 32" using assms(3) by simp
  note test = handle_test_any [OF this]
  have "value_of a (of_nat n) \<in> ?V"
    using assms(1,2) agreement_4 [of a a] unfolding least_scanning_def by fastforce
  moreover have "value_of a (of_nat n) \<le> x" if "x \<in> ?V" for x
    using that assms(1,2) address_value_le unfolding least_scanning_def by blast
  ultimately have "(\<exists>x \<in> ?V. (v XOR x) AND push_bit k 0xFFFFFFFF = 0) \<longleftrightarrow> \<not> bit (value_of a (of_nat n)) k"
    unfolding v by (rule smallest_decides [OF assms(3)])
  then have "list_ex (\<lambda>s. snd (lss_handle s (encode_fastscan v (of_nat k) (of_nat n) (of_nat n))) \<noteq> None)
      (map (stage a n) ss) \<longleftrightarrow> \<not> bit (value_of a (of_nat n)) k"
    using assms(2) by (simp add: test list_ex_iff stage_sel identity_value k cong: conj_cong) blast
  then show ?thesis by (simp add: bus_lss_def test cong: map_cong)
qed

lemma agreement_next:
  "n < 4 \<Longrightarrow> n \<le> agreement a b \<Longrightarrow> value_of b (of_nat n) = value_of a (of_nat n) \<longleftrightarrow> Suc n \<le> agreement a b"
  by (auto simp: agreement_def less_Suc_eq numeral_eq_Suc split: if_splits)

lemma bus_confirm:
  assumes "n < 4"
  shows "fst (bus_lss (map (stage a n) ss)
      (encode_fastscan (value_of a (of_nat n)) 0 (of_nat n) ((of_nat n + 1) AND 3))) =
    map (if n = 3 then after_scan a else stage a (Suc n)) ss"
proof -
  have nxt: "((of_nat n + 1) AND 3) \<noteq> (of_nat n :: u8)"
    by (rule u8_cases_lt_4 [of "of_nat n :: u8"]) (use assms in \<open>simp_all add: unat_of_nat\<close>)
  have "fst (lss_handle (stage a n s) (encode_fastscan (value_of a (of_nat n)) 0 (of_nat n) ((of_nat n + 1) AND 3))) =
      (if n = 3 then after_scan a else stage a (Suc n)) s" for s
  proof (cases "scanning s \<and> Suc n \<le> agreement a (ls_address s)")
    case False
    then have "\<not> (scanning s \<and> ls_fs_sub (stage a n s) = of_nat n \<and>
        identity (stage a n s) (of_nat n) = value_of a (of_nat n))"
      using agreement_next [OF assms, of a "ls_address s"] stage_sel(3) [of n s a] assms
      by (auto simp: identity_value stage_sel(2))
    then have "fst (lss_handle (stage a n s) (encode_fastscan (value_of a (of_nat n)) 0 (of_nat n)
        ((of_nat n + 1) AND 3))) = stage a n s"
      by (simp only: handle_confirm_any [OF nxt] stage_sel(1) if_False fst_conv)
    moreover have "stage a n s = (if n = 3 then after_scan a else stage a (Suc n)) s"
    proof (cases "scanning s")
      case True
      with False have "agreement a (ls_address s) \<le> n" by simp
      then have "min n (agreement a (ls_address s)) = agreement a (ls_address s)"
        "min (Suc n) (agreement a (ls_address s)) = agreement a (ls_address s)" "ls_address s \<noteq> a"
        using agreement_4 [of a "ls_address s"] assms by auto
      with True show ?thesis by (simp add: stage_def after_scan_def)
    qed (simp add: stage_def after_scan_def)
    ultimately show ?thesis by simp
  next
    case True
    have "value_of (ls_address s) (of_nat n) = value_of a (of_nat n)"
      using True agreement_next [OF assms, of a "ls_address s"] by simp
    then have "scanning (stage a n s) \<and> ls_fs_sub (stage a n s) = of_nat n \<and>
        identity (stage a n s) (of_nat n) = value_of a (of_nat n)"
      using True stage_sel(3) [of n s a] assms by (simp add: identity_value stage_sel(1,2))
    then have step: "fst (lss_handle (stage a n s) (encode_fastscan (value_of a (of_nat n)) 0 (of_nat n)
        ((of_nat n + 1) AND 3))) = (if (of_nat n :: u8) \<ge> 3 then (stage a n s)\<lparr>ls_state := Configuration\<rparr>
        else (stage a n s)\<lparr>ls_fs_sub := (of_nat n + 1) AND 3\<rparr>)"
      by (simp only: handle_confirm_any [OF nxt] if_True fst_conv simp_thms)
    consider "n = 0" | "n = 1" | "n = 2" | "n = 3" using assms by linarith
    then show ?thesis
    proof cases
      case 4
      then have "ls_address s = a" using True agreement_4 [of a "ls_address s"] agreement_le [of a "ls_address s"]
        by simp
      then show ?thesis unfolding step using 4 True agreement_4 [of a a]
        by (simp add: stage_def after_scan_def)
    qed (unfold step, use True in \<open>simp_all add: stage_def word_le_nat_alt\<close>)
  qed
  then show ?thesis by (simp add: bus_lss_def)
qed

lemma fastscan_bus_bit:
  assumes "least_scanning a ss" and "n < 4" and "k < 32" and "length ids = 4"
    and "ids ! n = from_bit (Suc k) (value_of a (of_nat n))"
  shows "fastscan_bus (Suc fuel) \<lparr>fm_id = ids, fm_sub = of_nat n, fm_bit = int k, fm_found = True\<rparr>
      (map (stage a n) ss) =
    fastscan_bus fuel \<lparr>fm_id = ids[n := from_bit k (value_of a (of_nat n))], fm_sub = of_nat n,
      fm_bit = int k - 1, fm_found = True\<rparr> (map (stage a n) ss)"
proof -
  have n: "unat (of_nat n :: u8) = n" using assms(2) by (simp add: unat_of_nat)
  then show ?thesis
    using bus_test [OF assms(1-3,5)] fm_next_request_bit [OF assms(3), of "of_nat n" ids True]
      fm_on_response_bit [OF assms(3), of "of_nat n" ids "value_of a (of_nat n)" True] assms(2,4,5)
    by simp
qed

lemma fastscan_bus_bits:
  assumes "least_scanning a ss" and "n < 4"
    and "k < 32" and "length ids = 4" and "ids ! n = from_bit (Suc k) (value_of a (of_nat n))"
  shows "fastscan_bus (Suc k + fuel) \<lparr>fm_id = ids, fm_sub = of_nat n, fm_bit = int k, fm_found = True\<rparr>
      (map (stage a n) ss) =
    fastscan_bus fuel \<lparr>fm_id = ids[n := value_of a (of_nat n)], fm_sub = of_nat n, fm_bit = - 1,
      fm_found = True\<rparr> (map (stage a n) ss)"
  using assms(3-)
proof (induction k arbitrary: ids)
  case (0 ids)
  show ?case using fastscan_bus_bit [OF assms(1,2) 0, of fuel] by simp
next
  case (Suc k ids)
  let ?ids = "ids[n := from_bit (Suc k) (value_of a (of_nat n))]"
  have "fastscan_bus (Suc k + fuel) \<lparr>fm_id = ?ids, fm_sub = of_nat n, fm_bit = int k, fm_found = True\<rparr>
        (map (stage a n) ss) =
      fastscan_bus fuel \<lparr>fm_id = ?ids[n := value_of a (of_nat n)], fm_sub = of_nat n, fm_bit = - 1,
        fm_found = True\<rparr> (map (stage a n) ss)"
    using Suc.prems assms(2) by (intro Suc.IH) simp_all
  then show ?case
    using fastscan_bus_bit [OF assms(1,2) Suc.prems, of "Suc k + fuel"]
    by (simp del: fastscan_bus.simps)
qed

lemma fastscan_bus_value:
  assumes "least_scanning a ss" and "n < 4" and "length ids = 4" and "ids ! n = 0"
  shows "fastscan_bus (33 + fuel) \<lparr>fm_id = ids, fm_sub = of_nat n, fm_bit = 31, fm_found = True\<rparr>
      (map (stage a n) ss) =
    fastscan_bus fuel \<lparr>fm_id = ids[n := value_of a (of_nat n)], fm_sub = of_nat n + 1, fm_bit = 31,
      fm_found = True\<rparr> (map (if n = 3 then after_scan a else stage a (Suc n)) ss)"
proof -
  have n: "unat (of_nat n :: u8) = n" using assms(2) by (simp add: unat_of_nat)
  have le: "\<not> (3 :: u8) < of_nat n" using assms(2) by (simp add: word_less_nat_alt unat_of_nat)
  have "fastscan_bus (33 + fuel) \<lparr>fm_id = ids, fm_sub = of_nat n, fm_bit = 31, fm_found = True\<rparr>
        (map (stage a n) ss) =
      fastscan_bus (Suc fuel) \<lparr>fm_id = ids[n := value_of a (of_nat n)], fm_sub = of_nat n, fm_bit = - 1,
        fm_found = True\<rparr> (map (stage a n) ss)"
    using fastscan_bus_bits [OF assms(1,2), of 31 ids "Suc fuel"] assms(3,4) by simp
  also have "\<dots> = fastscan_bus fuel \<lparr>fm_id = ids[n := value_of a (of_nat n)], fm_sub = of_nat n + 1,
      fm_bit = 31, fm_found = True\<rparr> (map (if n = 3 then after_scan a else stage a (Suc n)) ss)"
    using bus_confirm [OF assms(2), of a ss] le n assms(2,3) sub_no_overflow [of "of_nat n"]
    by (simp add: fm_next_request_def fm_on_response_def Let_def split_beta)
  finally show ?thesis .
qed

lemma fastscan_bus_result:
  assumes "least_scanning a ss"
  shows "fastscan_bus 134 fastscan_new ss =
    Done (\<lparr>fm_id = [vendor_id a, product_code a, revision_number a, serial_number a],
            fm_sub = 4, fm_bit = 31, fm_found = True\<rparr>, map (after_scan a) ss)"
proof -
  let ?m = "\<lambda>ids sub. \<lparr>fm_id = ids, fm_sub = sub, fm_bit = 31, fm_found = True\<rparr>"
  have probe: "lss_handle s (encode_fastscan 0 FASTSCAN_INIT 0 0) =
      (stage a 0 s, if scanning s then Some (lss_frame_cs CS_IDENTIFY_SLAVE) else None)" for s
    by (simp add: lss_handle_def handle_fastscan_def scanning_def encode_fastscan_frame stage_def Let_def)
  have "bus_lss ss (encode_fastscan 0 FASTSCAN_INIT 0 0) = (map (stage a 0) ss, True)"
    using assms by (auto simp: bus_lss_def probe list_ex_iff least_scanning_def)
  then have "fastscan_bus 134 fastscan_new ss = fastscan_bus 133 (?m [0, 0, 0, 0] 0) (map (stage a 0) ss)"
    by (subst fastscan_bus.simps(2) [of 133, simplified])
      (simp add: fastscan_new_def fm_next_request_def fm_on_response_def)
  also have "\<dots> = fastscan_bus 100 (?m [vendor_id a, 0, 0, 0] 1) (map (stage a 1) ss)"
    using fastscan_bus_value [OF assms, of 0 "[0, 0, 0, 0]" 100] by simp
  also have "\<dots> = fastscan_bus 67 (?m [vendor_id a, product_code a, 0, 0] 2) (map (stage a 2) ss)"
    using fastscan_bus_value [OF assms, of 1 "[vendor_id a, 0, 0, 0]" 67] by (simp add: numeral_2_eq_2)
  also have "\<dots> = fastscan_bus 34 (?m [vendor_id a, product_code a, revision_number a, 0] 3) (map (stage a 3) ss)"
    using fastscan_bus_value [OF assms, of 2 "[vendor_id a, product_code a, 0, 0]" 34]
    by (simp add: numeral_3_eq_3)
  also have "\<dots> = fastscan_bus 1 (?m [vendor_id a, product_code a, revision_number a, serial_number a] 4)
      (map (after_scan a) ss)"
    using fastscan_bus_value [OF assms, of 3 "[vendor_id a, product_code a, revision_number a, 0]" 1] by simp
  also have "\<dots> = Done (?m [vendor_id a, product_code a, revision_number a, serial_number a] 4,
      map (after_scan a) ss)"
    by (simp add: fm_next_request_def)
  finally show ?thesis .
qed

lemma least_scanning_exists:
  assumes "\<exists>s \<in> set ss. scanning s"
  shows "\<exists>a. least_scanning a ss"
proof -
  obtain s where "s \<in> set ss \<and> scanning s"
    "\<And>t. t \<in> set ss \<and> scanning t \<Longrightarrow> address_num (ls_address s) \<le> address_num (ls_address t)"
    using assms arg_min_natI [of "\<lambda>s. s \<in> set ss \<and> scanning s" _ "\<lambda>s. address_num (ls_address s)"]
      arg_min_nat_le [of "\<lambda>s. s \<in> set ss \<and> scanning s" _ "\<lambda>s. address_num (ls_address s)"] by blast
  then show ?thesis unfolding least_scanning_def by blast
qed

text \<open>Distinct addresses have distinct numbers.\<close>

lemma address_num_inject: "address_num a = address_num b \<longleftrightarrow> a = b"
proof
  assume eq: "address_num a = address_num b"
  have sym: "agreement a b = agreement b a" by (simp add: agreement_def eq_commute)
  have "\<not> agreement a b < 4"
  proof
    assume less: "agreement a b < 4"
    then have "value_of b (of_nat (agreement a b)) = value_of a (of_nat (agreement a b))"
      using address_value_le [of a b "agreement a b"] address_value_le [of b a "agreement a b"] eq
      by (simp flip: sym)
    then show False using agreement_next [OF less, of a b] by simp
  qed
  then show "a = b" using agreement_le [of a b] agreement_4 [of a b] by simp
qed simp

text \<open>C17: A Fastscan with any number of slaves on the bus never panics and ends after 133 requests. The
  master finds the smallest address among the unconfigured slaves that wait; the slaves with that address
  are in the configuration state, the others that took part only keep the position at which they dropped
  out, and the slaves that did not take part are untouched.\<close>

theorem fastscan_finds_smallest:
  assumes "\<exists>s \<in> set ss. scanning s"
  shows "\<exists>m. fastscan_bus 134 fastscan_new ss =
      Done (m, map (\<lambda>s. if \<not> scanning s then s
        else if ls_address s = fm_address m then s\<lparr>ls_fs_sub := 3, ls_state := Configuration\<rparr>
        else s\<lparr>ls_fs_sub := of_nat (agreement (fm_address m) (ls_address s))\<rparr>) ss) \<and>
    fm_is_complete m \<and> fm_found m \<and>
    (\<exists>s \<in> set ss. scanning s \<and> ls_address s = fm_address m) \<and>
    (\<forall>s \<in> set ss. scanning s \<longrightarrow> address_num (fm_address m) \<le> address_num (ls_address s))"
proof -
  obtain a where a: "least_scanning a ss" using least_scanning_exists [OF assms] ..
  let ?m = "\<lparr>fm_id = [vendor_id a, product_code a, revision_number a, serial_number a],
    fm_sub = 4, fm_bit = 31, fm_found = True\<rparr>"
  have m: "fm_is_complete ?m" "fm_found ?m" "fm_address ?m = a"
    by (simp_all add: fm_is_complete_def fm_address_def)
  have "fastscan_bus 134 fastscan_new ss = Done (?m, map (after_scan (fm_address ?m)) ss)"
    unfolding m(3) by (rule fastscan_bus_result [OF a])
  moreover have "least_scanning (fm_address ?m) ss" unfolding m(3) by (rule a)
  ultimately show ?thesis
    using m(1,2) unfolding least_scanning_def after_scan_def [abs_def] by blast
qed

text \<open>With nobody to answer the first probe the scan is over, and nothing has changed.\<close>

lemma fastscan_bus_nobody:
  assumes "\<forall>s \<in> set ss. \<not> scanning s"
  shows "fastscan_bus (Suc (Suc fuel)) fastscan_new ss = Done (fastscan_new\<lparr>fm_sub := 4\<rparr>, ss)"
proof -
  have "lss_handle s (encode_fastscan 0 FASTSCAN_INIT 0 0) = (s, None)" if "s \<in> set ss" for s
    using assms that
    by (cases "ls_state s") (auto simp: lss_handle_def handle_fastscan_def encode_fastscan_frame scanning_def)
  then have "bus_lss ss (encode_fastscan 0 FASTSCAN_INIT 0 0) = (ss, False)"
    by (auto simp: bus_lss_def list_ex_iff map_idI)
  then show ?thesis
    by (simp add: fastscan_new_def fm_next_request_def fm_on_response_def)
qed

text \<open>Three slaves, one of them configured; the second differs from the third in the serial number only.\<close>

definition example_bus :: "lss_slave list" where
  "example_bus =
     [lss_slave_new example_address 5,
      lss_slave_new (example_address\<lparr>serial_number := 0x9999\<rparr>) 0xFF,
      lss_slave_new (example_address\<lparr>serial_number := 0x2222\<rparr>) 0xFF]"

theorem fastscan_finds_smallest_witness:
  "\<exists>m. fastscan_bus 134 fastscan_new example_bus =
      Done (m, [lss_slave_new example_address 5,
        (lss_slave_new (example_address\<lparr>serial_number := 0x9999\<rparr>) 0xFF)\<lparr>ls_fs_sub := 3\<rparr>,
        (lss_slave_new (example_address\<lparr>serial_number := 0x2222\<rparr>) 0xFF)
          \<lparr>ls_fs_sub := 3, ls_state := Configuration\<rparr>]) \<and>
    fm_found m \<and> fm_address m = example_address\<lparr>serial_number := 0x2222\<rparr>"
proof -
  obtain m where m: "fastscan_bus 134 fastscan_new example_bus =
      Done (m, map (\<lambda>s. if \<not> scanning s then s
        else if ls_address s = fm_address m then s\<lparr>ls_fs_sub := 3, ls_state := Configuration\<rparr>
        else s\<lparr>ls_fs_sub := of_nat (agreement (fm_address m) (ls_address s))\<rparr>) example_bus)"
    "fm_found m" "\<exists>s \<in> set example_bus. scanning s \<and> ls_address s = fm_address m"
    "\<forall>s \<in> set example_bus. scanning s \<longrightarrow> address_num (fm_address m) \<le> address_num (ls_address s)"
    using fastscan_finds_smallest [of example_bus] by (auto simp: example_bus_def scanning_def lss_slave_new_def)
  have "fm_address m = example_address\<lparr>serial_number := 0x9999\<rparr> \<or>
      fm_address m = example_address\<lparr>serial_number := 0x2222\<rparr>"
    using m(3) by (auto simp: example_bus_def scanning_def lss_slave_new_def)
  moreover have "address_num (fm_address m) \<le> address_num (example_address\<lparr>serial_number := 0x2222\<rparr>)"
    using m(4) by (simp add: example_bus_def scanning_def lss_slave_new_def)
  ultimately have "fm_address m = example_address\<lparr>serial_number := 0x2222\<rparr>"
    by (elim disjE) (simp_all add: example_address_def address_num_def)
  with m(1,2) show ?thesis
    by (simp add: example_bus_def scanning_def lss_slave_new_def example_address_def agreement_def)
qed

end
