(* ===== verification/Commissioning.thy ===== *)
theory Commissioning
  imports Fastscan_Bus Node
begin

text \<open>
  Commissioning a network of nodes (\<^verbatim>\<open>core/src/node.rs\<close> over \<^verbatim>\<open>core/src/lss.rs\<close>): the master drives
  \<open>FastscanMaster\<close> through \<open>on_frame\<close> of every node, assigns an id to the node it found, sends all nodes back
  to waiting, and the nodes adopt what they were assigned, until a scan finds nobody. The result is stated
  by the rank of an address among those on the bus.
\<close>

section \<open>A request of the LSS master to all nodes\<close>

fun lss_broadcast :: "('m, 'b, 'p, 'r, 't, 'h, 'v) node_ops \<Rightarrow> lss_frame \<Rightarrow> ('m, 'b, 'r, 't, 'h) node list \<Rightarrow>
    (('m, 'b, 'r, 't, 'h) node list \<times> bool) run" where
  "lss_broadcast E req [] = Done ([], False)"
| "lss_broadcast E req (nd # nds) =
     run_bind (on_frame E LSS_MASTER_COB_ID req nd) (\<lambda>(nd', out).
       run_map (\<lambda>(nds', answered). (nd' # nds', out \<noteq> None \<or> answered)) (lss_broadcast E req nds))"

fun fastscan_nodes :: "('m, 'b, 'p, 'r, 't, 'h, 'v) node_ops \<Rightarrow> nat \<Rightarrow> fastscan_master \<Rightarrow>
    ('m, 'b, 'r, 't, 'h) node list \<Rightarrow> (fastscan_master \<times> ('m, 'b, 'r, 't, 'h) node list) run" where
  "fastscan_nodes E 0 m nds = Panic"
| "fastscan_nodes E (Suc fuel) m nds =
     (case fm_next_request m of
        None \<Rightarrow> Done (m, nds)
      | Some req \<Rightarrow>
          run_bind (lss_broadcast E req nds) (\<lambda>(nds', answered).
            run_bind (fm_on_response m answered) (\<lambda>m'. fastscan_nodes E fuel m' nds')))"

definition commission_step :: "('m, 'b, 'p, 'r, 't, 'h, 'v) node_ops \<Rightarrow> u8 \<Rightarrow>
    ('m, 'b, 'r, 't, 'h) node list \<Rightarrow> (('m, 'b, 'r, 't, 'h) node list \<times> bool) run" where
  "commission_step E k nds =
     run_bind (fastscan_nodes E 134 fastscan_new nds) (\<lambda>(m, nds1).
       if \<not> fm_found m then Done (nds1, False)
       else
         run_bind (lss_broadcast E (encode_configure_node_id k) nds1) (\<lambda>(nds2, _).
           run_bind (lss_broadcast E (encode_switch_global False) nds2) (\<lambda>(nds3, _).
             Done (map (\<lambda>nd. fst (apply_lss_node_id nd)) nds3, True))))"

fun commission :: "('m, 'b, 'p, 'r, 't, 'h, 'v) node_ops \<Rightarrow> nat \<Rightarrow> u8 \<Rightarrow>
    ('m, 'b, 'r, 't, 'h) node list \<Rightarrow> ('m, 'b, 'r, 't, 'h) node list run" where
  "commission E 0 k nds = Panic"
| "commission E (Suc fuel) k nds =
     run_bind (commission_step E k nds) (\<lambda>(nds', found).
       if found then commission E fuel (k + 1) nds' else Done nds')"

section \<open>The LSS part of the nodes\<close>

definition on_slave :: "(lss_slave \<Rightarrow> lss_slave) \<Rightarrow> ('m, 'b, 'r, 't, 'h) node \<Rightarrow> ('m, 'b, 'r, 't, 'h) node" where
  "on_slave g nd = nd\<lparr>nd_lss := map_option g (nd_lss nd)\<rparr>"

definition slaves :: "('m, 'b, 'r, 't, 'h) node list \<Rightarrow> lss_slave list" where
  "slaves nds = List.map_filter nd_lss nds"

lemma slaves_simps [simp]:
  "slaves [] = []"
  "slaves (nd # nds) = (case nd_lss nd of None \<Rightarrow> slaves nds | Some l \<Rightarrow> l # slaves nds)"
  by (simp_all add: slaves_def List.map_filter_simps split: option.splits)

lemma in_slaves: "l \<in> set (slaves nds) \<longleftrightarrow> (\<exists>nd \<in> set nds. nd_lss nd = Some l)"
  by (induction nds) (auto split: option.splits)

lemma slaves_on_slave: "slaves (map (on_slave g) nds) = map g (slaves nds)"
  by (induction nds) (auto simp: on_slave_def split: option.splits)

lemma on_slave_comp [simp]: "on_slave g (on_slave h nd) = on_slave (\<lambda>l. g (h l)) nd"
  by (simp add: on_slave_def option.map_comp comp_def)

lemma on_slave_id [simp]: "on_slave (\<lambda>l. l) nd = nd"
  by (simp add: on_slave_def option.map_ident)

lemma copy_at_all: "length xs = 8 \<Longrightarrow> copy_at 0 xs (zeros 8) = xs"
  by (simp add: copy_at_def)

lemma lss_broadcast_result:
  assumes "length req = 8"
  shows "lss_broadcast E req nds = Done (map (on_slave (\<lambda>l. fst (lss_handle l req))) nds,
    snd (bus_lss (slaves nds) req))"
proof (induction nds)
  case Nil
  show ?case by (simp add: bus_lss_def)
next
  case (Cons nd nds)
  then show ?case using assms
    by (auto simp: on_frame_def on_lss_def copy_at_all on_slave_def bus_lss_def split: option.splits prod.splits)
qed

lemma fm_request_length: "fm_next_request m = Some req \<Longrightarrow> length req = 8"
  by (auto simp: fm_next_request_def encode_fastscan_frame Let_def split: if_splits)

text \<open>A scan of the nodes is a scan of their slaves.\<close>

lemma fastscan_nodes_bus:
  "fastscan_bus fuel m (slaves nds) = Done (m', ss') \<Longrightarrow>
    \<exists>h. fastscan_nodes E fuel m nds = Done (m', map (on_slave h) nds) \<and> map h (slaves nds) = ss'"
proof (induction fuel arbitrary: m nds)
  case 0
  then show ?case by simp
next
  case (Suc fuel)
  show ?case
  proof (cases "fm_next_request m")
    case None
    moreover have "map (on_slave (\<lambda>l. l)) nds = nds" by (simp add: map_idI)
    ultimately show ?thesis using Suc.prems by (intro exI [of _ "\<lambda>l. l"]) simp
  next
    case (Some req)
    let ?h = "\<lambda>l. fst (lss_handle l req)"
    obtain m1 where m1: "fm_on_response m (snd (bus_lss (slaves nds) req)) = Done m1"
      and run: "fastscan_bus fuel m1 (slaves (map (on_slave ?h) nds)) = Done (m', ss')"
      using Suc.prems Some
      by (auto simp: bus_lss_def run_bind_eq_Done_iff slaves_on_slave)
    obtain h where "fastscan_nodes E fuel m1 (map (on_slave ?h) nds) =
        Done (m', map (on_slave h) (map (on_slave ?h) nds))"
      "map h (slaves (map (on_slave ?h) nds)) = ss'"
      using Suc.IH [OF run] by blast
    then show ?thesis using Some m1 lss_broadcast_result [OF fm_request_length [OF Some], of E nds]
      by (intro exI [of _ "\<lambda>l. h (?h l)"]) (simp add: slaves_on_slave comp_def)
  qed
qed

lemma on_slave_cong:
  assumes "map h (slaves nds) = map g (slaves nds)"
  shows "map (on_slave h) nds = map (on_slave g) nds"
  using assms by (induction nds) (auto simp: on_slave_def split: option.splits)

definition commission_node :: "lss_address \<Rightarrow> u8 \<Rightarrow> ('m, 'b, 'r, 't, 'h) node \<Rightarrow> ('m, 'b, 'r, 't, 'h) node" where
  "commission_node a k nd =
     fst (apply_lss_node_id (on_slave (\<lambda>l. fst (lss_handle
       (fst (lss_handle (after_scan a l) (encode_configure_node_id k))) (encode_switch_global False))) nd))"

lemma commission_step_found:
  assumes "least_scanning a (slaves nds)"
  shows "commission_step E k nds = Done (map (commission_node a k) nds, True)"
proof -
  let ?m = "\<lparr>fm_id = [vendor_id a, product_code a, revision_number a, serial_number a],
    fm_sub = 4, fm_bit = 31, fm_found = True\<rparr>"
  obtain h where scan: "fastscan_nodes E 134 fastscan_new nds = Done (?m, map (on_slave h) nds)"
    and h: "map h (slaves nds) = map (after_scan a) (slaves nds)"
    using fastscan_nodes_bus [OF fastscan_bus_result [OF assms], of E] by blast
  have len: "length (encode_configure_node_id k) = 8" "length (encode_switch_global False) = 8"
    by (simp_all add: encode_configure_node_id_def encode_switch_global_def frame_simps)
  show ?thesis
    using scan unfolding on_slave_cong [OF h]
    by (simp add: commission_step_def lss_broadcast_result [OF len(1)] lss_broadcast_result [OF len(2)]
        commission_node_def comp_def)
qed

lemma commission_step_nobody:
  assumes "\<forall>l \<in> set (slaves nds). \<not> scanning l"
  shows "commission_step E k nds = Done (nds, False)"
proof -
  have "fastscan_bus 134 fastscan_new (slaves nds) = Done (fastscan_new\<lparr>fm_sub := 4\<rparr>, slaves nds)"
    using fastscan_bus_nobody [OF assms, of 132] by (simp add: numeral_eq_Suc)
  from fastscan_nodes_bus [OF this, of E]
  obtain h where "fastscan_nodes E 134 fastscan_new nds =
      Done (fastscan_new\<lparr>fm_sub := 4\<rparr>, map (on_slave h) nds)" "map h (slaves nds) = map (\<lambda>l. l) (slaves nds)"
    by auto
  then show ?thesis using on_slave_cong [of h nds "\<lambda>l. l"]
    by (simp add: commission_step_def fastscan_new_def map_idI)
qed

section \<open>The ids in the order of the addresses\<close>

definition rank :: "lss_address set \<Rightarrow> lss_address \<Rightarrow> nat" where
  "rank A a = card {b \<in> A. address_num b < address_num a}"

lemma rank_less: "finite A \<Longrightarrow> a \<in> A \<Longrightarrow> address_num a < address_num b \<Longrightarrow> rank A a < rank A b"
  unfolding rank_def by (rule psubset_card_mono) auto

lemma rank_inject: "finite A \<Longrightarrow> a \<in> A \<Longrightarrow> b \<in> A \<Longrightarrow> rank A a = rank A b \<longleftrightarrow> a = b"
  using rank_less [of A a b] rank_less [of A b a] address_num_inject [of a b]
  by (metis less_irrefl linorder_neqE_nat)

lemma rank_bound: "finite A \<Longrightarrow> a \<in> A \<Longrightarrow> rank A a < card A"
  unfolding rank_def by (rule psubset_card_mono) auto

definition node_at :: "lss_address set \<Rightarrow> lss_address set \<Rightarrow> ('m, 'b, 'r, 't, 'h) node \<Rightarrow> bool" where
  "node_at A S nd \<longleftrightarrow>
     (\<forall>l. nd_lss nd = Some l \<longrightarrow> ls_state l = Waiting \<and> ls_address l \<in> A \<and>
       (if ls_address l \<in> S
        then ls_node_id l = of_nat (Suc (rank A (ls_address l))) \<and> ls_pending_node_id l = ls_node_id l \<and>
          nd_id nd = NodeId (ls_node_id l) \<and> srv_node (nd_sdo nd) = NodeId (ls_node_id l)
        else ls_node_id l = UNCONFIGURED_NODE_ID \<and> ls_pending_node_id l = UNCONFIGURED_NODE_ID))"

text \<open>What commissioning may change of a node: its id, its SDO server, restarted for the new id, and the
  state of its LSS slave.\<close>

definition kept :: "('m, 'b, 'r, 't, 'h) node \<Rightarrow> ('m, 'b, 'r, 't, 'h) node \<Rightarrow> bool" where
  "kept nd nd' \<longleftrightarrow>
     nd' = nd\<lparr>nd_id := nd_id nd', nd_sdo := nd_sdo nd', nd_lss := nd_lss nd'\<rparr> \<and>
     (nd_id nd' = nd_id nd \<and> nd_sdo nd' = nd_sdo nd \<or> nd_sdo nd' = sdo_server_new (nd_id nd')) \<and>
     map_option ls_address (nd_lss nd') = map_option ls_address (nd_lss nd) \<and>
     (nd_lss nd = None \<longrightarrow> nd' = nd)"

lemma kept_sel:
  "kept nd nd' \<Longrightarrow> nd_od nd' = nd_od nd" "kept nd nd' \<Longrightarrow> nd_nmt nd' = nd_nmt nd"
  "kept nd nd' \<Longrightarrow> nd_rpdos nd' = nd_rpdos nd"
  unfolding kept_def by (metis node.ext_inject node.surjective node.update_convs(1,3,7))+

lemma after_scan_address [simp]: "ls_address (after_scan a l) = ls_address l"
  by (simp add: after_scan_def)

lemma handle_address [simp]: "ls_address (fst (lss_handle l req)) = ls_address l"
  using lss_handle_frame [of l req] by (cases "lss_handle l req") auto

lemma commission_node_kept: "kept nd (commission_node a k nd)"
  by (auto simp: kept_def commission_node_def apply_lss_node_id_def on_slave_def set_node_id_def adopt_pending_def Let_def
      split: option.splits sum.splits)

lemma id_of_rank:
  assumes "r < 127"
  shows "device_id (NodeId (of_nat (Suc r)))" "(of_nat (Suc r) :: u8) \<noteq> UNCONFIGURED_NODE_ID"
    "1 \<le> (of_nat (Suc r) :: u8)" "(of_nat (Suc r) :: u8) \<le> 127"
proof -
  have "unat (of_nat (Suc r) :: u8) = Suc r" using assms by (simp add: unat_of_nat del: of_nat_Suc)
  then show "device_id (NodeId (of_nat (Suc r)))" "(of_nat (Suc r) :: u8) \<noteq> UNCONFIGURED_NODE_ID"
    "1 \<le> (of_nat (Suc r) :: u8)" "(of_nat (Suc r) :: u8) \<le> 127"
    using assms by (auto simp: device_id_nat word_le_nat_alt simp del: of_nat_Suc)
qed

lemma handle_switch_back:
  "lss_handle l (encode_switch_global False) = (l\<lparr>ls_selective := 0, ls_state := Waiting\<rparr>, None)"
  by (simp add: lss_handle_def encode_switch_global_def frame_simps)

lemma commission_node_at:
  assumes "node_at A S nd" and "a \<in> A" and "a \<notin> S" and "finite A" and "card A \<le> 127"
    and k: "k = of_nat (Suc (rank A a))"
  shows "node_at A (insert a S) (commission_node a k nd)"
proof (cases "nd_lss nd")
  case None
  then show ?thesis
    by (simp add: node_at_def commission_node_def apply_lss_node_id_def on_slave_def)
next
  case (Some l)
  note at = assms(1) [unfolded node_at_def, rule_format, OF Some]
  note less = rank_bound [OF assms(4)]
  have ka: "1 \<le> k" "k \<le> 127" "k \<noteq> UNCONFIGURED_NODE_ID" "node_id_new k = Inr (NodeId k)"
    using id_of_rank [of "rank A a"] less [OF assms(2)] assms(5) unfolding k
    by (auto simp: node_id_new_Inr_iff)
  have inv: "node_id_new UNCONFIGURED_NODE_ID = Inl InvalidNodeId" by (simp add: node_id_new_def)
  consider "ls_address l \<in> S" | "ls_address l = a" | "ls_address l \<notin> insert a S" by blast
  then show ?thesis
  proof cases
    case 1
    have "ls_node_id l \<noteq> UNCONFIGURED_NODE_ID \<and> node_id_new (ls_node_id l) = Inr (NodeId (ls_node_id l))"
      using id_of_rank [of "rank A (ls_address l)"] less [of "ls_address l"] at 1 assms(5)
      by (auto simp: node_id_new_Inr_iff)
    then show ?thesis using Some at 1
      by (simp add: node_at_def commission_node_def on_slave_def after_scan_def scanning_def
          lss_configure_node_id handle_switch_back apply_lss_node_id_def adopt_pending_def set_node_id_def
          sdo_server_new_def)
  next
    case 2
    then show ?thesis using Some at assms(3) ka
      by (simp add: node_at_def commission_node_def on_slave_def after_scan_def scanning_def
          lss_configure_node_id handle_switch_back apply_lss_node_id_def adopt_pending_def set_node_id_def
          sdo_server_new_def k)
  next
    case 3
    then show ?thesis using Some at inv
      by (simp add: node_at_def commission_node_def on_slave_def after_scan_def scanning_def
          lss_configure_node_id handle_switch_back apply_lss_node_id_def)
  qed
qed

lemma kept_trans: "kept x y \<Longrightarrow> kept y z \<Longrightarrow> kept x z"
  by (cases x; cases y; cases z) (auto simp: kept_def)

lemma list_all2_kept_trans: "list_all2 kept xs ys \<Longrightarrow> list_all2 kept ys zs \<Longrightarrow> list_all2 kept xs zs"
  by (rule list_all2_trans [of kept kept kept]) (rule kept_trans)

lemma slaves_addresses_kept:
  "list_all2 kept nds nds' \<Longrightarrow> ls_address ` set (slaves nds') = ls_address ` set (slaves nds)"
  by (induction rule: list_all2_induct) (auto simp: kept_def split: option.splits)

lemma node_at_scanning:
  assumes "node_at A S nd" and "nd_lss nd = Some l" and "finite A" and "card A \<le> 127"
  shows "scanning l \<longleftrightarrow> ls_address l \<notin> S"
  using assms id_of_rank [of "rank A (ls_address l)"] rank_bound [of A "ls_address l"]
  by (auto simp: node_at_def scanning_def split: if_splits)

lemma list_all2_kept_map: "list_all2 kept nds (map (commission_node a k) nds)"
  by (simp add: list_all2_conv_all_nth commission_node_kept)

lemma list_all2_kept_refl: "list_all2 kept nds nds"
  by (rule list_all2_refl) (simp add: kept_def)

text \<open>The addresses that are assigned are always the smallest ones.\<close>

lemma commission_result:
  fixes nds :: "('m, 'b, 'r, 't, 'h) node list"
  assumes "card A \<le> 127" and "A = ls_address ` set (slaves nds)" and "S \<subseteq> A"
    and "\<And>a b. a \<in> S \<Longrightarrow> b \<in> A \<Longrightarrow> address_num b < address_num a \<Longrightarrow> b \<in> S"
    and "\<forall>nd \<in> set nds. node_at A S nd"
    and "n = card A - card S" and "k = of_nat (Suc (card S))"
  shows "\<exists>nds'. commission E (Suc n) k nds = Done nds' \<and> (\<forall>nd \<in> set nds'. node_at A A nd) \<and>
    list_all2 kept nds nds'"
  using assms(2-)
proof (induction n arbitrary: nds S k)
  case (0 nds S k)
  have fin: "finite A" using 0(1) by simp
  then have S: "S = A" using 0(2,5) by (simp add: card_subset_eq card_mono le_antisym)
  have "\<forall>l \<in> set (slaves nds). \<not> scanning l"
    using 0(1,4) node_at_scanning [OF _ _ fin assms(1)] unfolding S by (fastforce simp: in_slaves)
  then show ?case using commission_step_nobody [of nds E k] 0(4) list_all2_kept_refl
    by (simp add: S)
next
  case (Suc n nds S k)
  have fin: "finite A" using Suc.prems(1) by simp
  have "S \<noteq> A" using Suc.prems(5) by auto
  then obtain b where "b \<in> A" "b \<notin> S" using Suc.prems(2) by blast
  then obtain l where l: "l \<in> set (slaves nds)" "ls_address l \<notin> S" using Suc.prems(1) by auto
  have scan: "scanning l \<longleftrightarrow> ls_address l \<notin> S" if "l \<in> set (slaves nds)" for l
    using that Suc.prems(4) node_at_scanning [OF _ _ fin assms(1)] by (auto simp: in_slaves)
  then obtain a where a: "least_scanning a (slaves nds)" using least_scanning_exists l by blast
  have aA: "a \<in> A" and aS: "a \<notin> S" and least: "\<And>b. b \<in> A \<Longrightarrow> b \<notin> S \<Longrightarrow> address_num a \<le> address_num b"
    using a scan unfolding least_scanning_def Suc.prems(1) by blast+
  have "{b \<in> A. address_num b < address_num a} = S"
  proof (intro equalityI subsetI)
    fix b assume "b \<in> S"
    then have "b \<in> A" "\<not> address_num a < address_num b" "b \<noteq> a"
      using Suc.prems(2) Suc.prems(3) [OF \<open>b \<in> S\<close> aA] aS by auto
    then show "b \<in> {b \<in> A. address_num b < address_num a}"
      using address_num_inject [of a b] by auto
  qed (use least in force)
  then have rank: "rank A a = card S" by (simp add: rank_def)
  let ?nds = "map (commission_node a k) nds"
  have addresses: "A = ls_address ` set (slaves ?nds)"
    unfolding Suc.prems(1) by (rule slaves_addresses_kept [OF list_all2_kept_map, symmetric])
  have at: "\<forall>nd \<in> set ?nds. node_at A (insert a S) nd"
    using Suc.prems(4,6) commission_node_at [OF _ aA aS fin assms(1)] by (auto simp: rank)
  have card: "card (insert a S) = Suc (card S)"
    using aS finite_subset [OF Suc.prems(2) fin] by simp
  have lower: "b \<in> insert a S" if "c \<in> insert a S" "b \<in> A" "address_num b < address_num c" for b c
    using that Suc.prems(3) least [of b] by fastforce
  have "\<exists>nds'. commission E (Suc n) (k + 1) ?nds = Done nds' \<and> (\<forall>nd \<in> set nds'. node_at A A nd) \<and>
      list_all2 kept ?nds nds'"
    by (rule Suc.IH [OF addresses _ lower at]) (use Suc.prems(2,5,6) aA card in auto)
  then obtain nds' where "commission E (Suc n) (k + 1) ?nds = Done nds'"
    "\<forall>nd \<in> set nds'. node_at A A nd" "list_all2 kept ?nds nds'" by blast
  then show ?case
    using commission_step_found [OF a, of E k] list_all2_kept_trans [OF list_all2_kept_map, of a k nds nds']
    by (auto simp del: commission.simps simp: commission.simps(2) [of E "Suc n"])
qed

text \<open>A network of unconfigured nodes is commissioned; what that means for a single node.\<close>

lemma commission_network:
  fixes nds :: "('m, 'b, 'r, 't, 'h) node list"
  assumes "A = ls_address ` set (slaves nds)" and "card A \<le> 127"
    and "\<forall>nd \<in> set nds. \<forall>l. nd_lss nd = Some l \<longrightarrow> scanning l \<and> ls_pending_node_id l = UNCONFIGURED_NODE_ID"
  shows "\<exists>nds'. commission E (Suc (card A)) 1 nds = Done nds' \<and> (\<forall>nd \<in> set nds'. node_at A A nd) \<and>
    list_all2 kept nds nds'"
proof -
  have "\<forall>nd \<in> set nds. node_at A {} nd"
    using assms(3) by (fastforce simp: node_at_def scanning_def assms(1) in_slaves intro!: imageI)
  then show ?thesis using commission_result [OF assms(2,1), of "{}" "card A" 1 E] by simp
qed

lemma commissioned_node:
  assumes "finite A" and "card A \<le> 127" and "kept nd nd'" and "node_at A A nd'" and "nd_lss nd = Some l"
  shows "nd_id nd' = NodeId (of_nat (Suc (rank A (ls_address l))))" and "srv_node (nd_sdo nd') = nd_id nd'"
    and "device_id (nd_id nd')" and "\<not> lss_unconfigured nd'"
    and "ls_address l \<in> A" and "rank A (ls_address l) < 127"
proof -
  obtain l' where l': "nd_lss nd' = Some l'" "ls_address l' = ls_address l"
    using assms(3,5) by (auto simp: kept_def)
  then show r: "ls_address l \<in> A" "rank A (ls_address l) < 127"
    using rank_bound [OF assms(1), of "ls_address l"] assms(2,4) by (auto simp: node_at_def)
  show "nd_id nd' = NodeId (of_nat (Suc (rank A (ls_address l))))" "srv_node (nd_sdo nd') = nd_id nd'"
    "device_id (nd_id nd')" "\<not> lss_unconfigured nd'"
    using l' r assms(4) id_of_rank [of "rank A (ls_address l)"]
    by (simp_all add: node_at_def lss_unconfigured_def del: of_nat_Suc)
qed

lemma commissioned_ids:
  assumes "finite A" and "card A \<le> 127"
    and "kept x x'" and "node_at A A x'" and "nd_lss x = Some l"
    and "kept y y'" and "node_at A A y'" and "nd_lss y = Some k"
  shows "nd_id x' = nd_id y' \<longleftrightarrow> ls_address l = ls_address k"
proof -
  have "(of_nat (Suc r) :: u8) = of_nat (Suc r') \<longleftrightarrow> r = r'" if "r < 127" "r' < 127" for r r'
    using that by (simp add: word_unat_eq_iff unat_of_nat del: of_nat_Suc)
  then show ?thesis
    using commissioned_node [OF assms(1-5)] commissioned_node [OF assms(1,2,6-8)] rank_inject [OF assms(1)]
    by (simp del: of_nat_Suc)
qed

text \<open>C18: A master that repeats scan, assignment and adoption with the ids 1, 2 and so on gives every
  unconfigured node an id, in ascending order of the addresses: the node whose address has r smaller
  ones on the bus serves its SDO channel under the id r + 1, so two nodes share an id exactly when they
  share an address. It ends after one round per address and a last scan that finds nobody; nothing else
  of a node changes, and nodes without LSS are untouched.\<close>

theorem commissioning_assigns_all:
  fixes nds :: "('m, 'b, 'r, 't, 'h) node list"
  assumes "A = ls_address ` set (slaves nds)" and "card A \<le> 127"
    and "\<forall>nd \<in> set nds. \<forall>l. nd_lss nd = Some l \<longrightarrow> scanning l \<and> ls_pending_node_id l = UNCONFIGURED_NODE_ID"
  shows "\<exists>nds'. commission E (Suc (card A)) 1 nds = Done nds' \<and> length nds' = length nds \<and>
    (\<forall>i < length nds. kept (nds ! i) (nds' ! i) \<and>
      (\<forall>l. nd_lss (nds ! i) = Some l \<longrightarrow>
        nd_id (nds' ! i) = NodeId (of_nat (Suc (card {b \<in> A. address_num b < address_num (ls_address l)}))) \<and>
        srv_node (nd_sdo (nds' ! i)) = nd_id (nds' ! i) \<and> device_id (nd_id (nds' ! i)) \<and>
        \<not> lss_unconfigured (nds' ! i))) \<and>
    (\<forall>i < length nds. \<forall>j < length nds. \<forall>l l'. nd_lss (nds ! i) = Some l \<longrightarrow> nd_lss (nds ! j) = Some l' \<longrightarrow>
      (nd_id (nds' ! i) = nd_id (nds' ! j) \<longleftrightarrow> ls_address l = ls_address l'))"
proof -
  have fin: "finite A" by (simp add: assms(1))
  obtain nds' where run: "commission E (Suc (card A)) 1 nds = Done nds'"
    and at: "\<forall>nd \<in> set nds'. node_at A A nd" and kept: "list_all2 kept nds nds'"
    using commission_network [OF assms] by blast
  have node: "kept (nds ! i) (nds' ! i)" "node_at A A (nds' ! i)" if "i < length nds" for i
    using that at kept by (auto simp: list_all2_conv_all_nth)
  show ?thesis
    using run kept [THEN list_all2_lengthD] node commissioned_node [OF fin assms(2) node]
      commissioned_ids [OF fin assms(2) node _ node]
    unfolding rank_def by auto
qed

text \<open>The master has to send the nodes back to waiting: adopting an id does not leave the configuration
  state, so the next assignment on the bus reaches a node that already has its id, and takes it away.\<close>

lemma adopted_node_reassigned:
  assumes "nd_lss nd = Some l" and "ls_state l = Configuration"
    and "device_id (NodeId i)" and "device_id (NodeId j)"
  shows "\<exists>nd1 out1 nd2 out2.
    on_frame E LSS_MASTER_COB_ID (encode_configure_node_id i) nd = Done (nd1, Some out1) \<and>
    nd_id (fst (apply_lss_node_id nd1)) = NodeId i \<and>
    on_frame E LSS_MASTER_COB_ID (encode_configure_node_id j) (fst (apply_lss_node_id nd1)) =
      Done (nd2, Some out2) \<and>
    nd_id (fst (apply_lss_node_id nd2)) = NodeId j"
proof -
  have len: "length (encode_configure_node_id k) = 8" for k
    by (simp add: encode_configure_node_id_def frame_simps)
  have new: "node_id_new i = Inr (NodeId i)" "node_id_new j = Inr (NodeId j)"
    using assms(3,4) by (simp_all add: node_id_new_Inr_iff)
  show ?thesis using assms
    by (simp add: on_frame_def on_lss_def len copy_at_all lss_configure_node_id device_id_def
        apply_lss_node_id_def new set_node_id_def adopt_pending_def)
qed

text \<open>Three nodes: two unconfigured ones, the one with the larger serial number first, and one without
  LSS.\<close>

definition example_network ::
  "((address \<times> entry) list, u8 list, mapping_entry list rpdo_slot list,
    mapping_entry list tpdo_slot list, u32 list) node list" where
  "example_network =
     [enable_lss_unconfigured (example_address\<lparr>serial_number := 0x9999\<rparr>) example_node,
      enable_lss_unconfigured (example_address\<lparr>serial_number := 0x2222\<rparr>) example_node,
      example_node]"

theorem commissioning_assigns_all_witness:
  "\<exists>nds'. commission (list_node_ops 4) 3 1 example_network = Done nds' \<and>
    nd_id (nds' ! 0) = NodeId 2 \<and> nd_id (nds' ! 1) = NodeId 1 \<and> nds' ! 2 = example_node \<and>
    nd_od (nds' ! 0) = nd_od example_node"
proof -
  let ?a = "example_address\<lparr>serial_number := 0x9999\<rparr>" and ?b = "example_address\<lparr>serial_number := 0x2222\<rparr>"
  have none: "nd_lss example_node = None" by (simp add: example_node_def node_new_def)
  have A: "{?a, ?b} = ls_address ` set (slaves example_network)"
    by (simp add: example_network_def enable_lss_unconfigured_def lss_slave_new_def none)
  have less: "address_num ?b < address_num ?a" "?a \<noteq> ?b"
    by (simp_all add: example_address_def address_num_def)
  have below: "{c \<in> {?a, ?b}. address_num c < address_num ?a} = {?b}"
    "{c \<in> {?a, ?b}. address_num c < address_num ?b} = {}"
    using less by auto
  have card: "card {?a, ?b} = 2" using less(2) by simp
  have pre: "\<forall>nd \<in> set example_network. \<forall>l. nd_lss nd = Some l \<longrightarrow>
      scanning l \<and> ls_pending_node_id l = UNCONFIGURED_NODE_ID"
    by (simp add: example_network_def enable_lss_unconfigured_def lss_slave_new_def none scanning_def)
  obtain nds' where run: "commission (list_node_ops 4) (Suc 2) 1 example_network = Done nds'"
    and nodes: "\<And>i. i < 3 \<Longrightarrow> kept (example_network ! i) (nds' ! i)"
    and ids: "\<And>i l. i < 3 \<Longrightarrow> nd_lss (example_network ! i) = Some l \<Longrightarrow> nd_id (nds' ! i) =
      NodeId (of_nat (Suc (card {c \<in> {?a, ?b}. address_num c < address_num (ls_address l)})))"
    using commissioning_assigns_all [OF A _ pre, of "list_node_ops 4"] unfolding card
    by (auto simp: example_network_def)
  have lss: "nd_lss (example_network ! 0) = Some (lss_slave_new ?a 0xFF)"
    "nd_lss (example_network ! 1) = Some (lss_slave_new ?b 0xFF)"
    and address: "ls_address (lss_slave_new a n) = a" for a n
    by (simp_all add: example_network_def enable_lss_unconfigured_def lss_slave_new_def)
  have "nd_id (nds' ! 0) = NodeId 2" "nd_id (nds' ! 1) = NodeId 1"
    using ids [OF _ lss(1)] ids [OF _ lss(2)] unfolding address below by simp_all
  moreover have "nds' ! 2 = example_node" "nd_od (nds' ! 0) = nd_od example_node"
    using nodes [of 2] kept_sel(1) [OF nodes [of 0]] none
    by (simp_all add: example_network_def kept_def enable_lss_unconfigured_def)
  ultimately show ?thesis using run by (auto simp: numeral_3_eq_3)
qed

end
