(* ===== verification/Commissioned_Network.thy ===== *)
theory Commissioned_Network
  imports Commissioning Network
begin

text \<open>
  The way of a network from unconfigured nodes to service: the nodes of \<open>Commissioning\<close>, once booted, are
  the nodes of \<open>Network\<close>, where the host reads their dictionaries over the shared bus.
\<close>

section \<open>From unconfigured nodes to a network that serves\<close>

text \<open>An unconfigured node that has just been switched on, with no receive PDO on an SDO channel.\<close>

definition fresh_node :: "('m, 'b, 'p, 'r, 't, 'h, 'v) node_ops \<Rightarrow> ('m, 'b, 'r, 't, 'h) node \<Rightarrow> bool" where
  "fresh_node E nd \<longleftrightarrow> wf_node E nd \<and> node_state nd = Initialising \<and>
     (\<forall>r \<in> set (v_slice (no_rpdos E) (nd_rpdos nd)). rp_cob_id r < 0x580 \<or> 0x680 \<le> rp_cob_id r) \<and>
     (\<exists>l. nd_lss nd = Some l \<and> scanning l \<and> ls_pending_node_id l = UNCONFIGURED_NODE_ID)"

lemma wf_kept: "wf_node E nd \<Longrightarrow> kept nd nd' \<Longrightarrow> wf_node E nd'"
proof -
  assume wf: "wf_node E nd" and k: "kept nd nd'"
  have "wf_node E (nd\<lparr>nd_id := i, nd_sdo := s, nd_lss := l\<rparr>)"
    if "i = nd_id nd \<and> s = nd_sdo nd \<or> s = sdo_server_new i" for i s l
    using wf that by (auto simp: wf_node_def sdo_server_new_def wf_srv_def)
  then show "wf_node E nd'" using k unfolding kept_def by metis
qed

lemma commissioned_boot:
  assumes "fresh_node E nd" and "kept nd nd'" and "device_id (nd_id nd')" and "\<not> lss_unconfigured nd'"
    and "nd'' = fst (node_boot nd')"
  shows "serving E nd''" and "nd_id nd'' = nd_id nd'" and "nd_od nd'' = nd_od nd"
    and "device_id n \<Longrightarrow> n \<noteq> nd_id nd' \<Longrightarrow> bystander E n nd''"
proof -
  have "wf_node E nd'" by (rule wf_kept [OF _ assms(2)]) (use assms(1) in \<open>simp add: fresh_node_def\<close>)
  then have wf: "wf_node E nd''" by (simp add: assms(5) node_boot_def wf_node_def)
  then show "serving E nd''"
    using assms kept_sel(2) [OF assms(2)]
    by (simp add: serving_def fresh_node_def node_boot_def nmt_boot_def node_state_def lss_unconfigured_def)
  show id: "nd_id nd'' = nd_id nd'" and "nd_od nd'' = nd_od nd"
    using kept_sel(1) [OF assms(2)] by (simp_all add: assms(5) node_boot_def)
  show "bystander E n nd''" if n: "device_id n" "n \<noteq> nd_id nd'"
  proof -
    have "rp_cob_id r \<noteq> request_cob_id n \<and> rp_cob_id r \<noteq> response_cob_id n"
      if r: "r \<in> set (v_slice (no_rpdos E) (nd_rpdos nd''))" for r
    proof -
      have "rp_cob_id r < 0x580 \<or> 0x680 \<le> rp_cob_id r"
        using r assms(1) kept_sel(3) [OF assms(2)] by (simp add: fresh_node_def assms(5) node_boot_def)
      moreover have "unat (request_cob_id n) = 0x600 + unat (raw n)" "unat (response_cob_id n) = 0x580 + unat (raw n)"
        using unat_cob_of [of "0x600" n] unat_cob_of [of "0x580" n]
        by (simp_all add: request_cob_id_def response_cob_id_def cob_of_def)
      ultimately show ?thesis using n(1) by (auto simp: device_id_nat word_less_nat_alt word_le_nat_alt)
    qed
    then show ?thesis using wf n(2) id by (auto simp: bystander_def)
  qed
qed

lemma slaves_all:
  "\<forall>nd \<in> set nds. nd_lss nd \<noteq> None \<Longrightarrow> slaves nds = map (\<lambda>nd. the (nd_lss nd)) nds"
  by (induction nds) auto

text \<open>C19: From power-on to service. A network of at most 127 fresh, unconfigured nodes with distinct
  addresses is commissioned and booted; then the host can read every object of every node under the id
  that the node was given, through the one bus they share, and gets the value of that node's dictionary.\<close>

theorem commissioned_network_serves:
  assumes "node_env E N" and "can_frames F" and "length nds \<le> 127" and "\<forall>nd \<in> set nds. fresh_node E nd"
    and "distinct (map ls_address (slaves nds))"
  shows "\<exists>nds' net. commission E (Suc (length nds)) 1 nds = Done nds' \<and>
    net = map (\<lambda>nd. fst (node_boot nd)) nds' \<and> length net = length nds \<and>
    (\<forall>i < length nds. \<forall>a v. od_read (no_od E) (nd_od (nds ! i)) a = Inr v \<longrightarrow>
      (\<exists>nd. sdo_read (net_socket E F) (no_bytes E) (nd_id (nds' ! i)) a (data_type_of v)
          \<lparr>nw_nodes = net, nw_queue = []\<rparr> =
        Some (Done (\<lparr>nw_nodes = net[i := nd], nw_queue = []\<rparr>, Inr v)) \<and> nd_od nd = nd_od (nds ! i)))"
proof -
  define A where "A = ls_address ` set (slaves nds)"
  have all: "slaves nds = map (\<lambda>nd. the (nd_lss nd)) nds"
    by (rule slaves_all) (use assms(4) in \<open>auto simp: fresh_node_def\<close>)
  have card: "card A = length nds"
    using distinct_card [OF assms(5)] by (simp add: A_def all image_image)
  have fin: "finite A" by (simp add: A_def)
  have le: "card A \<le> 127" using assms(3) card by simp
  obtain nds' where run: "commission E (Suc (length nds)) 1 nds = Done nds'"
    and at: "\<forall>nd \<in> set nds'. node_at A A nd" and kept: "list_all2 kept nds nds'"
    using commission_network [OF A_def le, of E] assms(4) unfolding card by (fastforce simp: fresh_node_def)
  let ?boot = "\<lambda>nd. fst (node_boot nd)"
  let ?net = "map ?boot nds'"
  have len: "length nds' = length nds" using kept by (simp add: list_all2_lengthD)
  have node: "kept (nds ! i) (nds' ! i)" "node_at A A (nds' ! i)" "fresh_node E (nds ! i)"
    "\<exists>l. nd_lss (nds ! i) = Some l" if "i < length nds" for i
    using that at kept assms(4) by (auto simp: list_all2_conv_all_nth fresh_node_def)
  have up: "device_id (nd_id (nds' ! i)) \<and> \<not> lss_unconfigured (nds' ! i)" if "i < length nds" for i
    using node(4) [OF that] commissioned_node [OF fin le node(1,2) [OF that]] by blast
  have ne: "nd_id (nds' ! i) \<noteq> nd_id (nds' ! j)" if ij: "i < length nds" "j < length nds" "i \<noteq> j" for i j
  proof -
    obtain l k where lk: "nd_lss (nds ! i) = Some l" "nd_lss (nds ! j) = Some k" using node(4) [OF ij(1)] node(4) [OF ij(2)] by blast
    have "map ls_address (slaves nds) ! i \<noteq> map ls_address (slaves nds) ! j"
      using nth_eq_iff_index_eq [OF assms(5), of i j] ij by (simp add: all)
    then have "ls_address l \<noteq> ls_address k" using ij lk by (simp add: all)
    then show ?thesis
      using commissioned_ids [OF fin le node(1,2) [OF ij(1)] lk(1) node(1,2) [OF ij(2)] lk(2)] by simp
  qed
  have "\<exists>nd. sdo_read (net_socket E F) (no_bytes E) (nd_id (nds' ! i)) a (data_type_of v)
        \<lparr>nw_nodes = ?net, nw_queue = []\<rparr> =
      Some (Done (\<lparr>nw_nodes = ?net[i := nd], nw_queue = []\<rparr>, Inr v)) \<and> nd_od nd = nd_od (nds ! i)"
    if i: "i < length nds" and v: "od_read (no_od E) (nd_od (nds ! i)) a = Inr v" for i a v
  proof -
    note b = commissioned_boot [OF node(3,1) [OF i] conjunct1 [OF up [OF i]] conjunct2 [OF up [OF i]] refl]
    have others: "bystander E (nd_id (?net ! i)) (?net ! j)" if "j < length ?net" "j \<noteq> i" for j
    proof -
      have j: "j < length nds" using that(1) len by simp
      show ?thesis
        using commissioned_boot(4) [OF node(3,1) [OF j] conjunct1 [OF up [OF j]] conjunct2 [OF up [OF j]] refl]
          b(2) up [OF i] ne [OF i j] that len i by simp
    qed
    show ?thesis
      using network_read [OF assms(1,2), of i ?net a v] b others v i len by simp
  qed
  then show ?thesis using run len by (intro exI [of _ nds'] exI [of _ ?net]) simp
qed

theorem commissioned_network_serves_witness:
  "\<exists>nds' net nd. commission (list_node_ops 4) 3 1 (take 2 example_network) = Done nds' \<and>
    net = map (\<lambda>nd. fst (node_boot nd)) nds' \<and>
    sdo_read (net_socket (list_node_ops 4) example_frames) (list_ops MAX_STRING_LEN) (nd_id (nds' ! 1))
        (Address 0x1001 0) DT_Unsigned8 \<lparr>nw_nodes = net, nw_queue = []\<rparr> =
      Some (Done (\<lparr>nw_nodes = net[1 := nd], nw_queue = []\<rparr>, Inr (Unsigned8 0)))"
proof -
  let ?nds = "take 2 example_network"
  have nodes: "?nds = [enable_lss_unconfigured (example_address\<lparr>serial_number := 0x9999\<rparr>) example_node,
      enable_lss_unconfigured (example_address\<lparr>serial_number := 0x2222\<rparr>) example_node]"
    by (simp add: example_network_def)
  have "fresh_node (list_node_ops 4) (enable_lss_unconfigured a example_node)" for a
    using wf_node_od(3) [OF wf_example_node]
    by (simp add: fresh_node_def enable_lss_unconfigured_def lss_slave_new_def scanning_def)
      (simp add: example_node_def node_new_def node_state_def nmt_new_def list_ops_def)
  then have fresh: "\<forall>nd \<in> set ?nds. fresh_node (list_node_ops 4) nd" by (simp add: nodes)
  have "distinct (map ls_address (slaves ?nds))"
    by (simp add: nodes enable_lss_unconfigured_def lss_slave_new_def example_address_def)
  moreover have "od_read (assoc_ops 4) (nd_od (?nds ! 1)) (Address 0x1001 0) = Inr (Unsigned8 0)"
    by code_simp
  moreover have "length ?nds = 2" by (simp add: nodes)
  ultimately show ?thesis
    using commissioned_network_serves [OF list_node.node_env_axioms plain_frames.can_frames_axioms _ fresh]
    by (fastforce simp: numeral_3_eq_3 numeral_2_eq_2)
qed

end
