(* ===== verification/Node_Frames.thy ===== *)
theory Node_Frames
  imports Node_Reach
begin

text \<open>
  The frames a node gives to the bus (\<^verbatim>\<open>core/src/node.rs\<close>), collected over all operations that return a
  \<open>TxFrame\<close>: their identifiers and lengths fit a classical CAN frame.
\<close>

section \<open>What a node sends\<close>

text \<open>Every frame that an operation of a node hands to the application for the bus.\<close>

inductive node_sends ::
  "('m, 'b, 'p, 'r, 't, 'h, 'f) node_ops \<Rightarrow> ('m, 'b, 'r, 't, 'h) node \<Rightarrow> tx_frame \<Rightarrow> bool" for E nd where
  send_answer: "on_frame E cob_id data nd = Done (nd', Some f) \<Longrightarrow> node_sends E nd f"
| send_boot: "node_sends E nd (snd (node_boot nd))"
| send_heartbeat: "node_sends E nd (node_heartbeat nd)"
| send_guard: "node_sends E nd (snd (node_guard_response nd))"
| send_emergency: "length info = 5 \<Longrightarrow> raise_emergency E code reg info nd = Done (nd', f) \<Longrightarrow>
    node_sends E nd f"
| send_clear: "node_sends E nd (snd (clear_errors E nd))"
| send_sync: "snd (produce_sync nd) = Some f \<Longrightarrow> node_sends E nd f"
| send_tpdo: "node_tpdo E i nd = Done (Some f) \<Longrightarrow> node_sends E nd f"
| send_sync_tpdo: "sync_tpdos E nd = Done fs \<Longrightarrow> f \<in> set (v_slice (no_frames E) fs) \<Longrightarrow> node_sends E nd f"

text \<open>A classical CAN frame: an 11-bit identifier and at most 8 bytes, which \<open>data()\<close> can slice.\<close>

definition can_fits :: "tx_frame \<Rightarrow> bool" where
  "can_fits f \<longleftrightarrow> tx_cob_id f \<le> 0x7FF \<and> unat (tx_len f) \<le> 8 \<and> length (tx_buf f) = 8"

lemma tx_new_len: "unat (tx_len (tx_new c bytes)) \<le> 8" "length (tx_buf (tx_new c bytes)) = 8"
  by (auto simp: tx_new_def Let_def unat_of_nat)

lemma on_frame_new:
  "on_frame E cob_id data nd = Done (nd', Some f) \<Longrightarrow> \<exists>c bs. f = tx_new c bs"
  by (auto simp: on_frame_def on_lss_def on_sdo_def run_bind_eq_Done_iff run_map_eq_Done_iff
      split: if_splits option.splits prod.splits)

lemma raise_emergency_new:
  "raise_emergency E code reg info nd = Done (nd', f) \<Longrightarrow> \<exists>bs. f = tx_new (emcy_cob_id (nd_id nd)) bs"
  by (auto simp: raise_emergency_def Let_def run_bind_eq_Done_iff mirror_error_objects_sel)

lemma tpdo_frame_new: "tpdo_frame E od slot = Some f \<Longrightarrow> \<exists>bs. f = tx_new (tp_cob_id slot) bs"
  by (auto simp: tpdo_frame_def Let_def split: if_splits)

definition node_channels ::
  "('m, 'b, 'p, 'r, 't, 'h, 'f) node_ops \<Rightarrow> ('m, 'b, 'r, 't, 'h) node \<Rightarrow> u16 set" where
  "node_channels E nd =
     {LSS_SLAVE_COB_ID, response_cob_id (nd_id nd), heartbeat_cob_id (nd_id nd), emcy_cob_id (nd_id nd),
      SYNC_COB_ID} \<union> tp_cob_id ` set (v_slice (no_tpdos E) (nd_tpdos nd))"

lemma channels_bound:
  assumes "wf_node_id (nd_id nd)" and "\<forall>s \<in> set (v_slice (no_tpdos E) (nd_tpdos nd)). tp_cob_id s \<le> 0x7FF"
  shows "c \<in> node_channels E nd \<Longrightarrow> c \<le> 0x7FF"
proof -
  have id: "unat (raw (nd_id nd)) \<le> 127"
    using assms(1) by (auto simp: wf_node_id_def device_id_nat BROADCAST_def)
  have "unat (response_cob_id (nd_id nd)) \<le> 0x7FF" "unat (heartbeat_cob_id (nd_id nd)) \<le> 0x7FF"
    "unat (emcy_cob_id (nd_id nd)) \<le> 0x7FF"
    using id unat_cob_of [of "0x580" "nd_id nd"] unat_cob_of [of "0x700" "nd_id nd"]
      unat_cob_of [of "0x080" "nd_id nd"]
    by (simp_all add: response_cob_id_def heartbeat_cob_id_def emcy_cob_id_def cob_of_def)
  then show "c \<in> node_channels E nd \<Longrightarrow> c \<le> 0x7FF"
    using assms(2) by (auto simp: node_channels_def word_le_nat_alt)
qed

lemma build_tpdo_range:
  assumes "build_tpdo P M od n = Some s"
  shows "tp_cob_id s \<le> 0x7FF"
proof -
  have "tp_cob_id s \<in> range pdo_can_id"
    using assms by (auto simp: build_tpdo_def Let_def split: option.splits if_splits)
  moreover have "pdo_can_id w \<le> 0x7FF" for w
  proof -
    have "w AND 0x7FF \<le> 0x7FF" by (rule word_and_le1)
    then have "unat (w AND 0x7FF) \<le> 0x7FF" by (simp add: word_le_nat_alt)
    then show ?thesis by (simp add: pdo_can_id_def word_le_nat_alt unsigned_ucast_eq take_bit_nat_eq_self)
  qed
  ultimately show ?thesis by auto
qed

context node_env
begin

lemma sends_channel:
  assumes "wf_node E nd" and "node_sends E nd f"
  shows "\<exists>c bs. f = tx_new c bs \<and> c \<in> node_channels E nd"
  using assms(2)
proof cases
  case (send_answer cob_id data nd')
  obtain c bs where "f = tx_new c bs" using on_frame_new [OF send_answer] by blast
  then show ?thesis using on_frame_post [OF assms(1), of cob_id data] send_answer
    by (auto simp: frame_post_def node_channels_def)
next
  case (send_emergency info code reg nd')
  then show ?thesis using raise_emergency_new [of E code reg info nd nd' f]
    by (auto simp: node_channels_def)
next
  case (send_tpdo i)
  then have slot: "i < v_len (no_tpdos E) (nd_tpdos nd)"
    "tpdo_frame E (nd_od nd) (v_slice (no_tpdos E) (nd_tpdos nd) ! i) = Some f"
    using node_tpdo_result [OF assms(1), of i] by (auto split: if_splits)
  then show ?thesis using tpdo_frame_new [OF slot(2)] by (fastforce simp: node_channels_def)
next
  case (send_sync_tpdo fs)
  then obtain s where "s \<in> set (v_slice (no_tpdos E) (nd_tpdos nd))" "tpdo_frame E (nd_od nd) s = Some f"
    using sync_tpdos_result [OF assms(1)] by (auto simp: map_filter_iff split: if_splits)
  then show ?thesis using tpdo_frame_new by (fastforce simp: node_channels_def)
qed (auto simp: node_channels_def node_boot_def node_heartbeat_def node_guard_response_def clear_errors_def
    produce_sync_def Let_def mirror_error_objects_sel split: option.splits prod.splits)

end

text \<open>C24: Whatever a node has lived through, every frame it sends (an answer, a boot-up, heartbeat, node-guard,
  emergency or SYNC frame, a transmit PDO) is a classical CAN frame on one of the node's own channels: its
  identifier has 11 bits, as long as the transmit PDOs added by hand are in that range, and its length
  stays within the 8-byte buffer that \<open>data()\<close> slices. The slots rebuilt from the dictionary are always in range,
  whatever a master wrote there.\<close>

theorem node_frames_fit:
  assumes "node_env E N" and "node_reachable E nd" and "wf_node_id (nd_id nd)"
    and "\<forall>s \<in> set (v_slice (no_tpdos E) (nd_tpdos nd)). tp_cob_id s \<le> 0x7FF"
    and "node_sends E nd f"
  shows "can_fits f \<and> tx_cob_id f \<in> node_channels E nd \<and>
    (\<forall>s \<in> set (v_slice (no_tpdos E) (nd_tpdos (configure_pdos_from_od E nd))). tp_cob_id s \<le> 0x7FF)"
proof -
  have wf: "wf_node E nd" by (rule node_env.wf_reachable [OF assms(1,2)])
  obtain c bs where f: "f = tx_new c bs" "c \<in> node_channels E nd"
    using node_env.sends_channel [OF assms(1) wf assms(5)] by blast
  then have "can_fits f" using tx_new_len channels_bound [OF assms(3,4)] by (simp add: can_fits_def)
  moreover have "\<forall>s \<in> set (v_slice (no_tpdos E) (nd_tpdos (configure_pdos_from_od E nd))). tp_cob_id s \<le> 0x7FF"
    unfolding node_env.configure_pdos_result(2) [OF assms(1)] map_filter_iff Ball_def
    by (metis build_tpdo_range)
  ultimately show ?thesis using f by simp
qed

lemma reachable_example_producer: "node_reachable (list_node_ops 4) example_producer"
proof -
  let ?E = "list_node_ops 4" and ?n0 = "node_new (list_node_ops 4) (NodeId 1) (example_store 0xBEEF 0x42)"
  let ?n1 = "fst (node_boot ?n0)" and ?t = "\<lparr>tp_cob_id = 0x181, tp_mapping = example_mapping,
    tp_transmission = SynchronousCyclic 1\<rparr>"
  let ?n2 = "?n1\<lparr>nd_nmt := \<lparr>sm_state = Operational\<rparr>\<rparr>"
  have "node_reachable ?E ?n0" by (rule reach_new) (simp add: wf_od_def example_store_def)
  then have "node_reachable ?E ?n1" by (rule reach_step) (rule step_boot)
  moreover have "on_frame ?E 0 [1, 0] ?n1 = Done (?n2, None)"
    by code_simp
  ultimately have "node_reachable ?E ?n2" using reach_step step_frame by metis
  moreover have "add_tpdo ?E 0x181 example_mapping (SynchronousCyclic 1) ?n2 = Inr example_producer"
    by code_simp
  moreover have "total_bits (no_map ?E) example_mapping \<le> 64" by code_simp
  ultimately show ?thesis using reach_step step_tpdo by metis
qed

theorem node_frames_fit_witness:
  "can_fits (tx_new 0x181 [0xEF, 0xBE, 0x42]) \<and> 0x181 \<in> node_channels (list_node_ops 4) example_producer \<and>
    node_sends (list_node_ops 4) example_producer (tx_new 0x181 [0xEF, 0xBE, 0x42])"
proof -
  have "node_tpdo (list_node_ops 4) 0 example_producer = Done (Some (tx_new 0x181 [0xEF, 0xBE, 0x42]))"
    by code_simp
  then have sends: "node_sends (list_node_ops 4) example_producer (tx_new 0x181 [0xEF, 0xBE, 0x42])"
    by (rule send_tpdo)
  have "wf_node_id (nd_id example_producer)"
    "\<forall>s \<in> set (v_slice (no_tpdos (list_node_ops 4)) (nd_tpdos example_producer)). tp_cob_id s \<le> 0x7FF"
    by (simp_all add: example_pdo_defs wf_node_id_def device_id_def)
  from node_frames_fit [OF list_node.node_env_axioms reachable_example_producer this sends]
  show ?thesis using sends by simp
qed

end
