(* ===== verification/Spec2Isabelle.thy ===== *)
theory Spec2Isabelle
  imports Crc_Poly Time Standard Heartbeat_Monitor Eds_Codegen Byte_Text Network Async_Server Loopback_Run
    Commissioned_Network Node_Frames
begin

text \<open>
  canopen-rs is a CANopen stack in Rust: a core without input and output (\<^verbatim>\<open>core/src\<close>), a host library
  over Linux SocketCAN (\<^verbatim>\<open>host/src\<close>) and a command line tool (\<^verbatim>\<open>cli/src/main.rs\<close>). This development
  models the three layers and proves them correct, alone and composed.

  \<^bold>\<open>Conventions.\<close> A struct is a record, an enumeration a datatype, a machine integer a word of its width,
  a \<open>Result\<close> a sum whose left side is the error. An operation that could panic (\<open>expect\<close>, an index or slice
  out of range, an arithmetic overflow, with overflow checks on) has a result of type \<open>run\<close>, whose value
  \<open>Panic\<close> is the panic; operations with \<open>&mut self\<close> return the updated state. Containers of the crate
  \<open>heapless\<close>, CAN frames and the socket, and the reader and printer of floating-point literals are not
  part of the sources: they are arguments of the definitions, and the locales \<open>linear_map\<close>,
  \<open>bounded_vec\<close>, \<open>byte_vec\<close>, \<open>can_frames\<close> and \<open>float_text\<close> state their documented behaviour. \<open>object_map\<close>, \<open>sdo_env\<close>,
  \<open>node_env\<close> and \<open>device_bus\<close> build on them for the dictionary, the SDO parties, a node and a bus; the
  interpretations on bounded lists (\<open>assoc_ops\<close>, \<open>list_ops\<close>, \<open>list_node_ops\<close>) and on exact floats (\<open>exact_floats\<close>, \<open>exact_printer\<close>) serve the
  witnesses. Floats are their bits; the equality of values is that of IEEE 754 (\<open>value_eq\<close>).

  \<^bold>\<open>Ground.\<close> \<open>Prelude\<close> has the integers, the little-endian codec, panics and buffers; \<open>Heapless\<close> the
  container interfaces with two instances; \<open>Rust_Str\<close> the string operations of the standard library.
  \<open>Types\<close>, \<open>Datatypes\<close> and \<open>Object_Dictionary\<close> model \<^verbatim>\<open>types.rs\<close>, \<^verbatim>\<open>datatypes.rs\<close> and
  \<^verbatim>\<open>object_dictionary.rs\<close>: errors, node-ids, values and their encoding, and the dictionary as a map.

  \<^bold>\<open>SDO.\<close> \<open>Sdo\<close> models the frames and segment helpers of \<^verbatim>\<open>sdo/mod.rs\<close>, \<open>Sdo_Server\<close> and \<open>Sdo_Client\<close>
  the two state machines. \<open>Sdo_Session\<close> connects them back to back and shows that a read and a write end
  after at most six exchanges (a value has at most 32 bytes, so at most five segments after the first
  request), and that they return the stored value, store the written one, or report the right abort
  code. \<open>Sdo_Block\<close> models \<^verbatim>\<open>sdo/block.rs\<close>; its transfer loop takes fuel \<open>2 * length + 1\<close>, as each
  segment and each acknowledgement consumes one. \<open>Crc_Poly\<close> compares the shifting CRC with polynomial
  division. \<open>Sdo_Peer\<close> puts the client in front of an arbitrary peer: how long responses can keep it busy,
  the empty segments it accepts without end, and the late answers it takes for the current one.

  \<^bold>\<open>The other services.\<close> \<open>Nmt\<close>, \<open>Sync\<close>, \<open>Emcy\<close>, \<open>Time\<close>, \<open>Pdo\<close> and \<open>Lss\<close> model the files of the same
  names: exact codecs (a frame decodes exactly when it encodes something), the NMT machine against the
  history of its commands, the CiA 301 counter, packing and unpacking of mapped objects, selective
  switching, and Fastscan, which ends within the 134 rounds that its loop is given (one scan for every
  bit of the 128-bit address, four confirmations, the first probe, and a round that notices the end).
  \<open>Fastscan_Bus\<close> puts any number of slaves on the bus, of which the master sees only whether one answered:
  with the same fuel the scan finds the smallest address. \<open>Commissioning\<close> repeats it over the nodes of a
  network, with one round more than there are addresses, until every node has an id of its own, and
  \<open>Commissioned_Network\<close> lets the host read all of them after their boot.

  \<^bold>\<open>The node.\<close> \<open>Node\<close> models \<^verbatim>\<open>node.rs\<close>: one record with the server, the dictionary and the state of every
  service, and the dispatch of a received frame. Its invariant is \<open>wf_node\<close>. \<open>Node_Errors\<close> treats
  emergencies, \<open>Node_Pdo\<close> process data and their configuration, whose slots are exactly those that the
  configured objects of the dictionary describe, and \<open>Node_Reach\<close> all
  histories of calls as a step relation: no history leads to a panic. \<open>Node_Frames\<close> bounds the identifier
  and the length of every frame that a node sends. \<open>Standard\<close> models the builder of
  \<^verbatim>\<open>standard.rs\<close>.

  \<^bold>\<open>Host and tool.\<close> \<open>Transport\<close> models \<^verbatim>\<open>core/src/transport.rs\<close> and \<^verbatim>\<open>host/src/transport.rs\<close> and puts a
  device node at the other end of the bus: receiving is a partial function, and its termination under
  any finite traffic in between is part of the theorems. The locale \<open>sdo_link\<close> states what a transaction
  needs of a socket (a request is answered and the line is idle again); the bus and the loopback example
  both provide it. \<open>Async_Transport\<close> models \<^verbatim>\<open>host/src/async_transport.rs\<close>: a future is the state it
  waits in, polling it a step; one task computes what the blocking call computes, and the interleavings of
  several tasks on one socket are a step relation. \<open>Async_Server\<close> models \<^verbatim>\<open>host/examples/async_vcan.rs\<close>, a
  task that serves a node beside one that awaits transactions: by a simulation, every schedule of the two
  is a run of the bus of \<open>Transport\<close>, on which the node answers at once, so all schedules end and agree.
  \<open>Loopback\<close> models the server and the master of
  \<^verbatim>\<open>host/examples/vcan_loopback.rs\<close>, and \<open>Loopback_Run\<close> runs them against each other from the LSS
  assignment to the block transfer, for all containers and frames. \<open>Heartbeat_Monitor\<close> models \<^verbatim>\<open>host/src/nmt.rs\<close>,
  \<open>Eds\<close> and \<open>Eds_Roundtrip\<close> the parser of \<^verbatim>\<open>host/src/eds.rs\<close> with a writer it inverts, \<open>Eds_Codegen\<close>
  the generator of \<^verbatim>\<open>host/src/codegen.rs\<close>, whose output builds the same dictionary unless a default is NaN
  or infinite, and then does not compile (\<open>Float_Text\<close> has what that needs of printed floats), \<open>Byte_Text\<close> the
  texts of byte strings, and \<open>Cli\<close> the argument parsers and bus commands of the tool, down to the
  dictionary of the device. \<open>Cli_Output\<close> is the program around them: opening the interface, the six
  commands from the parsed arguments to what is printed, the \<open>Debug\<close> texts, and the endless loop of the
  monitor as a partial function; \<open>Cli_Monitor\<close> reads the monitor's log back. \<open>Network\<close> puts any
  number of nodes on one bus: the socket of the host is an instance of \<open>sdo_link\<close> for each of them, and a node-control command reaches exactly the
  nodes it addresses. The fuel of its bus is one more than the number of nodes and counts frames: an SDO
  request takes two (the request and its answer), a command one, and running out would be an error of
  the write. The section below shows that the default channels of all these services
  are free of conflicts.

  \<^bold>\<open>Not modelled.\<close> The system calls behind a socket, a timeout, a thread or a file, and a transmit queue
  that is full: they are parameters, or operations that are always ready. What the examples print; the
  parser of the command line (the crate \<open>clap\<close>); of an error of the tool all but its top-level message;
  one-line accessors of a field; the constants
  that only name emergency codes and register bits for applications; unit and integration tests.
\<close>

section \<open>The predefined connection set\<close>

text \<open>
  The channels that a device with the default configuration uses: emergencies, the four transmit and
  the four receive PDOs, the SDO channels and the heartbeat.
\<close>

definition connection_set :: "node_id \<Rightarrow> u16 option list" where
  "connection_set n =
     [Some (emcy_cob_id n)]
     @ map (\<lambda>k. default_cob_id Transmit k n) [1, 2, 3, 4]
     @ map (\<lambda>k. default_cob_id Receive k n) [1, 2, 3, 4]
     @ [Some (response_cob_id n), Some (request_cob_id n), Some (heartbeat_cob_id n)]"

definition connection_labels :: "string list" where
  "connection_labels = [''EMCY''] @ replicate 8 ''PDO'' @ [''SDO tx'', ''SDO rx'', ''heartbeat'']"

definition connection_bases :: "nat list" where
  "connection_bases = [0x80, 0x180, 0x280, 0x380, 0x480, 0x200, 0x300, 0x400, 0x500, 0x580, 0x600, 0x700]"

lemma connection_set_bases:
  "connection_set n = map (\<lambda>b. Some (cob_of (of_nat b) n)) connection_bases"
  by (simp add: connection_set_def connection_bases_def emcy_cob_id_def response_cob_id_def
      request_cob_id_def heartbeat_cob_id_def default_cob_id_def cob_of_def)

lemma connection_bases_set: "b \<in> set connection_bases \<Longrightarrow> b \<le> 0x700 \<and> b mod 0x80 = 0"
  by (auto simp: connection_bases_def)

lemma unat_connection:
  assumes "b \<in> set connection_bases"
  shows "unat (cob_of (of_nat b) n) = b + unat (raw n)"
proof -
  have "unat (of_nat b :: u16) = b"
    using connection_bases_set [OF assms] by (simp add: unat_of_nat take_bit_nat_eq_self)
  then show ?thesis using connection_bases_set [OF assms] by (simp add: unat_cob_of)
qed

lemma connection_inject:
  assumes "device_id n" "device_id m" "b \<in> set connection_bases" "c \<in> set connection_bases"
    and eq: "cob_of (of_nat b) n = cob_of (of_nat c) m"
  shows "b = c \<and> n = m"
proof -
  have sum: "b + unat (raw n) = c + unat (raw m)"
    using eq unat_connection [of b n] unat_connection [of c m] assms(3,4) by metis
  have "unat (raw n) < 0x80" "unat (raw m) < 0x80"
    using assms(1,2) by (simp_all add: device_id_nat)
  then have "unat (raw n) = unat (raw m)"
    using arg_cong [OF sum, where f = "\<lambda>x. x mod 0x80"] connection_bases_set [OF assms(3)]
      connection_bases_set [OF assms(4)] by (simp add: mod_add_left_eq [of b, symmetric] mod_add_left_eq [of c, symmetric])
  then have "raw n = raw m" by (simp add: unsigned_word_eqI)
  then show ?thesis using sum by (cases n; cases m) simp
qed

lemma classify_nat:
  "classify c = (let k = unat c in
     if k = 0x000 then ''NMT'' else if k = 0x080 then ''SYNC'' else if 0x081 \<le> k \<and> k \<le> 0x0FF then ''EMCY''
     else if k = 0x100 then ''TIME'' else if 0x180 \<le> k \<and> k \<le> 0x57F then ''PDO''
     else if 0x580 \<le> k \<and> k \<le> 0x5FF then ''SDO tx'' else if 0x600 \<le> k \<and> k \<le> 0x67F then ''SDO rx''
     else if 0x700 \<le> k \<and> k \<le> 0x77F then ''heartbeat'' else if k = 0x7E4 \<or> k = 0x7E5 then ''LSS'' else [])"
  unfolding classify_def word_le_nat_alt word_unat_eq_iff Let_def by simp

definition base_label :: "nat \<Rightarrow> string" where
  "base_label b = (if b = 0x80 then ''EMCY'' else if b < 0x580 then ''PDO'' else if b = 0x580 then ''SDO tx''
     else if b = 0x600 then ''SDO rx'' else ''heartbeat'')"

lemma classify_base:
  assumes "device_id n" and b: "b \<in> set connection_bases"
  shows "classify (cob_of (of_nat b) n) = base_label b"
proof -
  have k: "unat (cob_of (of_nat b) n) = b + unat (raw n)" by (rule unat_connection [OF b])
  have r: "1 \<le> unat (raw n)" "unat (raw n) \<le> 127" using assms(1) by (simp_all add: device_id_nat)
  from b have "b \<in> {0x80} \<or> b \<in> {0x180, 0x200, 0x280, 0x300, 0x380, 0x400, 0x480, 0x500} \<or>
      b \<in> {0x580} \<or> b \<in> {0x600} \<or> b \<in> {0x700}"
    unfolding connection_bases_def by simp argo
  then show ?thesis unfolding classify_nat k Let_def base_label_def using r by (elim disjE) auto
qed

lemma classify_connection:
  assumes "device_id n"
  shows "map (map_option classify) (connection_set n) = map Some connection_labels"
proof -
  have "map (map_option classify) (connection_set n) = map (\<lambda>b. Some (base_label b)) connection_bases"
    unfolding connection_set_bases map_map by (rule map_cong) (simp_all add: classify_base [OF assms])
  also have "\<dots> = map Some connection_labels"
    by (simp add: connection_bases_def base_label_def connection_labels_def numeral_eq_Suc)
  finally show ?thesis .
qed

text \<open>The predefined connection set is free of conflicts: two default channels of device nodes
  have the same COB-ID only if they are the same channel of the same node, and the monitor's classifier
  gives every one of them the label of its service, so none is a broadcast or LSS channel.\<close>

lemma connection_set_disjoint:
  assumes "device_id n" "device_id m" "i < length (connection_set n)" "j < length (connection_set m)"
    and "connection_set n ! i = connection_set m ! j"
  shows "i = j \<and> n = m \<and> map_option classify (connection_set n ! i) = Some (connection_labels ! i)"
proof -
  have len: "length (connection_set k) = length connection_bases" for k
    by (simp add: connection_set_bases)
  have "connection_bases ! i = connection_bases ! j \<and> n = m"
    using assms len [of n] len [of m]
    by (intro connection_inject) (simp_all add: connection_set_bases)
  moreover have "distinct connection_bases" by (simp add: connection_bases_def)
  ultimately have "i = j \<and> n = m" using assms(3,4) len by (simp add: nth_eq_iff_index_eq)
  moreover have "map_option classify (connection_set n ! i) = Some (connection_labels ! i)"
    using classify_connection [OF assms(1)] assms(3) by (metis length_map nth_map)
  ultimately show ?thesis by simp
qed

end
